(* ===== verification/Prelude.thy ===== *)
theory Prelude
  imports Main "HOL-Library.Word" "HOL-Library.Multiset"
begin

text \<open>
  Shared vocabulary of the development: the machine integer types, the outcome type that
  turns C's ways of not returning normally (a failed \<open>CHECK\<close>, undefined behaviour) into
  values, the alignment macros of \<^verbatim>\<open>inc/hf/arch/std.h\<close>, and the generic facts on words,
  lists and multisets that the component theories use.
\<close>

unbundle bit_operations_syntax

type_synonym u8 = "8 word"
type_synonym u16 = "16 word"
type_synonym u32 = "32 word"
type_synonym u64 = "64 word"

named_theorems unat_norm \<open>rewriting word operations into arithmetic on natural numbers\<close>

section \<open>Outcomes\<close>

text \<open>
  \<open>Ret\<close> is a normal return. \<open>Panic\<close> is a failed \<open>CHECK\<close> or a call of \<open>panic\<close>, which
  stops the system. \<open>Undef\<close> marks an access or a shift the C standard leaves undefined
  (an entry past the end of a page table, a shift by at least the width).
\<close>

datatype 'a outcome = Ret 'a | Panic | Undef

fun and_then :: "'a outcome \<Rightarrow> ('a \<Rightarrow> 'b outcome) \<Rightarrow> 'b outcome" where
  "and_then (Ret x) f = f x"
| "and_then Panic f = Panic"
| "and_then Undef f = Undef"

fun returns :: "'a outcome \<Rightarrow> bool" where
  "returns (Ret x) = True"
| "returns Panic = False"
| "returns Undef = False"

definition check :: "bool \<Rightarrow> 'a outcome \<Rightarrow> 'a outcome" where
  "check b k = (if b then k else Panic)"

lemma check_True [simp]: "check True k = k"
  by (simp add: check_def)

lemma check_False [simp]: "check False k = Panic"
  by (simp add: check_def)

lemma check_eq_Ret [simp]: "check b k = Ret x \<longleftrightarrow> b \<and> k = Ret x"
  by (simp add: check_def)

lemma and_then_eq_Ret [simp]: "and_then m f = Ret y \<longleftrightarrow> (\<exists>x. m = Ret x \<and> f x = Ret y)"
  by (cases m) auto

lemma and_then_cong [fundef_cong]:
  "m = m' \<Longrightarrow> (\<And>x. m' = Ret x \<Longrightarrow> f x = g x) \<Longrightarrow> and_then m f = and_then m' g"
  by (cases m') auto

lemma returns_iff: "returns m \<longleftrightarrow> (\<exists>x. m = Ret x)"
  by (cases m) auto

section \<open>Words as natural numbers\<close>

lemma word_eq_bits: "(a :: 'a::len word) = b \<longleftrightarrow> (\<forall>n. bit a n \<longleftrightarrow> bit b n)"
  by (auto intro: bit_eqI)

lemma unat_drop_bit_div [unat_norm]: "unat (drop_bit n (a :: 'a::len word)) = unat a div 2 ^ n"
  by (simp add: unat_drop_bit_eq drop_bit_nat_def)

lemma unat_push_bit_mult:
  fixes a :: "'a::len word"
  assumes "unat a * 2 ^ n < 2 ^ LENGTH('a)"
  shows "unat (push_bit n a) = unat a * 2 ^ n"
  using assms by (simp add: unsigned_push_bit_eq push_bit_nat_def take_bit_nat_def)

lemma unat_push_drop [unat_norm]:
  fixes a :: "'a::len word"
  shows "unat (push_bit n (drop_bit n a)) = unat a div 2 ^ n * 2 ^ n"
proof -
  have "unat a div 2 ^ n * 2 ^ n \<le> unat a" by simp
  also have "unat a < 2 ^ LENGTH('a)" by simp
  finally have "unat a div 2 ^ n * 2 ^ n < 2 ^ LENGTH('a)" .
  then show ?thesis
    by (simp add: unsigned_push_bit_eq unat_drop_bit_eq drop_bit_nat_def push_bit_nat_def
        take_bit_nat_def)
qed

lemma and_not_low_mask:
  fixes a :: "'a::len word"
  shows "a AND NOT (2 ^ n - 1) = push_bit n (drop_bit n a)"
  by (rule bit_eqI) (auto simp: bit_simps mask_eq_exp_minus_1 [symmetric])

lemma unat_and_not_low_mask [unat_norm]:
  fixes a :: "'a::len word"
  shows "unat (a AND NOT (2 ^ n - 1)) = unat a div 2 ^ n * 2 ^ n"
  by (simp add: and_not_low_mask unat_push_drop)

lemma unat_and_low_mask [unat_norm]:
  fixes a :: "'a::len word"
  shows "unat (a AND (2 ^ n - 1)) = unat a mod 2 ^ n"
  by (simp add: mask_eq_exp_minus_1 [symmetric] flip: take_bit_eq_mask take_bit_eq_mod)
    (simp add: unsigned_take_bit_eq)

lemma unat_two_power [simp]:
  "n < LENGTH('a) \<Longrightarrow> unat ((2 :: 'a::len word) ^ n) = 2 ^ n"
proof -
  assume "n < LENGTH('a)"
  then have "(2 :: nat) ^ n < 2 ^ LENGTH('a)" by simp
  then have "unat (of_nat (2 ^ n) :: 'a word) = 2 ^ n"
    by (simp only: unat_of_nat mod_less)
  then show ?thesis by simp
qed

lemma unat_add_no_wrap:
  fixes a b :: "'a::len word"
  shows "unat a + unat b < 2 ^ LENGTH('a) \<Longrightarrow> unat (a + b) = unat a + unat b"
  by (simp add: unat_plus_if')

lemma unat_mult_no_wrap:
  fixes a b :: "'a::len word"
  shows "unat a * unat b < 2 ^ LENGTH('a) \<Longrightarrow> unat (a * b) = unat a * unat b"
  by (simp add: unat_word_ariths)

lemma unat_of_nat_less: "n < 2 ^ LENGTH('a) \<Longrightarrow> unat (of_nat n :: 'a::len word) = n"
  by (simp add: unat_of_nat)

lemma word_eq_unatI: "unat a = unat b \<Longrightarrow> a = b"
  by (simp add: word_unat_eq_iff)

lemma u64_bound [simp]: "unat (a :: u64) < 18446744073709551616"
proof -
  have "unat a < 2 ^ LENGTH(64)" by (rule unsigned_less)
  then show ?thesis by simp
qed

lemma u64_lt: "unat (a :: u64) < 2 ^ 64"
  by simp

lemma round_up_ge:
  fixes v e :: nat
  assumes "0 < e"
  shows "v \<le> (v + e - 1) div e * e"
proof -
  have "(v + e - 1) div e * e + (v + e - 1) mod e = v + e - 1" by simp
  moreover have "(v + e - 1) mod e < e" using assms by simp
  ultimately show ?thesis by linarith
qed

section \<open>The alignment macros\<close>

text \<open>
  \<open>is_aligned\<close>, \<open>align_up\<close> and \<open>align_down\<close> of \<^verbatim>\<open>inc/hf/arch/std.h\<close>; the boundary is a
  power of two at every use.
\<close>

definition is_aligned :: "u64 \<Rightarrow> u64 \<Rightarrow> bool" where
  "is_aligned v a \<longleftrightarrow> v AND (a - 1) = 0"

definition align_up :: "u64 \<Rightarrow> u64 \<Rightarrow> u64" where
  "align_up v a = (v + (a - 1)) AND NOT (a - 1)"

definition align_down :: "u64 \<Rightarrow> u64 \<Rightarrow> u64" where
  "align_down v a = v AND NOT (a - 1)"

definition pow2 :: "u64 \<Rightarrow> bool" where
  "pow2 a \<longleftrightarrow> (\<exists>n<64. a = 2 ^ n)"

lemma pow2_pos: "pow2 a \<Longrightarrow> 0 < unat a"
  by (auto simp: pow2_def)

lemma is_aligned_dvd: "pow2 a \<Longrightarrow> is_aligned v a \<longleftrightarrow> unat a dvd unat v"
proof -
  assume "pow2 a"
  then obtain n where n: "n < 64" "a = 2 ^ n" by (auto simp: pow2_def)
  have "is_aligned v a \<longleftrightarrow> unat (v AND (2 ^ n - 1)) = 0"
    by (simp add: is_aligned_def n unat_eq_zero)
  then show ?thesis
    by (simp add: n unat_and_low_mask dvd_eq_mod_eq_0)
qed

lemma align_down_unat:
  assumes "pow2 a"
  shows "unat (align_down v a) = unat v div unat a * unat a"
proof -
  from assms obtain n where "n < 64" "a = 2 ^ n" by (auto simp: pow2_def)
  then show ?thesis by (simp add: align_down_def unat_and_not_low_mask)
qed

lemma align_up_unat:
  assumes "pow2 a" "unat v + unat a \<le> 2 ^ 64"
  shows "unat (align_up v a) = (unat v + unat a - 1) div unat a * unat a"
proof -
  from assms(1) obtain n where n: "n < 64" "a = 2 ^ n" by (auto simp: pow2_def)
  have a1: "unat (a - 1) = unat a - 1"
    using n by (subst unat_sub) (auto simp: word_le_nat_alt)
  have "unat (v + (a - 1)) = unat v + (unat a - 1)"
    using assms(2) a1 pow2_pos [OF assms(1)] by (subst unat_add_no_wrap) auto
  then show ?thesis
    using n pow2_pos [OF assms(1)] by (simp add: align_up_def unat_and_not_low_mask)
qed

lemma align_up_dvd_id:
  assumes "pow2 a" "unat a dvd unat v" "unat v + unat a \<le> 2 ^ 64"
  shows "align_up v a = v"
proof -
  from assms(2) obtain k where k: "unat v = unat a * k" by (auto elim: dvdE)
  have "(unat a * k + (unat a - 1)) div unat a = k"
    using pow2_pos [OF assms(1)] by (simp add: div_mult_self4 del: add_diff_assoc)
  moreover have "unat v + unat a - 1 = unat a * k + (unat a - 1)"
    using pow2_pos [OF assms(1)] k by simp
  ultimately have "unat (align_up v a) = k * unat a"
    using assms by (simp add: align_up_unat)
  then show ?thesis using k by (simp add: word_eq_unatI)
qed

lemma align_down_dvd_id:
  "pow2 a \<Longrightarrow> unat a dvd unat v \<Longrightarrow> align_down v a = v"
  by (rule word_eq_unatI) (simp add: align_down_unat)

end
