(* ===== verification/Mpool.thy ===== *)
theory Mpool
  imports Prelude
begin

text \<open>
  The memory pool of \<^verbatim>\<open>src/mpool.c\<close>. A pool hands out entries of one size; it keeps a free
  list of single entries, a list of contiguous chunks not yet broken up, and an optional
  fallback pool that is tried when it runs out.

  The C code threads both lists through the free memory itself; here they are HOL lists in
  the same order, a chunk being its start address and its limit. A pool that falls back on
  another one holds it as a component, as \<open>mpool_init_with_fallback\<close> creates it. The null
  pointer is \<open>None\<close>. The pool locks have no effect on a sequential run and are left out.

  The theory ends with the interface \<open>page_pool\<close> that the page-table code relies on and its
  interpretation on the pool.
\<close>

section \<open>The pool\<close>

type_synonym mpool_chunk = "u64 \<times> u64"

datatype mpool =
  Mpool (entry_size: u64) (chunk_list: "mpool_chunk list") (entry_list: "u64 list")
    (fallback: "mpool option")

definition mpool_init :: "u64 \<Rightarrow> mpool" where
  "mpool_init es = Mpool es [] [] None"

text \<open>Both pools are returned: the new one and the emptied source.\<close>

definition mpool_init_from :: "mpool \<Rightarrow> mpool \<times> mpool" where
  "mpool_init_from src =
     (Mpool (entry_size src) (chunk_list src) (entry_list src) (fallback src),
      Mpool (entry_size src) [] [] None)"

definition mpool_init_with_fallback :: "mpool \<Rightarrow> mpool" where
  "mpool_init_with_fallback fb = Mpool (entry_size fb) [] [] (Some fb)"

fun mpool_add_chunk :: "mpool \<Rightarrow> u64 \<Rightarrow> u64 \<Rightarrow> mpool \<times> bool" where
  "mpool_add_chunk (Mpool es cs fs fb) begin sz =
     (let new_begin = align_up begin es;
          new_end = align_down (begin + sz) es
      in if new_begin \<ge> new_end \<or> new_end - new_begin < es
         then (Mpool es cs fs fb, False)
         else (Mpool es ((new_begin, new_end) # cs) fs fb, True))"

fun mpool_alloc_no_fallback :: "mpool \<Rightarrow> mpool \<times> u64 option" where
  "mpool_alloc_no_fallback (Mpool es cs fs fb) =
     (case fs of
        e # fs' \<Rightarrow> (Mpool es cs fs' fb, Some e)
      | [] \<Rightarrow>
          (case cs of
             [] \<Rightarrow> (Mpool es cs fs fb, None)
           | (chunk, limit) # cs' \<Rightarrow>
               let new_chunk = chunk + es
               in if new_chunk \<ge> limit
                  then (Mpool es cs' fs fb, Some chunk)
                  else (Mpool es ((new_chunk, limit) # cs') fs fb, Some chunk)))"

definition set_fallback :: "mpool \<Rightarrow> mpool option \<Rightarrow> mpool" where
  "set_fallback p fb = Mpool (entry_size p) (chunk_list p) (entry_list p) fb"

fun mpool_alloc :: "mpool \<Rightarrow> mpool \<times> u64 option" where
  "mpool_alloc (Mpool es cs fs fb) =
     (case mpool_alloc_no_fallback (Mpool es cs fs fb) of
        (p', Some r) \<Rightarrow> (p', Some r)
      | (p', None) \<Rightarrow>
          (case fb of
             None \<Rightarrow> (p', None)
           | Some q \<Rightarrow> (case mpool_alloc q of (q', r) \<Rightarrow> (set_fallback p' (Some q'), r))))"

fun mpool_free :: "mpool \<Rightarrow> u64 \<Rightarrow> mpool" where
  "mpool_free (Mpool es cs fs fb) ptr = Mpool es cs (ptr # fs) fb"

text \<open>
  The two loops of \<open>mpool_fini\<close>: entries go back one by one, chunks as chunks. The result is
  the finished pool and, where there is one, the fallback with everything merged into it.
\<close>

fun merge_chunks :: "mpool \<Rightarrow> mpool_chunk list \<Rightarrow> mpool" where
  "merge_chunks q [] = q"
| "merge_chunks q ((chunk, limit) # cs) = merge_chunks (fst (mpool_add_chunk q chunk (limit - chunk))) cs"

fun mpool_fini :: "mpool \<Rightarrow> mpool \<times> mpool option" where
  "mpool_fini (Mpool es cs fs None) = (Mpool es cs fs None, None)"
| "mpool_fini (Mpool es cs fs (Some q)) =
     (Mpool es [] [] None, Some (merge_chunks (foldl mpool_free q fs) cs))"

text \<open>
  The search of \<open>mpool_alloc_contiguous_no_fallback\<close> down the chunk list; \<open>align\<close> is already
  in bytes here.
\<close>

fun take_contiguous :: "u64 \<Rightarrow> u64 \<Rightarrow> u64 \<Rightarrow> mpool_chunk list \<Rightarrow> mpool_chunk list \<times> u64 option" where
  "take_contiguous es cnt align [] = ([], None)"
| "take_contiguous es cnt align ((chunk, limit) # cs) =
     (let start = align_up chunk align;
          new_chunk = start + cnt * es
      in if new_chunk \<le> limit
         then let rest = (if new_chunk = limit then cs else (new_chunk, limit) # cs);
                  rest' = (if start - chunk \<ge> es then (chunk, start) # rest else rest)
              in (rest', Some start)
         else (case take_contiguous es cnt align cs of
                 (cs', r) \<Rightarrow> ((chunk, limit) # cs', r)))"

fun mpool_alloc_contiguous_no_fallback :: "mpool \<Rightarrow> u64 \<Rightarrow> u64 \<Rightarrow> mpool \<times> u64 option" where
  "mpool_alloc_contiguous_no_fallback (Mpool es cs fs fb) cnt align =
     (case take_contiguous es cnt (align * es) cs of (cs', r) \<Rightarrow> (Mpool es cs' fs fb, r))"

fun mpool_alloc_contiguous :: "mpool \<Rightarrow> u64 \<Rightarrow> u64 \<Rightarrow> mpool \<times> u64 option" where
  "mpool_alloc_contiguous (Mpool es cs fs fb) cnt align =
     (case mpool_alloc_contiguous_no_fallback (Mpool es cs fs fb) cnt align of
        (p', Some r) \<Rightarrow> (p', Some r)
      | (p', None) \<Rightarrow>
          (case fb of
             None \<Rightarrow> (p', None)
           | Some q \<Rightarrow>
               (case mpool_alloc_contiguous q cnt align of
                  (q', r) \<Rightarrow> (set_fallback p' (Some q'), r))))"

section \<open>What a pool holds\<close>

text \<open>The entries of a chunk in address order, and the multiset of all entries a pool can give.\<close>

definition chunk_entries :: "u64 \<Rightarrow> mpool_chunk \<Rightarrow> u64 list" where
  "chunk_entries es ch =
     map (\<lambda>k. fst ch + of_nat k * es) [0..<(unat (snd ch) - unat (fst ch)) div unat es]"

fun mpool_avail :: "mpool \<Rightarrow> u64 multiset" where
  "mpool_avail (Mpool es cs fs fb) =
     mset fs + mset (concat (map (chunk_entries es) cs)) +
     (case fb of None \<Rightarrow> {#} | Some q \<Rightarrow> mpool_avail q)"

definition chunk_ok :: "u64 \<Rightarrow> mpool_chunk \<Rightarrow> bool" where
  "chunk_ok es ch \<longleftrightarrow>
     unat es dvd unat (fst ch) \<and> unat es dvd unat (snd ch) \<and> 0 < fst ch \<and> fst ch < snd ch"

definition entry_ok :: "u64 \<Rightarrow> u64 \<Rightarrow> bool" where
  "entry_ok es e \<longleftrightarrow> 0 < e \<and> unat es dvd unat e"

text \<open>
  The invariant: the entry size is a power of two that holds two pointers, chunks and entries
  are aligned to it and not null, and a fallback has the same entry size.
\<close>

fun mpool_wf :: "mpool \<Rightarrow> bool" where
  "mpool_wf (Mpool es cs fs fb) \<longleftrightarrow>
     pow2 es \<and> 16 \<le> es \<and> (\<forall>ch \<in> set cs. chunk_ok es ch) \<and> (\<forall>e \<in> set fs. entry_ok es e) \<and>
     (case fb of None \<Rightarrow> True | Some q \<Rightarrow> entry_size q = es \<and> mpool_wf q)"

section \<open>Chunks\<close>

lemma entries_empty [simp]: "chunk_entries es (a, a) = []"
  by (simp add: chunk_entries_def)

lemma chunk_entries_split:
  assumes "pow2 es" "unat es dvd unat a" "unat es dvd unat m" "unat es dvd unat b"
    and "a \<le> m" "m \<le> b"
  shows "chunk_entries es (a, b) = chunk_entries es (a, m) @ chunk_entries es (m, b)"
proof -
  define e where "e = unat es"
  have e: "0 < e" using assms(1) by (simp add: e_def pow2_pos)
  obtain ka where ka: "unat a = e * ka" using assms(2) by (auto simp: e_def elim: dvdE)
  obtain km where km: "unat m = e * km" using assms(3) by (auto simp: e_def elim: dvdE)
  obtain kb where kb: "unat b = e * kb" using assms(4) by (auto simp: e_def elim: dvdE)
  have le: "ka \<le> km" "km \<le> kb"
    using assms(5,6) ka km kb e by (simp_all add: word_le_nat_alt)
  have n1: "(unat b - unat a) div e = kb - ka" and n2: "(unat m - unat a) div e = km - ka"
    and n3: "(unat b - unat m) div e = kb - km"
    using e by (simp_all add: ka km kb flip: diff_mult_distrib2)
  have m: "m = a + of_nat (km - ka) * es"
  proof (rule word_eq_unatI)
    have lt: "e * km < 2 ^ 64" using km u64_bound [of m] by simp
    have "(km - ka) * e \<le> e * km" by (simp add: mult.commute)
    then have prod: "(km - ka) * e < 2 ^ 64" using lt by (rule le_less_trans)
    have "km - ka \<le> (km - ka) * e" using e by simp
    then have "km - ka < 2 ^ 64" using prod by (rule le_less_trans)
    then have "unat (of_nat (km - ka) :: u64) = km - ka"
      by (intro unat_of_nat_less) simp
    then have "unat (of_nat (km - ka) * es) = (km - ka) * e"
      using prod by (subst unat_mult_no_wrap) (simp_all add: e_def)
    moreover have "e * ka + (km - ka) * e = e * km"
      using le by (simp add: mult.commute [of _ e] flip: distrib_left)
    ultimately show "unat m = unat (a + of_nat (km - ka) * es)"
      using lt ka km by (subst unat_add_no_wrap) simp_all
  qed
  have "kb - ka = (km - ka) + (kb - km)" using le by simp
  then have "[0..<kb - ka] = [0..<km - ka] @ map (\<lambda>i. i + (km - ka)) [0..<kb - km]"
    by (simp only: upt_add_eq_append [OF le0] add_0 map_add_upt add.commute [of "kb - km"])
  then show ?thesis
    unfolding chunk_entries_def fst_conv snd_conv e_def [symmetric] n1 n2 n3
    by (simp add: m algebra_simps)
qed

lemma chunk_entries_single:
  assumes "pow2 es" "unat a + unat es < 2 ^ 64"
  shows "chunk_entries es (a, a + es) = [a]"
proof -
  have "unat (a + es) = unat a + unat es"
    using assms(2) by (intro unat_add_no_wrap) simp
  then show ?thesis
    using pow2_pos [OF assms(1)] by (simp add: chunk_entries_def)
qed

lemma chunk_okD:
  assumes "chunk_ok es (c, lim)"
  shows "unat es dvd unat c" "unat es dvd unat lim" "0 < c" "c < lim"
    "unat c + unat es \<le> unat lim"
proof -
  from assms show d: "unat es dvd unat c" "unat es dvd unat lim" "0 < c" and lt: "c < lim"
    by (simp_all add: chunk_ok_def)
  from lt have "unat c < unat lim" by (simp add: word_less_nat_alt)
  then show "unat c + unat es \<le> unat lim"
    using d(1,2) by (metis add.commute dvd_diff_nat dvd_imp_le le_diff_conv2 less_imp_le zero_less_diff)
qed

text \<open>Taking the first entry off a chunk, as \<open>mpool_alloc_no_fallback\<close> does.\<close>

lemma chunk_first_entry:
  assumes "pow2 es" "chunk_ok es (c, lim)"
  shows "if c + es \<ge> lim then chunk_entries es (c, lim) = [c]
         else chunk_ok es (c + es, lim) \<and> chunk_entries es (c, lim) = c # chunk_entries es (c + es, lim)"
proof -
  note ok = chunk_okD [OF assms(2)]
  show ?thesis
  proof (cases "unat c + unat es = unat lim")
    case True
    then have "c + es = lim" by (intro word_eq_unatI) (simp add: unat_add_no_wrap)
    with True show ?thesis using assms(1) by (auto simp: chunk_entries_single)
  next
    case False
    then have lt: "unat c + unat es < unat lim" using ok(5) by simp
    then have un: "unat (c + es) = unat c + unat es"
      by (intro unat_add_no_wrap) (simp, rule less_trans [OF _ u64_bound])
    have "unat c + unat es < 2 ^ 64" using lt u64_lt [of lim] by linarith
    then have single: "chunk_entries es (c, c + es) = [c]"
      by (rule chunk_entries_single [OF assms(1)])
    have "chunk_entries es (c, lim) = chunk_entries es (c, c + es) @ chunk_entries es (c + es, lim)"
      using assms(1) ok lt un by (intro chunk_entries_split) (auto simp: word_le_nat_alt)
    moreover have "chunk_ok es (c + es, lim)"
      using ok lt un by (auto simp: chunk_ok_def word_less_nat_alt)
    ultimately show ?thesis
      using lt un single by (auto simp: word_le_nat_alt)
  qed
qed

lemma chunk_entries_ok:
  assumes "pow2 es" "unat es dvd unat a" "unat es dvd unat b" "0 < a" "x \<in> set (chunk_entries es (a, b))"
  shows "entry_ok es x" "a \<le> x" "x < b"
proof -
  define e where "e = unat es"
  have e: "0 < e" using assms(1) by (simp add: e_def pow2_pos)
  from assms(5) obtain k where k: "k < (unat b - unat a) div e" "x = a + of_nat k * es"
    by (auto simp: chunk_entries_def e_def)
  have "Suc k * e \<le> (unat b - unat a) div e * e"
    using k(1) by (intro mult_le_mono) auto
  also have "\<dots> \<le> unat b - unat a" by simp
  finally have ke: "unat a + k * e + e \<le> unat b" using e by simp
  have "k \<le> k * e" using e by simp
  then have "k < 2 ^ 64" using ke u64_lt [of b] by linarith
  moreover have prod: "k * e < 2 ^ 64" "unat a + k * e < 2 ^ 64" using ke u64_lt [of b] by linarith+
  ultimately have "unat (of_nat k :: u64) = k" by (intro unat_of_nat_less) simp
  then have "unat (of_nat k * es) = k * e"
    using prod by (subst unat_mult_no_wrap) (simp_all add: e_def)
  then have ux: "unat x = unat a + k * e"
    using prod unfolding k(2) by (subst unat_add_no_wrap) simp_all
  show "entry_ok es x"
    using assms(2,4) ux by (auto simp: entry_ok_def word_less_nat_alt e_def)
  show "a \<le> x" "x < b"
    using ux ke e by (simp_all add: word_le_nat_alt word_less_nat_alt)
qed

section \<open>The operations on the pool's contents\<close>

lemma alloc_no_fallback_Some:
  assumes "mpool_wf p" "mpool_alloc_no_fallback p = (p', Some r)"
  shows "mpool_wf p' \<and> entry_size p' = entry_size p \<and> fallback p' = fallback p \<and>
    entry_ok (entry_size p) r \<and> mpool_avail p = add_mset r (mpool_avail p')"
proof (cases p)
  case (Mpool es cs fs fb)
  show ?thesis
  proof (cases fs)
    case (Cons e fs')
    then show ?thesis using assms Mpool by auto
  next
    case Nil
    with assms Mpool obtain c lim cs' where cs: "cs = (c, lim) # cs'"
      by (auto split: list.splits)
    have "pow2 es" "chunk_ok es (c, lim)" using assms Mpool cs by auto
    from chunk_first_entry [OF this] chunk_okD [OF this(2)]
    show ?thesis
      using assms Mpool cs Nil
      by (auto simp: Let_def entry_ok_def split: if_splits)
  qed
qed

lemma alloc_no_fallback_None:
  assumes "mpool_alloc_no_fallback p = (p', None)"
  shows "p' = p \<and> chunk_list p = [] \<and> entry_list p = []"
  using assms by (cases p) (auto simp: Let_def split: list.splits if_splits)

lemma mpool_alloc_cases:
  obtains (own) p' r where "mpool_alloc_no_fallback p = (p', Some r)" "mpool_alloc p = (p', Some r)"
  | (empty) "chunk_list p = []" "entry_list p = []" "fallback p = None" "mpool_alloc p = (p, None)"
  | (fallback) q where "chunk_list p = []" "entry_list p = []" "fallback p = Some q"
      "mpool_alloc p = (set_fallback p (Some (fst (mpool_alloc q))), snd (mpool_alloc q))"
proof (cases "mpool_alloc_no_fallback p")
  case (Pair p' r)
  show thesis
  proof (cases r)
    case (Some x)
    then show thesis using Pair own by (cases p) simp
  next
    case None
    with Pair alloc_no_fallback_None have "p' = p" "chunk_list p = []" "entry_list p = []" by auto
    then show thesis
      using Pair None empty fallback by (cases p; cases "fallback p") (simp_all split: prod.splits)
  qed
qed

lemma mpool_alloc_Some:
  "mpool_wf p \<Longrightarrow> mpool_alloc p = (p', Some r) \<Longrightarrow>
    mpool_wf p' \<and> entry_size p' = entry_size p \<and> entry_ok (entry_size p) r \<and>
    mpool_avail p = add_mset r (mpool_avail p')"
proof (induction p arbitrary: p' r)
  case (Mpool es cs fs fb)
  show ?case
  proof (cases rule: mpool_alloc_cases [of "Mpool es cs fs fb"])
    case own
    from alloc_no_fallback_Some [OF Mpool.prems(1) own(1)] show ?thesis
      using Mpool.prems(2) own(2) by simp
  next
    case empty
    then show ?thesis using Mpool.prems by simp
  next
    case (fallback q)
    then have q: "fb = Some q" "mpool_wf q" "entry_size q = es" "mpool_alloc q = (fst (mpool_alloc q), Some r)"
      using Mpool.prems by (auto simp: prod_eq_iff)
    from Mpool.IH [of q, OF _ q(2,4)] q(1)
    have "mpool_wf (fst (mpool_alloc q)) \<and> entry_size (fst (mpool_alloc q)) = entry_size q \<and>
      entry_ok (entry_size q) r \<and> mpool_avail q = add_mset r (mpool_avail (fst (mpool_alloc q)))"
      by simp
    then show ?thesis
      using fallback Mpool.prems q by (auto simp: set_fallback_def)
  qed
qed

lemma mpool_alloc_None:
  "mpool_alloc p = (p', None) \<Longrightarrow> p' = p \<and> mpool_avail p = {#}"
proof (induction p arbitrary: p')
  case (Mpool es cs fs fb)
  show ?case
  proof (cases rule: mpool_alloc_cases [of "Mpool es cs fs fb"])
    case own
    then show ?thesis using Mpool.prems by simp
  next
    case empty
    then show ?thesis using Mpool.prems by auto
  next
    case (fallback q)
    then have q: "fb = Some q" "mpool_alloc q = (fst (mpool_alloc q), None)"
      using Mpool.prems by (auto simp: prod_eq_iff)
    from Mpool.IH [of q, OF _ q(2)] q(1) have "fst (mpool_alloc q) = q" "mpool_avail q = {#}"
      by simp_all
    then show ?thesis
      using fallback Mpool.prems q by (auto simp: set_fallback_def)
  qed
qed

lemma mpool_free_avail [simp]: "mpool_avail (mpool_free p x) = add_mset x (mpool_avail p)"
  by (cases p) simp

lemma mpool_free_entry_size [simp]: "entry_size (mpool_free p x) = entry_size p"
  by (cases p) simp

lemma mpool_free_wf [simp]: "mpool_wf (mpool_free p x) \<longleftrightarrow> mpool_wf p \<and> entry_ok (entry_size p) x"
  by (cases p) auto

text \<open>Adding a chunk makes exactly the aligned entries inside it available.\<close>

lemma mpool_add_chunk_spec:
  assumes "mpool_wf p" "0 < begin" "unat begin + unat sz + unat (entry_size p) \<le> 2 ^ 64"
  shows "mpool_wf (fst (mpool_add_chunk p begin sz)) \<and>
    entry_size (fst (mpool_add_chunk p begin sz)) = entry_size p \<and>
    mpool_avail (fst (mpool_add_chunk p begin sz)) = mpool_avail p +
      mset (chunk_entries (entry_size p)
        (align_up begin (entry_size p), align_down (begin + sz) (entry_size p)))"
proof (cases p)
  case (Mpool es cs fs fb)
  have es: "pow2 es" "0 < unat es" using assms(1) Mpool pow2_pos by auto
  let ?b = "align_up begin es" and ?e = "align_down (begin + sz) es"
  have d: "unat es dvd unat ?b" "unat es dvd unat ?e"
    using assms(3) es Mpool by (simp_all add: align_up_unat align_down_unat)
  show ?thesis
  proof (cases "?b \<ge> ?e")
    case True
    then have "unat ?e - unat ?b = 0" by (simp add: word_le_nat_alt)
    then have "chunk_entries es (?b, ?e) = []" by (simp add: chunk_entries_def)
    with True show ?thesis using assms(1) Mpool by (simp add: Let_def)
  next
    case False
    then have lt: "unat ?b < unat ?e" by (simp add: word_le_nat_alt)
    have "unat es dvd unat ?e - unat ?b" using d by (rule dvd_diff_nat [rotated])
    then have "unat es \<le> unat ?e - unat ?b" using lt by (intro dvd_imp_le) simp_all
    then have ge: "\<not> ?e - ?b < es"
      using lt by (simp add: word_less_nat_alt unat_sub word_le_nat_alt)
    have "unat ?b = (unat begin + unat es - 1) div unat es * unat es"
      using assms(3) es(1) Mpool by (intro align_up_unat) simp_all
    then have "unat begin \<le> unat ?b" using round_up_ge [OF es(2)] by simp
    then have "0 < ?b" using assms(2) by (simp add: word_less_nat_alt)
    then have "chunk_ok es (?b, ?e)" using d lt by (simp add: chunk_ok_def word_less_nat_alt)
    then show ?thesis using False ge assms(1) Mpool by (simp add: Let_def)
  qed
qed

lemma foldl_free:
  "mpool_avail (foldl mpool_free q fs) = mpool_avail q + mset fs"
  "entry_size (foldl mpool_free q fs) = entry_size q"
  "mpool_wf q \<Longrightarrow> \<forall>e \<in> set fs. entry_ok (entry_size q) e \<Longrightarrow> mpool_wf (foldl mpool_free q fs)"
  by (induction fs arbitrary: q) auto

lemma add_chunk_aligned:
  assumes "mpool_wf q" "chunk_ok (entry_size q) (c, lim)"
  shows "mpool_add_chunk q c (lim - c) =
    (Mpool (entry_size q) ((c, lim) # chunk_list q) (entry_list q) (fallback q), True)"
proof (cases q)
  case (Mpool es cs fs fb)
  then have es: "pow2 es" using assms(1) by simp
  note ok = chunk_okD [OF assms(2)]
  have "unat c + unat (entry_size q) \<le> 2 ^ 64" using ok(5) u64_lt [of lim] by linarith
  then have "align_up c es = c" "align_down (c + (lim - c)) es = lim"
    using ok es Mpool by (simp_all add: align_up_dvd_id align_down_dvd_id)
  moreover have "\<not> lim - c < es"
    using ok Mpool by (simp add: word_less_nat_alt unat_sub word_le_nat_alt)
  ultimately show ?thesis using ok(4) Mpool by (simp add: Let_def)
qed

lemma merge_chunks_spec:
  "mpool_wf q \<Longrightarrow> \<forall>ch \<in> set cs. chunk_ok (entry_size q) ch \<Longrightarrow>
    mpool_wf (merge_chunks q cs) \<and> entry_size (merge_chunks q cs) = entry_size q \<and>
    mpool_avail (merge_chunks q cs) = mpool_avail q + mset (concat (map (chunk_entries (entry_size q)) cs))"
proof (induction q cs rule: merge_chunks.induct)
  case (1 q)
  then show ?case by simp
next
  case (2 q c lim cs)
  let ?q = "Mpool (entry_size q) ((c, lim) # chunk_list q) (entry_list q) (fallback q)"
  have add: "mpool_add_chunk q c (lim - c) = (?q, True)"
    using "2.prems" by (intro add_chunk_aligned) auto
  have "mpool_wf ?q" using "2.prems" by (cases q) auto
  with "2.IH" "2.prems" add show ?case
    by (cases q) (auto simp: ac_simps)
qed

text \<open>Where the aligned run of entries lies inside a chunk that has room for it.\<close>

lemma aligned_start:
  assumes "pow2 align" "0 < c" "unat c + unat align + unat len \<le> 2 ^ 64"
  shows "c \<le> align_up c align" "unat align dvd unat (align_up c align)" "0 < align_up c align"
    "unat (align_up c align + len) = unat (align_up c align) + unat len"
proof -
  have ust: "unat (align_up c align) = (unat c + unat align - 1) div unat align * unat align"
    using assms by (intro align_up_unat) simp_all
  then have le: "unat c \<le> unat (align_up c align)"
    using round_up_ge [OF pow2_pos [OF assms(1)]] by simp
  then show "c \<le> align_up c align" "0 < align_up c align"
    using assms(2) by (simp_all add: word_le_nat_alt word_less_nat_alt)
  show "unat align dvd unat (align_up c align)" unfolding ust by simp
  have "unat (align_up c align) \<le> unat c + unat align - 1" unfolding ust by simp
  then show "unat (align_up c align + len) = unat (align_up c align) + unat len"
    using assms pow2_pos [OF assms(1)] by (intro unat_add_no_wrap) simp
qed

lemma gap_before_start:
  assumes "pow2 es" "unat es dvd unat c" "unat es dvd unat st" "0 < c" "c \<le> st"
  shows "st - c < es \<Longrightarrow> st = c" "\<not> st - c < es \<Longrightarrow> chunk_ok es (c, st)"
proof -
  have d: "unat es dvd unat st - unat c" using assms(2,3) by simp
  have sub: "unat (st - c) = unat st - unat c" using assms(5) by (rule unat_sub)
  {
    assume "st - c < es"
    then have "unat st - unat c < unat es" using sub by (simp add: word_less_nat_alt)
    with d have "unat st - unat c = 0" by (auto dest: dvd_imp_le)
    then show "st = c" using assms(5) by (intro word_eq_unatI) (simp add: word_le_nat_alt)
  next
    assume "\<not> st - c < es"
    then have "c < st" using assms(5) pow2_pos [OF assms(1)] sub
      by (cases "c = st") (auto simp: word_less_nat_alt)
    then show "chunk_ok es (c, st)" using assms by (simp add: chunk_ok_def)
  }
qed

lemma take_contiguous_Some:
  assumes "pow2 es" "pow2 align" "unat es dvd unat align"
    and "unat cnt * unat es < 2 ^ 64" "0 < cnt"
  shows "\<forall>ch \<in> set cs. chunk_ok es ch \<and> unat (snd ch) + unat align + unat (cnt * es) \<le> 2 ^ 64 \<Longrightarrow>
    take_contiguous es cnt align cs = (cs', Some r) \<Longrightarrow>
    (\<forall>ch \<in> set cs'. chunk_ok es ch) \<and> unat align dvd unat r \<and> 0 < r \<and> r < r + cnt * es \<and>
    mset (concat (map (chunk_entries es) cs)) =
      mset (chunk_entries es (r, r + cnt * es)) + mset (concat (map (chunk_entries es) cs'))"
proof (induction cs arbitrary: cs')
  case Nil
  then show ?case by simp
next
  case (Cons ch cs)
  obtain c lim where ch: "ch = (c, lim)" by (cases ch)
  let ?st = "align_up c align" and ?n = "align_up c align + cnt * es"
  have ok: "chunk_ok es (c, lim)" and bnd: "unat lim + unat align + unat (cnt * es) \<le> 2 ^ 64"
    using Cons.prems(1) ch by simp_all
  note okD = chunk_okD [OF ok]
  show ?case
  proof (cases "?n \<le> lim")
    case False
    with Cons.prems(2) ch obtain cs'' where t: "take_contiguous es cnt align cs = (cs'', Some r)"
      "cs' = (c, lim) # cs''"
      by (auto simp: Let_def split: prod.splits)
    with Cons.IH [OF _ t(1)] Cons.prems(1) ok ch show ?thesis by auto
  next
    case True
    have "unat c + unat align + unat (cnt * es) \<le> 2 ^ 64"
      using bnd okD(4) by (simp add: word_less_nat_alt)
    note st = aligned_start [OF assms(2) okD(3) this]
    have ces: "unat (cnt * es) = unat cnt * unat es"
      using assms(4) by (simp add: unat_mult_no_wrap)
    have d: "unat es dvd unat ?st" "unat es dvd unat ?n"
      using st(2,4) ces assms(3) by (auto intro: dvd_trans)
    have stn: "?st < ?n"
      using st(4) ces assms(5) pow2_pos [OF assms(1)] by (simp add: word_less_nat_alt)
    have "chunk_entries es (c, lim) =
      chunk_entries es (c, ?st) @ chunk_entries es (?st, ?n) @ chunk_entries es (?n, lim)"
      using assms(1) okD d st(1) stn True chunk_entries_split [of es c ?st lim]
        chunk_entries_split [of es ?st ?n lim] by auto
    moreover have "?n \<noteq> lim \<Longrightarrow> chunk_ok es (?n, lim)"
      using okD(2) d True stn st(3) by (auto simp: chunk_ok_def)
    moreover have "?st - c \<ge> es \<Longrightarrow> chunk_ok es (c, ?st)"
      "\<not> ?st - c \<ge> es \<Longrightarrow> chunk_entries es (c, ?st) = []"
      using gap_before_start [OF assms(1) okD(1) d(1) okD(3) st(1)] by (simp_all add: not_le)
    ultimately show ?thesis
      using Cons.prems True ch st(2,3) stn by (auto simp: Let_def ac_simps split: if_splits)
  qed
qed

lemma take_contiguous_None: "take_contiguous es cnt align cs = (cs', None) \<Longrightarrow> cs' = cs"
  by (induction cs arbitrary: cs') (auto simp: Let_def split: prod.splits if_splits)

section \<open>The interface the page tables use\<close>

text \<open>
  What \<^verbatim>\<open>src/mm.c\<close> needs of a pool: an allocation hands out an entry that was available and
  takes it away, a failed allocation means that nothing is left, and freeing makes the entry
  available again. \<open>ok\<close> says which pointers may be given back.
\<close>

locale page_pool =
  fixes alloc :: "'p \<Rightarrow> 'p \<times> u64 option"
    and free :: "'p \<Rightarrow> u64 \<Rightarrow> 'p"
    and avail :: "'p \<Rightarrow> u64 multiset"
    and ok :: "'p \<Rightarrow> u64 \<Rightarrow> bool"
    and inv :: "'p \<Rightarrow> bool"
  assumes alloc_Some: "inv p \<Longrightarrow> alloc p = (p', Some r) \<Longrightarrow>
      inv p' \<and> ok p' = ok p \<and> ok p r \<and> avail p = add_mset r (avail p')"
    and alloc_None: "alloc p = (p', None) \<Longrightarrow> p' = p \<and> avail p = {#}"
    and free_avail: "avail (free p x) = add_mset x (avail p)"
    and free_inv: "inv p \<Longrightarrow> ok p x \<Longrightarrow> inv (free p x) \<and> ok (free p x) = ok p"
begin

fun alloc_n :: "nat \<Rightarrow> 'p \<Rightarrow> 'p \<times> u64 list" where
  "alloc_n 0 p = (p, [])"
| "alloc_n (Suc n) p =
     (case alloc p of
        (p', None) \<Rightarrow> (p', [])
      | (p', Some r) \<Rightarrow> (case alloc_n n p' of (p'', rs) \<Rightarrow> (p'', r # rs)))"

lemma alloc_succeeds: "avail p \<noteq> {#} \<Longrightarrow> \<exists>p' r. alloc p = (p', Some r)"
  by (cases "alloc p"; cases "snd (alloc p)") (auto dest: alloc_None)

lemma alloc_n_avail:
  "inv p \<Longrightarrow> alloc_n n p = (p', rs) \<Longrightarrow>
    inv p' \<and> avail p = mset rs + avail p' \<and> length rs \<le> n \<and> (length rs < n \<longrightarrow> avail p' = {#}) \<and>
    (\<forall>r \<in> set rs. ok p r)"
proof (induction n arbitrary: p p' rs)
  case 0
  then show ?case by simp
next
  case (Suc n)
  obtain q x where a: "alloc p = (q, x)" by fastforce
  show ?case
  proof (cases x)
    case None
    then show ?thesis using a alloc_None [of p q] Suc.prems by simp
  next
    case (Some r)
    from alloc_Some [OF Suc.prems(1) a [unfolded Some]]
    have q: "inv q" "ok q = ok p" "ok p r" "avail p = add_mset r (avail q)" by auto
    obtain q' rs' where r: "alloc_n n q = (q', rs')" by fastforce
    have "p' = q'" "rs = r # rs'" using Suc.prems(2) a Some r by simp_all
    with Suc.IH [OF q(1) r] q(2-) show ?thesis by simp
  qed
qed

lemma alloc_then_free:
  assumes "inv p" "alloc p = (p', Some r)"
  shows "avail (free p' r) = avail p" "inv (free p' r)"
  using alloc_Some [OF assms] free_inv [of p' r] by (simp_all add: free_avail)

lemma free_all:
  "inv p \<Longrightarrow> \<forall>x \<in> set xs. ok p x \<Longrightarrow> inv (foldl free p xs) \<and> ok (foldl free p xs) = ok p \<and>
    avail (foldl free p xs) = avail p + mset xs"
proof (induction xs arbitrary: p)
  case Nil
  then show ?case by simp
next
  case (Cons x xs)
  from free_inv [OF Cons.prems(1), of x] Cons.prems(2)
  have f: "inv (free p x)" "ok (free p x) = ok p" by auto
  with Cons.IH [OF f(1)] Cons.prems(2) show ?case by (simp add: free_avail)
qed

text \<open>Taking entries and giving them all back in any order restores what the pool holds.\<close>

lemma alloc_n_free_all:
  assumes "inv p" "alloc_n n p = (p', rs)" "mset xs = mset rs"
  shows "avail (foldl free p' xs) = avail p"
proof -
  note a = alloc_n_avail [OF assms(1,2)]
  have "avail (foldl free q ys) = avail q + mset ys" for q ys
    by (induction ys arbitrary: q) (simp_all add: free_avail)
  with a assms(3) show ?thesis by simp
qed

end

text \<open>A pool with a given entry size; the pool code never changes the size.\<close>

definition mpool_ok :: "mpool \<Rightarrow> u64 \<Rightarrow> bool" where
  "mpool_ok p x \<longleftrightarrow> entry_ok (entry_size p) x"

interpretation pool: page_pool mpool_alloc mpool_free mpool_avail mpool_ok mpool_wf
proof unfold_locales
  fix p p' r
  assume "mpool_wf p" "mpool_alloc p = (p', Some r)"
  from mpool_alloc_Some [OF this]
  show "mpool_wf p' \<and> mpool_ok p' = mpool_ok p \<and> mpool_ok p r \<and>
    mpool_avail p = add_mset r (mpool_avail p')"
    by (auto simp: mpool_ok_def fun_eq_iff)
next
  fix p p'
  assume "mpool_alloc p = (p', None)"
  then show "p' = p \<and> mpool_avail p = {#}" by (rule mpool_alloc_None)
next
  fix p x
  show "mpool_avail (mpool_free p x) = add_mset x (mpool_avail p)" by simp
next
  fix p x
  assume "mpool_wf p" "mpool_ok p x"
  then show "mpool_wf (mpool_free p x) \<and> mpool_ok (mpool_free p x) = mpool_ok p"
    by (simp add: mpool_ok_def fun_eq_iff)
qed

section \<open>Properties\<close>

text \<open>
  C12: Allocation is exact. From a well-formed pool it either hands out a non-null entry aligned
  to the entry size that was available, taking away that one entry and nothing else, or it
  returns null, in which case the pool and all its fallbacks were empty and are unchanged.
\<close>

theorem mpool_alloc_exact:
  assumes "mpool_wf p"
  shows "case mpool_alloc p of
      (p', Some r) \<Rightarrow> mpool_wf p' \<and> entry_ok (entry_size p) r \<and> mpool_avail p = add_mset r (mpool_avail p')
    | (p', None) \<Rightarrow> p' = p \<and> mpool_avail p = {#}"
proof (cases "mpool_alloc p")
  case (Pair p' x)
  show ?thesis
  proof (cases x)
    case None
    with Pair pool.alloc_None [of p p'] show ?thesis by simp
  next
    case (Some r)
    with Pair pool.alloc_Some [OF assms, of p' r] show ?thesis by (simp add: mpool_ok_def)
  qed
qed

definition sample_pool :: mpool where
  "sample_pool = Mpool 0x1000 [] [] (Some (Mpool 0x1000 [(0x8000, 0xb000)] [0x4000] None))"

lemma pow2_page: "pow2 0x1000"
  unfolding pow2_def by (rule exI [of _ 12]) simp

lemma sample_pool_wf: "mpool_wf sample_pool"
  by (simp add: sample_pool_def chunk_ok_def entry_ok_def pow2_page word_le_nat_alt word_less_nat_alt)

lemma sample_pool_alloc: "mpool_alloc sample_pool =
    (Mpool 0x1000 [] [] (Some (Mpool 0x1000 [(0x8000, 0xb000)] [] None)), Some 0x4000)"
  by (simp add: sample_pool_def set_fallback_def)

theorem mpool_alloc_exact_witness:
  "mpool_avail sample_pool =
     add_mset 0x4000 (mpool_avail (Mpool 0x1000 [] [] (Some (Mpool 0x1000 [(0x8000, 0xb000)] [] None))))"
  using mpool_alloc_exact [OF sample_pool_wf] unfolding sample_pool_alloc prod.case option.case
  by (rule conjunct2 [OF conjunct2])

text \<open>
  C14: Finishing a pool that has a fallback loses nothing: the pool ends empty and everything it
  held is in the fallback, which stays well formed.
\<close>

theorem mpool_fini_merges:
  assumes "mpool_wf p" "fallback p \<noteq> None"
  shows "\<exists>q. mpool_fini p = (mpool_init (entry_size p), Some q) \<and> mpool_wf q \<and>
    entry_size q = entry_size p \<and> mpool_avail q = mpool_avail p"
proof (cases p)
  case (Mpool es cs fs fb)
  then obtain q where fb: "fb = Some q" using assms(2) by auto
  let ?q = "foldl mpool_free q fs"
  have q: "mpool_wf q" "entry_size q = es" using assms(1) Mpool fb by simp_all
  have es: "entry_size ?q = es" and av: "mpool_avail ?q = mpool_avail q + mset fs"
    using q(2) by (simp_all add: foldl_free)
  have wf: "mpool_wf ?q" by (rule foldl_free(3)) (use assms(1) Mpool q in simp_all)
  have "\<forall>ch \<in> set cs. chunk_ok (entry_size ?q) ch" unfolding es using assms(1) Mpool by simp
  note m = merge_chunks_spec [OF wf this, unfolded es av]
  have fin: "mpool_fini p = (mpool_init (entry_size p), Some (merge_chunks ?q cs))"
    unfolding Mpool fb mpool_init_def by simp
  have "mpool_avail (merge_chunks ?q cs) = mpool_avail p"
    unfolding Mpool fb using m by simp
  then show ?thesis using m fin Mpool by auto
qed

theorem mpool_fini_merges_witness:
  "\<exists>q. mpool_fini sample_pool = (mpool_init 0x1000, Some q) \<and> mpool_wf q \<and>
    entry_size q = 0x1000 \<and> mpool_avail q = mpool_avail sample_pool"
proof -
  have es: "entry_size sample_pool = 0x1000" and fb: "fallback sample_pool \<noteq> None"
    by (simp_all add: sample_pool_def)
  show ?thesis using mpool_fini_merges [OF sample_pool_wf fb] unfolding es .
qed

text \<open>
  Adding a chunk that does not wrap round the address space makes exactly the aligned
  entries inside it available, and the call reports success exactly when there is at least one.
\<close>

theorem mpool_add_chunk_exact:
  assumes "mpool_wf p" "0 < begin" "unat begin + unat sz + unat (entry_size p) \<le> 2 ^ 64"
  shows "case mpool_add_chunk p begin sz of (p', added) \<Rightarrow>
    mpool_wf p' \<and>
    mpool_avail p' = mpool_avail p +
      mset (chunk_entries (entry_size p)
        (align_up begin (entry_size p), align_down (begin + sz) (entry_size p))) \<and>
    (added \<longleftrightarrow> mpool_avail p' \<noteq> mpool_avail p)"
proof (cases p)
  case (Mpool es cs fs fb)
  let ?c = "(align_up begin es, align_down (begin + sz) es)"
  note spec = mpool_add_chunk_spec [OF assms]
  show ?thesis
  proof (cases "fst ?c \<ge> snd ?c \<or> snd ?c - fst ?c < es")
    case True
    then have add: "mpool_add_chunk p begin sz = (p, False)" using Mpool by (simp add: Let_def)
    from spec show ?thesis unfolding add by simp
  next
    case False
    then have add: "mpool_add_chunk p begin sz = (Mpool es (?c # cs) fs fb, True)"
      using Mpool by (simp add: Let_def)
    from spec have wf: "mpool_wf (Mpool es (?c # cs) fs fb)" unfolding add fst_conv by (rule conjunct1)
    then have "pow2 es" "chunk_ok es ?c" by simp_all
    from chunk_first_entry [OF this] have "chunk_entries es ?c \<noteq> []" by (auto split: if_splits)
    with spec wf Mpool show ?thesis unfolding add by simp
  qed
qed

theorem mpool_add_chunk_exact_witness:
  "case mpool_add_chunk sample_pool 0x20010 0x3000 of (p', added) \<Rightarrow>
    mpool_wf p' \<and> mpool_avail p' = mpool_avail sample_pool + {#0x21000, 0x22000#} \<and> added"
proof -
  have es: "entry_size sample_pool = 0x1000" by (simp add: sample_pool_def)
  have ce: "chunk_entries 0x1000 (align_up 0x20010 0x1000, align_down (0x20010 + 0x3000) 0x1000) =
      [0x21000, 0x22000]"
    by (simp add: align_up_def align_down_def chunk_entries_def upt_rec)
  have "case mpool_add_chunk sample_pool 0x20010 0x3000 of (p', added) \<Rightarrow>
    mpool_wf p' \<and> mpool_avail p' = mpool_avail sample_pool + mset [0x21000, 0x22000] \<and>
    (added \<longleftrightarrow> mpool_avail p' \<noteq> mpool_avail sample_pool)"
    using mpool_add_chunk_exact [of sample_pool "0x20010" "0x3000"] sample_pool_wf
    unfolding es ce by simp
  then show ?thesis by (cases "mpool_add_chunk sample_pool 0x20010 0x3000") simp
qed

text \<open>The chunks an allocation of contiguous entries may use, and that they are far from wrapping.\<close>

fun all_chunks :: "mpool \<Rightarrow> mpool_chunk list" where
  "all_chunks (Mpool es cs fs fb) = cs @ (case fb of None \<Rightarrow> [] | Some q \<Rightarrow> all_chunks q)"

lemma pow2_mult:
  assumes "pow2 a" "pow2 b" "unat a * unat b < 2 ^ 64"
  shows "pow2 (a * b)"
proof -
  from assms obtain m n where mn: "m < 64" "a = 2 ^ m" "n < 64" "b = 2 ^ n" by (auto simp: pow2_def)
  then have "(2 :: nat) ^ (m + n) < 2 ^ 64" using assms(3) by (simp add: power_add)
  then have "m + n < 64" by (rule power_less_imp_less_exp [rotated]) simp
  then show ?thesis using mn unfolding pow2_def by (intro exI [of _ "m + n"]) (simp add: power_add)
qed

lemma take_contiguous_full:
  "take_contiguous es cnt align cs = (cs', None) \<Longrightarrow>
    \<forall>ch \<in> set cs. snd ch < align_up (fst ch) align + cnt * es"
  by (induction cs arbitrary: cs') (fastforce simp: Let_def not_le split: prod.splits if_splits)+

lemma mpool_alloc_contiguous_cases:
  obtains (own) cs' r where "take_contiguous (entry_size p) cnt (align * entry_size p) (chunk_list p) = (cs', Some r)"
      "mpool_alloc_contiguous p cnt align = (Mpool (entry_size p) cs' (entry_list p) (fallback p), Some r)"
  | (none) "take_contiguous (entry_size p) cnt (align * entry_size p) (chunk_list p) = (chunk_list p, None)"
      "fallback p = None" "mpool_alloc_contiguous p cnt align = (p, None)"
  | (fallback) q where "take_contiguous (entry_size p) cnt (align * entry_size p) (chunk_list p) = (chunk_list p, None)"
      "fallback p = Some q"
      "mpool_alloc_contiguous p cnt align =
         (set_fallback p (Some (fst (mpool_alloc_contiguous q cnt align))), snd (mpool_alloc_contiguous q cnt align))"
proof (cases "take_contiguous (entry_size p) cnt (align * entry_size p) (chunk_list p)")
  case (Pair cs' r)
  show thesis
  proof (cases r)
    case (Some x)
    then show thesis using Pair own by (cases p) simp
  next
    case None
    with Pair take_contiguous_None have "cs' = chunk_list p" by auto
    then show thesis
      using Pair None none fallback by (cases p; cases "fallback p") (simp_all split: prod.splits)
  qed
qed

lemma mpool_alloc_contiguous_spec:
  assumes "pow2 align" "0 < cnt" "unat cnt * unat es < 2 ^ 64" "unat align * unat es < 2 ^ 64"
  shows "mpool_wf p \<Longrightarrow> entry_size p = es \<Longrightarrow>
    \<forall>ch \<in> set (all_chunks p). unat (snd ch) + unat (align * es) + unat (cnt * es) \<le> 2 ^ 64 \<Longrightarrow>
    case mpool_alloc_contiguous p cnt align of
      (p', Some r) \<Rightarrow> mpool_wf p' \<and> entry_size p' = es \<and> 0 < r \<and> r < r + cnt * es \<and>
        unat align * unat es dvd unat r \<and>
        mpool_avail p = mset (chunk_entries es (r, r + cnt * es)) + mpool_avail p'
    | (p', None) \<Rightarrow> p' = p \<and>
        (\<forall>ch \<in> set (all_chunks p). snd ch < align_up (fst ch) (align * es) + cnt * es)"
proof (induction p)
  case (Mpool es' cs fs fb)
  have es: "es' = es" "pow2 es" using Mpool.prems by auto
  have ual: "unat (align * es) = unat align * unat es" using assms(4) by (simp add: unat_mult_no_wrap)
  have pal: "pow2 (align * es)"
    using assms(1) es(2) assms(4) by (rule pow2_mult)
  show ?case
  proof (cases rule: mpool_alloc_contiguous_cases [of "Mpool es' cs fs fb" cnt align])
    case (own cs' r)
    have "\<forall>ch \<in> set cs. chunk_ok es ch \<and> unat (snd ch) + unat (align * es) + unat (cnt * es) \<le> 2 ^ 64"
      using Mpool.prems es by auto
    from take_contiguous_Some [OF es(2) pal _ assms(3,2) this, of cs' r] own(1) es(1) ual
    have t: "(\<forall>ch \<in> set cs'. chunk_ok es ch) \<and> unat (align * es) dvd unat r \<and> 0 < r \<and> r < r + cnt * es \<and>
      mset (concat (map (chunk_entries es) cs)) =
        mset (chunk_entries es (r, r + cnt * es)) + mset (concat (map (chunk_entries es) cs'))"
      by simp
    then show ?thesis using own(2) Mpool.prems(1) es ual by (simp add: ac_simps)
  next
    case none
    from take_contiguous_full [of es cnt "align * es" cs cs] none es(1) show ?thesis by simp
  next
    case (fallback q)
    have q: "fb = Some q" "mpool_wf q" "entry_size q = es" using fallback(2) Mpool.prems es by auto
    have bq: "\<forall>ch \<in> set (all_chunks q). unat (snd ch) + unat (align * es) + unat (cnt * es) \<le> 2 ^ 64"
      using Mpool.prems(3) q(1) by simp
    have cs: "\<forall>ch \<in> set cs. snd ch < align_up (fst ch) (align * es) + cnt * es"
      using take_contiguous_full [of es cnt "align * es" cs cs] fallback(1) es(1) by simp
    have "q \<in> set_option fb" using q(1) by simp
    from Mpool.IH [OF this q(2,3) bq] show ?thesis
      using fallback(3) Mpool.prems(1) es(1) q(1) cs
      by (cases "mpool_alloc_contiguous q cnt align"; cases "snd (mpool_alloc_contiguous q cnt align)")
        (auto simp: set_fallback_def)
  qed
qed

text \<open>
  C13: A contiguous allocation that succeeds returns an address aligned to the requested number
  of entries such that all the requested entries were available, and takes away exactly those.
  It fails only when no chunk of the pool or of its fallbacks has aligned room for the request,
  and then changes nothing. The hypotheses say that the sizes do not overflow.
\<close>

theorem mpool_alloc_contiguous_exact:
  assumes "mpool_wf p" "pow2 align" "0 < cnt"
    and "unat cnt * unat (entry_size p) < 2 ^ 64" "unat align * unat (entry_size p) < 2 ^ 64"
    and "\<forall>ch \<in> set (all_chunks p).
      unat (snd ch) + unat (align * entry_size p) + unat (cnt * entry_size p) \<le> 2 ^ 64"
  shows "case mpool_alloc_contiguous p cnt align of
      (p', Some r) \<Rightarrow> mpool_wf p' \<and> unat align * unat (entry_size p) dvd unat r \<and> r < r + cnt * entry_size p \<and>
        mpool_avail p = mset (chunk_entries (entry_size p) (r, r + cnt * entry_size p)) + mpool_avail p'
    | (p', None) \<Rightarrow> p' = p \<and> (\<forall>ch \<in> set (all_chunks p).
        snd ch < align_up (fst ch) (align * entry_size p) + cnt * entry_size p)"
  using mpool_alloc_contiguous_spec [OF assms(2,3,4,5,1) refl assms(6)]
  by (auto split: prod.splits option.splits)

lemma pow2_two: "pow2 2"
  unfolding pow2_def by (rule exI [of _ 1]) simp

theorem mpool_alloc_contiguous_exact_witness:
  "mpool_alloc_contiguous sample_pool 1 2 =
     (Mpool 0x1000 [] [] (Some (Mpool 0x1000 [(0x9000, 0xb000)] [0x4000] None)), Some 0x8000) \<and>
   mpool_avail sample_pool = add_mset 0x8000
     (mpool_avail (Mpool 0x1000 [] [] (Some (Mpool 0x1000 [(0x9000, 0xb000)] [0x4000] None))))"
proof -
  have es: "entry_size sample_pool = 0x1000" by (simp add: sample_pool_def)
  have run: "mpool_alloc_contiguous sample_pool 1 2 =
     (Mpool 0x1000 [] [] (Some (Mpool 0x1000 [(0x9000, 0xb000)] [0x4000] None)), Some 0x8000)"
    by (simp add: sample_pool_def align_up_def set_fallback_def)
  have ce: "chunk_entries 0x1000 (0x8000, 0x8000 + 1 * 0x1000) = [0x8000]"
    by (simp add: chunk_entries_def)
  have "\<forall>ch \<in> set (all_chunks sample_pool). unat (snd ch) + unat (2 * 0x1000 :: u64) + unat (1 * 0x1000 :: u64) \<le> 2 ^ 64"
    by (simp add: sample_pool_def)
  with mpool_alloc_contiguous_exact [of sample_pool 2 1] sample_pool_wf pow2_two
  show ?thesis unfolding run es prod.case option.case ce by simp
qed

end
