(* ===== verification/Arch_MM.thy ===== *)
theory Arch_MM
  imports Prelude
begin

text \<open>
  The AArch64 side of memory management, \<^verbatim>\<open>src/arch/aarch64/mm.c\<close>: the encoding of page
  table entries, the translation between the architecture-independent modes of
  \<^verbatim>\<open>inc/hf/mm.h\<close> and entry attributes, the TLB maintenance sequences and the
  configuration computed by \<open>arch_mm_init\<close>.

  Addresses (\<open>paddr_t\<close>, \<open>ipaddr_t\<close>, \<open>vaddr_t\<close>) and entries (\<open>pte_t\<close>) are 64-bit words. What
  the C code reads from system registers or takes from build options is an argument, gathered
  in the record \<open>arch_cfg\<close>.
\<close>

section \<open>Constants\<close>

definition PAGE_BITS :: nat where "PAGE_BITS = 12"
definition PAGE_LEVEL_BITS :: nat where "PAGE_LEVEL_BITS = 9"
definition PAGE_SIZE :: u64 where "PAGE_SIZE = push_bit PAGE_BITS 1"
definition MM_PTE_PER_PAGE :: nat where "MM_PTE_PER_PAGE = 512"

definition MM_MODE_R :: u32 where "MM_MODE_R = 0x0001"
definition MM_MODE_W :: u32 where "MM_MODE_W = 0x0002"
definition MM_MODE_X :: u32 where "MM_MODE_X = 0x0004"
definition MM_MODE_D :: u32 where "MM_MODE_D = 0x0008"
definition MM_MODE_INVALID :: u32 where "MM_MODE_INVALID = 0x0010"
definition MM_MODE_UNOWNED :: u32 where "MM_MODE_UNOWNED = 0x0020"
definition MM_MODE_SHARED :: u32 where "MM_MODE_SHARED = 0x0040"
definition MM_MODE_NS :: u32 where "MM_MODE_NS = 0x0080"
definition MM_MODE_NG :: u32 where "MM_MODE_NG = 0x0100"
definition MM_MODE_USER :: u32 where "MM_MODE_USER = 0x0200"
definition MM_MODE_T :: u32 where "MM_MODE_T = 0x0400"
definition MM_MODE_UNMAPPED_MASK :: u32 where
  "MM_MODE_UNMAPPED_MASK = MM_MODE_INVALID OR MM_MODE_UNOWNED"

lemmas mode_consts = MM_MODE_R_def MM_MODE_W_def MM_MODE_X_def MM_MODE_D_def MM_MODE_INVALID_def
  MM_MODE_UNOWNED_def MM_MODE_SHARED_def MM_MODE_NS_def MM_MODE_NG_def MM_MODE_USER_def
  MM_MODE_T_def MM_MODE_UNMAPPED_MASK_def

definition INNER_SHAREABLE :: u64 where "INNER_SHAREABLE = 3"
definition PTE_VALID :: u64 where "PTE_VALID = push_bit 0 1"
definition PTE_LEVEL0_BLOCK :: u64 where "PTE_LEVEL0_BLOCK = push_bit 1 1"
definition PTE_TABLE :: u64 where "PTE_TABLE = push_bit 1 1"

definition STAGE1_XN :: u64 where "STAGE1_XN = push_bit 54 1"
definition STAGE1_UXN :: u64 where "STAGE1_UXN = push_bit 54 1"
definition STAGE1_PXN :: u64 where "STAGE1_PXN = push_bit 53 1"
definition STAGE1_GP :: u64 where "STAGE1_GP = push_bit 50 1"
definition STAGE1_NG :: u64 where "STAGE1_NG = push_bit 11 1"
definition STAGE1_AF :: u64 where "STAGE1_AF = push_bit 10 1"
definition STAGE1_SH :: "u64 \<Rightarrow> u64" where "STAGE1_SH x = push_bit 8 x"
definition STAGE1_AP2 :: u64 where "STAGE1_AP2 = push_bit 7 1"
definition STAGE1_AP1 :: u64 where "STAGE1_AP1 = push_bit 6 1"
definition STAGE1_AP :: "u64 \<Rightarrow> u64" where "STAGE1_AP x = push_bit 6 x"
definition STAGE1_NS :: u64 where "STAGE1_NS = push_bit 5 1"
definition STAGE1_ATTRINDX :: "u64 \<Rightarrow> u64" where "STAGE1_ATTRINDX x = push_bit 2 x"
definition STAGE1_READONLY :: u64 where "STAGE1_READONLY = 2"
definition STAGE1_READWRITE :: u64 where "STAGE1_READWRITE = 0"
definition STAGE1_AP_USER_RW :: u64 where "STAGE1_AP_USER_RW = 1"
definition STAGE1_DEVICEINDX :: u64 where "STAGE1_DEVICEINDX = 0"
definition STAGE1_NORMALINDX :: u64 where "STAGE1_NORMALINDX = 1"
definition STAGE1_STACKINDX :: u64 where "STAGE1_STACKINDX = 2"
definition STAGE1_SW_OWNED :: u64 where "STAGE1_SW_OWNED = push_bit 55 1"
definition STAGE1_SW_EXCLUSIVE :: u64 where "STAGE1_SW_EXCLUSIVE = push_bit 56 1"

definition STAGE2_XN :: "u64 \<Rightarrow> u64" where "STAGE2_XN x = push_bit 53 x"
definition STAGE2_AF :: u64 where "STAGE2_AF = push_bit 10 1"
definition STAGE2_SH :: "u64 \<Rightarrow> u64" where "STAGE2_SH x = push_bit 8 x"
definition STAGE2_S2AP :: "u64 \<Rightarrow> u64" where "STAGE2_S2AP x = push_bit 6 x"
definition STAGE2_EXECUTE_ALL :: u64 where "STAGE2_EXECUTE_ALL = 0"
definition STAGE2_EXECUTE_NONE :: u64 where "STAGE2_EXECUTE_NONE = 2"
definition STAGE2_EXECUTE_MASK :: u64 where "STAGE2_EXECUTE_MASK = 3"
definition STAGE2_SW_OWNED :: u64 where "STAGE2_SW_OWNED = push_bit 55 1"
definition STAGE2_SW_EXCLUSIVE :: u64 where "STAGE2_SW_EXCLUSIVE = push_bit 56 1"
definition STAGE2_DEVICE_MEMORY :: u64 where "STAGE2_DEVICE_MEMORY = 0"
definition STAGE2_WRITEBACK :: u64 where "STAGE2_WRITEBACK = 3"
definition STAGE2_MEMATTR_DEVICE_GRE :: u64 where "STAGE2_MEMATTR_DEVICE_GRE = 3"
definition STAGE2_MEMATTR :: "u64 \<Rightarrow> u64 \<Rightarrow> u64" where
  "STAGE2_MEMATTR outer inner = push_bit 2 (push_bit 2 outer OR inner)"
definition STAGE2_MEMATTR_TYPE_MASK :: u64 where "STAGE2_MEMATTR_TYPE_MASK = push_bit 4 3"
definition STAGE2_ACCESS_READ :: u64 where "STAGE2_ACCESS_READ = 1"
definition STAGE2_ACCESS_WRITE :: u64 where "STAGE2_ACCESS_WRITE = 2"

definition TABLE_NSTABLE :: u64 where "TABLE_NSTABLE = push_bit 63 1"
definition TABLE_APTABLE1 :: u64 where "TABLE_APTABLE1 = push_bit 62 1"
definition TABLE_APTABLE0 :: u64 where "TABLE_APTABLE0 = push_bit 61 1"
definition TABLE_XNTABLE :: u64 where "TABLE_XNTABLE = push_bit 60 1"
definition TABLE_PXNTABLE :: u64 where "TABLE_PXNTABLE = push_bit 59 1"

definition PTE_ADDR_MASK :: u64 where
  "PTE_ADDR_MASK = (push_bit 48 1 - 1) AND NOT (push_bit PAGE_BITS 1 - 1)"
definition PTE_ATTR_MASK :: u64 where
  "PTE_ATTR_MASK = NOT (PTE_ADDR_MASK OR push_bit 1 1)"

lemmas stage1_consts = INNER_SHAREABLE_def PTE_VALID_def STAGE1_XN_def STAGE1_UXN_def STAGE1_PXN_def
  STAGE1_GP_def STAGE1_NG_def STAGE1_AF_def STAGE1_SH_def STAGE1_AP2_def STAGE1_AP1_def
  STAGE1_AP_def STAGE1_NS_def STAGE1_ATTRINDX_def STAGE1_READONLY_def STAGE1_READWRITE_def
  STAGE1_AP_USER_RW_def STAGE1_DEVICEINDX_def STAGE1_NORMALINDX_def STAGE1_STACKINDX_def
  STAGE1_SW_OWNED_def STAGE1_SW_EXCLUSIVE_def

lemmas stage2_consts = INNER_SHAREABLE_def PTE_VALID_def STAGE2_XN_def STAGE2_AF_def STAGE2_SH_def
  STAGE2_S2AP_def STAGE2_EXECUTE_ALL_def STAGE2_EXECUTE_NONE_def STAGE2_EXECUTE_MASK_def
  STAGE2_SW_OWNED_def STAGE2_SW_EXCLUSIVE_def STAGE2_DEVICE_MEMORY_def STAGE2_WRITEBACK_def
  STAGE2_MEMATTR_DEVICE_GRE_def STAGE2_MEMATTR_def STAGE2_MEMATTR_TYPE_MASK_def
  STAGE2_ACCESS_READ_def STAGE2_ACCESS_WRITE_def

section \<open>Page table entries\<close>

definition arch_mm_absent_pte :: "nat \<Rightarrow> u64" where
  "arch_mm_absent_pte level = 0"

definition arch_mm_table_pte :: "nat \<Rightarrow> u64 \<Rightarrow> u64" where
  "arch_mm_table_pte level pa = pa OR PTE_TABLE OR PTE_VALID"

definition arch_mm_block_pte :: "nat \<Rightarrow> u64 \<Rightarrow> u64 \<Rightarrow> u64" where
  "arch_mm_block_pte level pa attrs =
     (let pte = pa OR attrs
      in if level = 0 then pte OR PTE_LEVEL0_BLOCK else pte)"

definition arch_mm_is_block_allowed :: "nat \<Rightarrow> bool" where
  "arch_mm_is_block_allowed level \<longleftrightarrow> level \<le> 2"

definition arch_mm_pte_is_valid :: "u64 \<Rightarrow> nat \<Rightarrow> bool" where
  "arch_mm_pte_is_valid pte level \<longleftrightarrow> pte AND PTE_VALID \<noteq> 0"

definition arch_mm_pte_is_present :: "u64 \<Rightarrow> nat \<Rightarrow> bool" where
  "arch_mm_pte_is_present pte level \<longleftrightarrow>
     arch_mm_pte_is_valid pte level \<or> pte AND STAGE2_SW_OWNED \<noteq> 0"

definition arch_mm_pte_is_table :: "u64 \<Rightarrow> nat \<Rightarrow> bool" where
  "arch_mm_pte_is_table pte level \<longleftrightarrow>
     level \<noteq> 0 \<and> arch_mm_pte_is_valid pte level \<and> pte AND PTE_TABLE \<noteq> 0"

definition arch_mm_pte_is_block :: "u64 \<Rightarrow> nat \<Rightarrow> bool" where
  "arch_mm_pte_is_block pte level \<longleftrightarrow>
     arch_mm_is_block_allowed level \<and>
     (if level = 0 then pte AND PTE_LEVEL0_BLOCK \<noteq> 0
      else arch_mm_pte_is_present pte level \<and> \<not> arch_mm_pte_is_table pte level)"

definition pte_addr :: "u64 \<Rightarrow> u64" where
  "pte_addr pte = pte AND PTE_ADDR_MASK"

definition arch_mm_clear_pa :: "u64 \<Rightarrow> u64" where
  "arch_mm_clear_pa pa = pte_addr pa"

definition arch_mm_block_from_pte :: "u64 \<Rightarrow> nat \<Rightarrow> u64" where
  "arch_mm_block_from_pte pte level = pte_addr pte"

definition arch_mm_table_from_pte :: "u64 \<Rightarrow> nat \<Rightarrow> u64" where
  "arch_mm_table_from_pte pte level = pte_addr pte"

definition arch_mm_pte_attrs :: "u64 \<Rightarrow> nat \<Rightarrow> u64" where
  "arch_mm_pte_attrs pte level = pte AND PTE_ATTR_MASK"

section \<open>Modes and attributes\<close>

text \<open>
  \<open>cfg_vhe\<close> is \<open>has_vhe_support ()\<close>, \<open>cfg_secure\<close> is \<open>SECURE_WORLD == 1\<close>, \<open>cfg_bti\<close> is
  \<open>BRANCH_PROTECTION\<close> together with \<open>is_arch_feat_bti_supported ()\<close>, \<open>cfg_mte\<close> is
  \<open>ENABLE_MTE\<close> and \<open>cfg_vm\<close> is \<open>VM_TOOLCHAIN == 1\<close>.
\<close>

record arch_cfg =
  cfg_vhe :: bool
  cfg_secure :: bool
  cfg_bti :: bool
  cfg_mte :: bool
  cfg_vm :: bool

definition has :: "u32 \<Rightarrow> u32 \<Rightarrow> bool" where
  "has mode flag \<longleftrightarrow> mode AND flag \<noteq> 0"

definition arch_mm_mode_to_stage1_attrs :: "arch_cfg \<Rightarrow> u32 \<Rightarrow> u64" where
  "arch_mm_mode_to_stage1_attrs cfg mode =
     (STAGE1_AF OR STAGE1_SH INNER_SHAREABLE) OR
     (if cfg_secure cfg \<and> has mode MM_MODE_NS then STAGE1_NS else 0) OR
     (if has mode MM_MODE_X
      then (if cfg_vhe cfg then (if has mode MM_MODE_USER then STAGE1_PXN else STAGE1_UXN) else 0) OR
           (if cfg_bti cfg then STAGE1_GP else 0)
      else if cfg_vhe cfg then STAGE1_UXN OR STAGE1_PXN else STAGE1_XN) OR
     (if has mode MM_MODE_W then STAGE1_AP STAGE1_READWRITE else STAGE1_AP STAGE1_READONLY) OR
     (if cfg_vhe cfg
      then (if has mode MM_MODE_USER then STAGE1_AP STAGE1_AP_USER_RW else 0) OR
           (if has mode MM_MODE_NG then STAGE1_NG else 0)
      else 0) OR
     (if has mode MM_MODE_D then STAGE1_ATTRINDX STAGE1_DEVICEINDX
      else if has mode MM_MODE_T then STAGE1_ATTRINDX STAGE1_STACKINDX
      else STAGE1_ATTRINDX STAGE1_NORMALINDX) OR
     (if \<not> has mode MM_MODE_UNOWNED then STAGE1_SW_OWNED else 0) OR
     (if \<not> has mode MM_MODE_SHARED then STAGE1_SW_EXCLUSIVE else 0) OR
     (if \<not> has mode MM_MODE_INVALID then PTE_VALID else 0)"

definition arch_mm_stage1_attrs_to_mode :: "arch_cfg \<Rightarrow> u64 \<Rightarrow> u32 outcome" where
  "arch_mm_stage1_attrs_to_mode cfg attrs =
     (let ro = (attrs AND STAGE1_AP STAGE1_READONLY = STAGE1_AP STAGE1_READONLY);
          normal = (attrs AND STAGE1_ATTRINDX STAGE1_NORMALINDX = STAGE1_ATTRINDX STAGE1_NORMALINDX)
      in check (ro \<or> attrs AND STAGE1_AP STAGE1_READWRITE = STAGE1_AP STAGE1_READWRITE)
         (Ret ((if cfg_secure cfg \<and> attrs AND STAGE1_NS \<noteq> 0 then MM_MODE_NS else 0) OR
               (if ro then MM_MODE_R else MM_MODE_W OR MM_MODE_R) OR
               (if cfg_vhe cfg \<and> attrs AND STAGE1_AP STAGE1_AP_USER_RW \<noteq> 0 then MM_MODE_USER else 0) OR
               (if attrs AND STAGE1_XN = 0 \<or> attrs AND STAGE1_PXN = 0 then MM_MODE_X else 0) OR
               (if cfg_vhe cfg \<and> attrs AND STAGE1_NG \<noteq> 0 then MM_MODE_NG else 0) OR
               (if \<not> normal then MM_MODE_D else 0) OR
               (if attrs AND STAGE1_SW_OWNED = 0 then MM_MODE_UNOWNED else 0) OR
               (if attrs AND STAGE1_SW_EXCLUSIVE = 0 then MM_MODE_SHARED else 0) OR
               (if attrs AND PTE_VALID = 0 then MM_MODE_INVALID else 0))))"

definition arch_mm_mode_to_stage2_attrs :: "u32 \<Rightarrow> u64" where
  "arch_mm_mode_to_stage2_attrs mode =
     (let access = (if has mode MM_MODE_R then STAGE2_ACCESS_READ else 0) OR
                   (if has mode MM_MODE_W then STAGE2_ACCESS_WRITE else 0)
      in (STAGE2_AF OR STAGE2_SH INNER_SHAREABLE) OR
         STAGE2_S2AP access OR
         (if has mode MM_MODE_X then STAGE2_XN STAGE2_EXECUTE_ALL else STAGE2_XN STAGE2_EXECUTE_NONE) OR
         (if has mode MM_MODE_D then STAGE2_MEMATTR STAGE2_DEVICE_MEMORY STAGE2_MEMATTR_DEVICE_GRE
          else STAGE2_MEMATTR STAGE2_WRITEBACK STAGE2_WRITEBACK) OR
         (if \<not> has mode MM_MODE_UNOWNED then STAGE2_SW_OWNED else 0) OR
         (if \<not> has mode MM_MODE_SHARED then STAGE2_SW_EXCLUSIVE else 0) OR
         (if \<not> has mode MM_MODE_INVALID then PTE_VALID else 0))"

definition arch_mm_stage2_attrs_to_mode :: "u64 \<Rightarrow> u32" where
  "arch_mm_stage2_attrs_to_mode attrs =
     (if attrs AND STAGE2_S2AP STAGE2_ACCESS_READ \<noteq> 0 then MM_MODE_R else 0) OR
     (if attrs AND STAGE2_S2AP STAGE2_ACCESS_WRITE \<noteq> 0 then MM_MODE_W else 0) OR
     (if attrs AND STAGE2_XN STAGE2_EXECUTE_MASK = STAGE2_XN STAGE2_EXECUTE_ALL then MM_MODE_X else 0) OR
     (if attrs AND STAGE2_MEMATTR_TYPE_MASK = STAGE2_DEVICE_MEMORY then MM_MODE_D else 0) OR
     (if attrs AND STAGE2_SW_OWNED = 0 then MM_MODE_UNOWNED else 0) OR
     (if attrs AND STAGE2_SW_EXCLUSIVE = 0 then MM_MODE_SHARED else 0) OR
     (if attrs AND PTE_VALID = 0 then MM_MODE_INVALID else 0)"

definition arch_mm_combine_table_entry_attrs :: "arch_cfg \<Rightarrow> u64 \<Rightarrow> u64 \<Rightarrow> u64" where
  "arch_mm_combine_table_entry_attrs cfg table_attrs block_attrs =
     (let b1 = (if table_attrs AND TABLE_NSTABLE \<noteq> 0 then block_attrs OR STAGE1_NS else block_attrs);
          b2 = (if table_attrs AND TABLE_APTABLE1 \<noteq> 0 then b1 OR STAGE1_AP2 else b1);
          b3 = (if table_attrs AND TABLE_APTABLE0 \<noteq> 0
                then if cfg_vhe cfg then b2 OR STAGE1_AP1 else b2 AND NOT STAGE1_AP1
                else b2);
          b4 = (if table_attrs AND TABLE_XNTABLE \<noteq> 0 then b3 OR STAGE1_XN else b3)
      in if table_attrs AND TABLE_PXNTABLE \<noteq> 0 then b4 OR STAGE1_PXN else b4)"

section \<open>Reading flags as bits\<close>

lemma has_bit: "has mode (push_bit n 1) \<longleftrightarrow> bit mode n"
  by (simp add: has_def bit_iff_and_push_bit_not_eq_0)

lemma has_bits [simp]:
  "has mode MM_MODE_R \<longleftrightarrow> bit mode 0" "has mode MM_MODE_W \<longleftrightarrow> bit mode 1"
  "has mode MM_MODE_X \<longleftrightarrow> bit mode 2" "has mode MM_MODE_D \<longleftrightarrow> bit mode 3"
  "has mode MM_MODE_INVALID \<longleftrightarrow> bit mode 4" "has mode MM_MODE_UNOWNED \<longleftrightarrow> bit mode 5"
  "has mode MM_MODE_SHARED \<longleftrightarrow> bit mode 6" "has mode MM_MODE_NS \<longleftrightarrow> bit mode 7"
  "has mode MM_MODE_NG \<longleftrightarrow> bit mode 8" "has mode MM_MODE_USER \<longleftrightarrow> bit mode 9"
  "has mode MM_MODE_T \<longleftrightarrow> bit mode 10"
  by (simp_all add: mode_consts flip: has_bit)

lemma and_bit_zero: "(a :: u64) AND push_bit n 1 = 0 \<longleftrightarrow> \<not> bit a n"
  by (simp add: bit_iff_and_push_bit_not_eq_0)

lemma pte_is_valid_bit: "arch_mm_pte_is_valid pte l \<longleftrightarrow> bit pte 0"
  by (simp only: arch_mm_pte_is_valid_def PTE_VALID_def and_bit_zero not_not)

lemma pte_is_present_bit: "arch_mm_pte_is_present pte l \<longleftrightarrow> bit pte 0 \<or> bit pte 55"
  by (simp only: arch_mm_pte_is_present_def pte_is_valid_bit STAGE2_SW_OWNED_def and_bit_zero not_not)

lemma pte_is_table_bit: "arch_mm_pte_is_table pte l \<longleftrightarrow> l \<noteq> 0 \<and> bit pte 0 \<and> bit pte 1"
  by (simp only: arch_mm_pte_is_table_def pte_is_valid_bit PTE_TABLE_def and_bit_zero not_not)

lemma pte_is_block_bit: "arch_mm_pte_is_block pte l \<longleftrightarrow>
    l \<le> 2 \<and> (if l = 0 then bit pte 1 else (bit pte 0 \<or> bit pte 55) \<and> \<not> (bit pte 0 \<and> bit pte 1))"
  by (simp only: arch_mm_pte_is_block_def pte_is_present_bit pte_is_table_bit arch_mm_is_block_allowed_def
     PTE_LEVEL0_BLOCK_def and_bit_zero not_not) auto

lemma bit_addr_mask: "bit PTE_ADDR_MASK n \<longleftrightarrow> 12 \<le> n \<and> n < 48"
proof -
  have m: "PTE_ADDR_MASK = mask 48 AND NOT (mask 12)"
    by (simp add: PTE_ADDR_MASK_def PAGE_BITS_def push_bit_eq_mult mask_eq_exp_minus_1)
  show ?thesis unfolding m bit_and_iff bit_not_iff_eq bit_mask_iff by auto
qed

lemma bit_attr_mask: "bit PTE_ATTR_MASK n \<longleftrightarrow> n < 64 \<and> \<not> (12 \<le> n \<and> n < 48) \<and> n \<noteq> 1"
  unfolding PTE_ATTR_MASK_def bit_not_iff_eq bit_or_iff bit_addr_mask bit_push_bit_iff bit_1_iff
  by auto

lemma bit_pte_addr: "bit (pte_addr pte) n \<longleftrightarrow> 12 \<le> n \<and> n < 48 \<and> bit pte n"
  by (auto simp: pte_addr_def bit_and_iff bit_addr_mask)

lemma bit_pte_attrs: "bit (arch_mm_pte_attrs pte l) n \<longleftrightarrow> \<not> (12 \<le> n \<and> n < 48) \<and> n \<noteq> 1 \<and> bit pte n"
  by (auto simp: arch_mm_pte_attrs_def bit_and_iff bit_attr_mask dest: bit_imp_le_length)


lemma bit_if: "bit (if b then x else y) n \<longleftrightarrow> (if b then bit x n else bit y n)"
  by simp

lemmas bit_calc = bit_or_iff bit_and_iff bit_push_bit_iff bit_if bit_0_eq bit_1_iff bit_not_iff

lemma stage2_attr_bits:
  "bit (arch_mm_mode_to_stage2_attrs mode) 0 \<longleftrightarrow> \<not> bit mode 4"
  "bit (arch_mm_mode_to_stage2_attrs mode) 4 \<longleftrightarrow> \<not> bit mode 3"
  "bit (arch_mm_mode_to_stage2_attrs mode) 5 \<longleftrightarrow> \<not> bit mode 3"
  "bit (arch_mm_mode_to_stage2_attrs mode) 6 \<longleftrightarrow> bit mode 0"
  "bit (arch_mm_mode_to_stage2_attrs mode) 7 \<longleftrightarrow> bit mode 1"
  "\<not> bit (arch_mm_mode_to_stage2_attrs mode) 53"
  "bit (arch_mm_mode_to_stage2_attrs mode) 54 \<longleftrightarrow> \<not> bit mode 2"
  "bit (arch_mm_mode_to_stage2_attrs mode) 55 \<longleftrightarrow> \<not> bit mode 5"
  "bit (arch_mm_mode_to_stage2_attrs mode) 56 \<longleftrightarrow> \<not> bit mode 6"
  by (simp_all add: arch_mm_mode_to_stage2_attrs_def Let_def stage2_consts bit_calc bit_numeral_rec)

lemma and_two_bits_zero: "(a :: u64) AND push_bit n 3 = 0 \<longleftrightarrow> \<not> bit a n \<and> \<not> bit a (Suc n)"
proof -
  have "(3 :: u64) = 1 OR push_bit 1 1" by simp
  then have "push_bit n (3 :: u64) = push_bit n 1 OR push_bit (Suc n) 1"
    by (simp only: push_bit_or push_bit_push_bit add_Suc_right add_0_right One_nat_def)
  then show ?thesis
    by (simp only: bit.conj_disj_distrib or_eq_0_iff and_bit_zero)
qed

lemma attrs_to_mode_bits:
  "arch_mm_stage2_attrs_to_mode attrs =
     (if bit attrs 6 then MM_MODE_R else 0) OR (if bit attrs 7 then MM_MODE_W else 0) OR
     (if \<not> bit attrs 53 \<and> \<not> bit attrs 54 then MM_MODE_X else 0) OR
     (if \<not> bit attrs 4 \<and> \<not> bit attrs 5 then MM_MODE_D else 0) OR
     (if \<not> bit attrs 55 then MM_MODE_UNOWNED else 0) OR
     (if \<not> bit attrs 56 then MM_MODE_SHARED else 0) OR
     (if \<not> bit attrs 0 then MM_MODE_INVALID else 0)"
proof -
  have c: "STAGE2_S2AP STAGE2_ACCESS_READ = push_bit 6 1" "STAGE2_S2AP STAGE2_ACCESS_WRITE = push_bit 7 1"
    "STAGE2_XN STAGE2_EXECUTE_MASK = push_bit 53 3" "STAGE2_XN STAGE2_EXECUTE_ALL = 0"
    by (simp_all add: stage2_consts)
  have "Suc 53 = 54" "Suc 4 = 5" by simp_all
  then show ?thesis
    unfolding arch_mm_stage2_attrs_to_mode_def c STAGE2_MEMATTR_TYPE_MASK_def STAGE2_DEVICE_MEMORY_def
      STAGE2_SW_OWNED_def STAGE2_SW_EXCLUSIVE_def PTE_VALID_def
    by (simp only: and_bit_zero and_two_bits_zero not_not)
qed

lemma bit_single: "bit (if b then (push_bit k 1 :: u32) else 0) n \<longleftrightarrow> b \<and> k < 32 \<and> n = k"
  unfolding bit_if bit_push_bit_iff bit_1_iff bit_0_eq by auto

lemma mode_pow:
  "MM_MODE_R = push_bit 0 1" "MM_MODE_W = push_bit 1 1" "MM_MODE_X = push_bit 2 1"
  "MM_MODE_D = push_bit 3 1" "MM_MODE_INVALID = push_bit 4 1" "MM_MODE_UNOWNED = push_bit 5 1"
  "MM_MODE_SHARED = push_bit 6 1" "MM_MODE_NS = push_bit 7 1" "MM_MODE_NG = push_bit 8 1"
  "MM_MODE_USER = push_bit 9 1" "MM_MODE_T = push_bit 10 1"
  by (simp_all add: mode_consts)

lemma mode_flag_bits:
  "bit (if b then MM_MODE_R else 0) n \<longleftrightarrow> b \<and> n = 0"
  "bit (if b then MM_MODE_W else 0) n \<longleftrightarrow> b \<and> n = 1"
  "bit (if b then MM_MODE_X else 0) n \<longleftrightarrow> b \<and> n = 2"
  "bit (if b then MM_MODE_D else 0) n \<longleftrightarrow> b \<and> n = 3"
  "bit (if b then MM_MODE_INVALID else 0) n \<longleftrightarrow> b \<and> n = 4"
  "bit (if b then MM_MODE_UNOWNED else 0) n \<longleftrightarrow> b \<and> n = 5"
  "bit (if b then MM_MODE_SHARED else 0) n \<longleftrightarrow> b \<and> n = 6"
  "bit (if b then MM_MODE_NS else 0) n \<longleftrightarrow> b \<and> n = 7"
  "bit (if b then MM_MODE_NG else 0) n \<longleftrightarrow> b \<and> n = 8"
  "bit (if b then MM_MODE_USER else 0) n \<longleftrightarrow> b \<and> n = 9"
  unfolding mode_pow bit_single by simp_all

lemma stage2_roundtrip_mask:
  "arch_mm_stage2_attrs_to_mode (arch_mm_mode_to_stage2_attrs mode) = mode AND mask 7"
proof (rule bit_eqI)
  fix n :: nat
  have eq: "bit (arch_mm_stage2_attrs_to_mode (arch_mm_mode_to_stage2_attrs mode)) n \<longleftrightarrow>
    bit mode 0 \<and> n = 0 \<or> bit mode 1 \<and> n = 1 \<or> bit mode 2 \<and> n = 2 \<or> bit mode 3 \<and> n = 3 \<or>
    bit mode 5 \<and> n = 5 \<or> bit mode 6 \<and> n = 6 \<or> bit mode 4 \<and> n = 4"
    unfolding attrs_to_mode_bits stage2_attr_bits bit_or_iff mode_flag_bits
    by (simp add: stage2_attr_bits)
  show "bit (arch_mm_stage2_attrs_to_mode (arch_mm_mode_to_stage2_attrs mode)) n \<longleftrightarrow> bit (mode AND mask 7) n"
  proof (cases "n < 7")
    case True
    then consider "n = 0" | "n = 1" | "n = 2" | "n = 3" | "n = 4" | "n = 5" | "n = 6" by linarith
    then show ?thesis unfolding eq bit_and_iff bit_mask_iff by cases simp_all
  next
    case False
    then show ?thesis unfolding eq bit_and_iff bit_mask_iff by auto
  qed
qed

lemma stage1_attr_bits:
  "bit (arch_mm_mode_to_stage1_attrs cfg mode) 0 \<longleftrightarrow> \<not> bit mode 4"
  "bit (arch_mm_mode_to_stage1_attrs cfg mode) 2 \<longleftrightarrow> \<not> bit mode 3 \<and> \<not> bit mode 10"
  "bit (arch_mm_mode_to_stage1_attrs cfg mode) 5 \<longleftrightarrow> cfg_secure cfg \<and> bit mode 7"
  "bit (arch_mm_mode_to_stage1_attrs cfg mode) 6 \<longleftrightarrow> cfg_vhe cfg \<and> bit mode 9"
  "bit (arch_mm_mode_to_stage1_attrs cfg mode) 7 \<longleftrightarrow> \<not> bit mode 1"
  "bit (arch_mm_mode_to_stage1_attrs cfg mode) 11 \<longleftrightarrow> cfg_vhe cfg \<and> bit mode 8"
  "bit (arch_mm_mode_to_stage1_attrs cfg mode) 53 \<longleftrightarrow> cfg_vhe cfg \<and> (bit mode 2 \<longrightarrow> bit mode 9)"
  "bit (arch_mm_mode_to_stage1_attrs cfg mode) 54 \<longleftrightarrow> (bit mode 2 \<longrightarrow> cfg_vhe cfg \<and> \<not> bit mode 9)"
  "bit (arch_mm_mode_to_stage1_attrs cfg mode) 55 \<longleftrightarrow> \<not> bit mode 5"
  "bit (arch_mm_mode_to_stage1_attrs cfg mode) 56 \<longleftrightarrow> \<not> bit mode 6"
  by (simp_all add: arch_mm_mode_to_stage1_attrs_def Let_def stage1_consts bit_calc bit_numeral_rec)

lemma and_bit_eq: "(a :: u64) AND push_bit n 1 = push_bit n 1 \<longleftrightarrow> n < 64 \<longrightarrow> bit a n"
  unfolding word_eq_bits [of "a AND push_bit n 1"] bit_and_iff bit_push_bit_iff bit_1_iff by auto

lemma stage1_attrs_to_mode_bits:
  "arch_mm_stage1_attrs_to_mode cfg attrs =
     Ret ((if cfg_secure cfg \<and> bit attrs 5 then MM_MODE_NS else 0) OR
          (if bit attrs 7 then MM_MODE_R else MM_MODE_W OR MM_MODE_R) OR
          (if cfg_vhe cfg \<and> bit attrs 6 then MM_MODE_USER else 0) OR
          (if \<not> bit attrs 54 \<or> \<not> bit attrs 53 then MM_MODE_X else 0) OR
          (if cfg_vhe cfg \<and> bit attrs 11 then MM_MODE_NG else 0) OR
          (if \<not> bit attrs 2 then MM_MODE_D else 0) OR
          (if \<not> bit attrs 55 then MM_MODE_UNOWNED else 0) OR
          (if \<not> bit attrs 56 then MM_MODE_SHARED else 0) OR
          (if \<not> bit attrs 0 then MM_MODE_INVALID else 0))"
proof -
  have c: "STAGE1_AP STAGE1_READONLY = push_bit 7 1" "STAGE1_AP STAGE1_READWRITE = 0"
    "STAGE1_AP STAGE1_AP_USER_RW = push_bit 6 1" "STAGE1_ATTRINDX STAGE1_NORMALINDX = push_bit 2 1"
    by (simp_all add: stage1_consts)
  have t: "attrs AND 0 = 0" by simp
  show ?thesis
    unfolding arch_mm_stage1_attrs_to_mode_def c Let_def STAGE1_NS_def STAGE1_XN_def STAGE1_PXN_def
      STAGE1_NG_def STAGE1_SW_OWNED_def STAGE1_SW_EXCLUSIVE_def PTE_VALID_def t and_bit_eq and_bit_zero
    by simp
qed

lemma stage1_roundtrip_bits:
  assumes "cfg_vhe cfg" "cfg_secure cfg" "\<not> bit mode 10"
  shows "\<exists>m. arch_mm_stage1_attrs_to_mode cfg (arch_mm_mode_to_stage1_attrs cfg mode) = Ret m \<and>
    (\<forall>n. bit m n \<longleftrightarrow> n = 0 \<or> n < 10 \<and> bit mode n)"
proof -
  have rw: "(if b then MM_MODE_R else MM_MODE_W OR MM_MODE_R) =
    (if True then MM_MODE_R else 0) OR (if \<not> b then MM_MODE_W else 0)" for b
    by (simp add: mode_consts)
  have lt: "n < 10 \<longleftrightarrow> n = 0 \<or> n = 1 \<or> n = 2 \<or> n = 3 \<or> n = 4 \<or> n = 5 \<or> n = 6 \<or> n = 7 \<or> n = 8 \<or> n = 9" for n :: nat
    by auto
  show ?thesis
    unfolding stage1_attrs_to_mode_bits stage1_attr_bits outcome.inject ex_simps rw
    apply (rule exI, rule conjI, rule refl)
    unfolding bit_or_iff mode_flag_bits
    using assms by (simp add: lt) blast
qed
section \<open>The contract of the entry encoding\<close>

text \<open>
  What the architecture-independent code of \<^verbatim>\<open>src/mm.c\<close> relies on, from the comments of
  \<^verbatim>\<open>inc/hf/arch/mm.h\<close>: an entry is absent, a block or a table; the address and the
  attributes put into an entry are read back from it; and adding a distance to a block entry
  moves its address by that distance. \<open>addr_ok\<close> and \<open>attrs_ok\<close> say which addresses and
  attributes an entry can hold.
\<close>

locale pte_encoding =
  fixes absent :: "nat \<Rightarrow> u64"
    and table_pte :: "nat \<Rightarrow> u64 \<Rightarrow> u64"
    and block_pte :: "nat \<Rightarrow> u64 \<Rightarrow> u64 \<Rightarrow> u64"
    and allowed :: "nat \<Rightarrow> bool"
    and present :: "u64 \<Rightarrow> nat \<Rightarrow> bool"
    and is_block :: "u64 \<Rightarrow> nat \<Rightarrow> bool"
    and is_table :: "u64 \<Rightarrow> nat \<Rightarrow> bool"
    and block_addr :: "u64 \<Rightarrow> nat \<Rightarrow> u64"
    and table_addr :: "u64 \<Rightarrow> nat \<Rightarrow> u64"
    and attrs_of :: "u64 \<Rightarrow> nat \<Rightarrow> u64"
    and addr_ok :: "u64 \<Rightarrow> bool"
    and attrs_ok :: "u64 \<Rightarrow> bool"
  assumes absent_kind: "\<not> present (absent l) l" "\<not> is_block (absent l) l" "\<not> is_table (absent l) l"
    and absent_attrs: "attrs_of (absent l) l = 0"
    and table_kind: "l \<noteq> 0 \<Longrightarrow> is_table (table_pte l pa) l"
    and table_roundtrip: "addr_ok pa \<Longrightarrow> table_addr (table_pte l pa) l = pa"
    and block_kind: "allowed l \<Longrightarrow> addr_ok pa \<Longrightarrow> attrs_ok a \<Longrightarrow> is_block (block_pte l pa a) l"
    and block_present: "addr_ok pa \<Longrightarrow> attrs_ok a \<Longrightarrow> present (block_pte l pa a) l"
    and block_roundtrip: "addr_ok pa \<Longrightarrow> attrs_ok a \<Longrightarrow> block_addr (block_pte l pa a) l = pa"
      "addr_ok pa \<Longrightarrow> attrs_ok a \<Longrightarrow> attrs_of (block_pte l pa a) l = a"
    and block_shift: "addr_ok pa \<Longrightarrow> addr_ok (pa + d) \<Longrightarrow> attrs_ok a \<Longrightarrow>
      block_pte l pa a + d = block_pte l (pa + d) a"
    and kinds_disjoint: "is_block pte l \<Longrightarrow> \<not> is_table pte l"
    and table_present: "is_table pte l \<Longrightarrow> present pte l"
    and no_table_at_0: "\<not> is_table pte 0"
    and attrs_ok_nonzero: "attrs_ok a \<Longrightarrow> a \<noteq> 0"
    and allowed_0: "allowed 0"
    and allowed_down: "allowed (Suc l) \<Longrightarrow> allowed l"
begin

lemmas block_simps = block_kind block_present block_roundtrip

lemma block_not_table: "allowed l \<Longrightarrow> addr_ok pa \<Longrightarrow> attrs_ok a \<Longrightarrow> \<not> is_table (block_pte l pa a) l"
  using block_kind kinds_disjoint by blast

lemma block_not_absent: "addr_ok pa \<Longrightarrow> attrs_ok a \<Longrightarrow> block_pte l pa a \<noteq> absent l"
  using block_roundtrip(2) absent_attrs attrs_ok_nonzero by metis

text \<open>
  Stepping through a run of blocks by adding the entry size to the previous entry, as the
  loop that splits a block does, gives the blocks of the consecutive addresses.
\<close>

lemma block_run:
  assumes "attrs_ok a" "\<And>j. j \<le> i \<Longrightarrow> addr_ok (pa + of_nat j * inc)"
  shows "((\<lambda>p. p + inc) ^^ i) (block_pte l pa a) = block_pte l (pa + of_nat i * inc) a"
  using assms(2)
proof (induction i)
  case 0
  then show ?case by simp
next
  case (Suc i)
  have "addr_ok (pa + of_nat i * inc)" "addr_ok (pa + of_nat i * inc + inc)"
    using Suc.prems [of i] Suc.prems [of "Suc i"] by (simp_all add: algebra_simps)
  then have "block_pte l (pa + of_nat i * inc) a + inc = block_pte l (pa + of_nat i * inc + inc) a"
    by (rule block_shift [OF _ _ assms(1)])
  with Suc show ?case by (simp add: algebra_simps)
qed

end

definition pte_addr_ok :: "u64 \<Rightarrow> bool" where
  "pte_addr_ok pa \<longleftrightarrow> pte_addr pa = pa"

definition pte_attrs_ok :: "u64 \<Rightarrow> bool" where
  "pte_attrs_ok a \<longleftrightarrow> a AND PTE_ATTR_MASK = a \<and> a AND (PTE_VALID OR STAGE2_SW_OWNED) \<noteq> 0"

lemma pte_addr_ok_bits: "pte_addr_ok pa \<longleftrightarrow> (\<forall>n. bit pa n \<longrightarrow> 12 \<le> n \<and> n < 48)"
  unfolding pte_addr_ok_def word_eq_bits bit_pte_addr by auto

lemma pte_attrs_ok_bits: "pte_attrs_ok a \<longleftrightarrow>
    (\<forall>n. bit a n \<longrightarrow> \<not> (12 \<le> n \<and> n < 48) \<and> n \<noteq> 1) \<and> (bit a 0 \<or> bit a 55)"
proof -
  have "a AND (PTE_VALID OR STAGE2_SW_OWNED) = 0 \<longleftrightarrow> \<not> bit a 0 \<and> \<not> bit a 55"
    unfolding PTE_VALID_def STAGE2_SW_OWNED_def bit.conj_disj_distrib or_eq_0_iff and_bit_zero by blast
  then show ?thesis
    unfolding pte_attrs_ok_def word_eq_bits [of "a AND PTE_ATTR_MASK"] bit_and_iff bit_attr_mask
    by (auto dest: bit_imp_le_length)
qed

lemma pte_addr_ok_unat: "pte_addr_ok pa \<longleftrightarrow> unat pa < 2 ^ 48 \<and> 2 ^ 12 dvd unat pa"
proof -
  have "pte_addr pa = push_bit 12 (drop_bit 12 (take_bit 48 pa))"
    by (rule bit_eqI) (auto simp: bit_pte_addr bit_push_bit_iff bit_drop_bit_eq bit_take_bit_iff
        dest: bit_imp_le_length)
  then have "unat (pte_addr pa) = unat pa mod 2 ^ 48 div 2 ^ 12 * 2 ^ 12"
    by (simp add: unat_push_drop unsigned_take_bit_eq take_bit_nat_def)
  then have "pte_addr_ok pa \<longleftrightarrow> unat pa mod 2 ^ 48 div 2 ^ 12 * 2 ^ 12 = unat pa"
    by (simp add: pte_addr_ok_def word_unat_eq_iff)
  also have "\<dots> \<longleftrightarrow> unat pa < 2 ^ 48 \<and> 2 ^ 12 dvd unat pa"
    by (auto simp: dvd_div_mult_self intro: dvdI) (metis dvd_triv_right)+
  finally show ?thesis .
qed

lemma bit_block_pte: "bit (arch_mm_block_pte l pa a) n \<longleftrightarrow> bit pa n \<or> bit a n \<or> l = 0 \<and> n = 1"
  unfolding arch_mm_block_pte_def PTE_LEVEL0_BLOCK_def Let_def bit_if bit_or_iff bit_push_bit_iff bit_1_iff
  by auto

lemma bit_table_pte: "bit (arch_mm_table_pte l pa) n \<longleftrightarrow> bit pa n \<or> n = 1 \<or> n = 0"
  unfolding arch_mm_table_pte_def PTE_TABLE_def PTE_VALID_def bit_or_iff bit_push_bit_iff bit_1_iff
  by auto

lemma block_pte_plus:
  assumes "pte_addr_ok pa" "pte_attrs_ok a"
  shows "arch_mm_block_pte l pa a = pa + (if l = 0 then a OR PTE_LEVEL0_BLOCK else a)"
proof -
  let ?r = "if l = 0 then a OR PTE_LEVEL0_BLOCK else a"
  have "bit ?r n \<Longrightarrow> \<not> bit pa n" for n
    using assms unfolding pte_addr_ok_bits pte_attrs_ok_bits PTE_LEVEL0_BLOCK_def bit_if bit_or_iff
      bit_push_bit_iff bit_1_iff by (auto split: if_splits)
  then have "pa AND ?r = 0"
    unfolding word_eq_bits [of "pa AND ?r"] bit_and_iff bit_0_eq by auto
  then have "pa + ?r = pa OR ?r" by (rule disjunctive_add_eq_or)
  then show ?thesis by (simp add: arch_mm_block_pte_def Let_def or.assoc)
qed

interpretation arch: pte_encoding arch_mm_absent_pte arch_mm_table_pte arch_mm_block_pte
  arch_mm_is_block_allowed arch_mm_pte_is_present arch_mm_pte_is_block arch_mm_pte_is_table
  arch_mm_block_from_pte arch_mm_table_from_pte arch_mm_pte_attrs pte_addr_ok pte_attrs_ok
proof
  fix l pa a d pte
  show "\<not> arch_mm_pte_is_present (arch_mm_absent_pte l) l" "\<not> arch_mm_pte_is_block (arch_mm_absent_pte l) l"
    "\<not> arch_mm_pte_is_table (arch_mm_absent_pte l) l" "arch_mm_pte_attrs (arch_mm_absent_pte l) l = 0"
    by (simp_all add: pte_is_present_bit pte_is_block_bit pte_is_table_bit arch_mm_absent_pte_def
        arch_mm_pte_attrs_def)
  show "arch_mm_pte_is_table (arch_mm_table_pte l pa) l" if "l \<noteq> 0"
    using that by (simp add: pte_is_table_bit bit_table_pte)
  show "arch_mm_table_from_pte (arch_mm_table_pte l pa) l = pa" if "pte_addr_ok pa"
    using that unfolding arch_mm_table_from_pte_def word_eq_bits [of "pte_addr _"] bit_pte_addr bit_table_pte
      pte_addr_ok_bits by auto
  show "arch_mm_pte_is_block pte l \<Longrightarrow> \<not> arch_mm_pte_is_table pte l"
    "arch_mm_pte_is_table pte l \<Longrightarrow> arch_mm_pte_is_present pte l" "\<not> arch_mm_pte_is_table pte 0"
    by (auto simp: pte_is_present_bit pte_is_block_bit pte_is_table_bit split: if_splits)
  show "arch_mm_is_block_allowed 0" "arch_mm_is_block_allowed (Suc l) \<Longrightarrow> arch_mm_is_block_allowed l"
    by (simp_all add: arch_mm_is_block_allowed_def)
  assume a: "pte_attrs_ok a"
  then show "a \<noteq> 0" unfolding pte_attrs_ok_bits by auto
  assume pa: "pte_addr_ok pa"
  from pa a have nb: "\<not> bit pa 0" "\<not> bit pa 1" "\<not> bit a 1" "\<not> bit pa 55" "bit a 0 \<or> bit a 55"
    unfolding pte_addr_ok_bits pte_attrs_ok_bits by (auto dest: spec)
  show "arch_mm_pte_is_block (arch_mm_block_pte l pa a) l" if "arch_mm_is_block_allowed l"
    using that nb by (auto simp: pte_is_block_bit bit_block_pte arch_mm_is_block_allowed_def)
  show "arch_mm_pte_is_present (arch_mm_block_pte l pa a) l"
    using nb by (auto simp: pte_is_present_bit bit_block_pte)
  show "arch_mm_block_from_pte (arch_mm_block_pte l pa a) l = pa"
    using pa a unfolding arch_mm_block_from_pte_def word_eq_bits [of "pte_addr _"] bit_pte_addr bit_block_pte
      pte_addr_ok_bits pte_attrs_ok_bits by auto
  show "arch_mm_pte_attrs (arch_mm_block_pte l pa a) l = a"
    using pa a unfolding word_eq_bits [of "arch_mm_pte_attrs _ _"] bit_pte_attrs bit_block_pte
      pte_addr_ok_bits pte_attrs_ok_bits by auto
  show "arch_mm_block_pte l pa a + d = arch_mm_block_pte l (pa + d) a" if "pte_addr_ok (pa + d)"
    using that a pa by (simp add: block_pte_plus)
qed
section \<open>TLB maintenance\<close>

text \<open>
  The maintenance instructions in program order. The loops may in principle not end, since
  the counter is modified by the loop body, so they are partial functions; that they return
  is proved below.
\<close>

datatype tlb_op =
    Dsb_ish
  | Isb
  | Tlbi_vmalle1is
  | Tlbi_alle2is
  | Tlbi_vae1is u64
  | Tlbi_vae2is u64
  | Tlbi_vmalls12e1is
  | Tlbi_ipas2e1is u64
  | Switch_to_guest bool

definition MAX_TLBI_OPS :: u64 where "MAX_TLBI_OPS = 512"

definition arch_mm_sync_table_writes :: "tlb_op list" where
  "arch_mm_sync_table_writes = [Dsb_ish]"

definition tlbi_va :: "arch_cfg \<Rightarrow> u64 \<Rightarrow> tlb_op" where
  "tlbi_va cfg it = (if cfg_vm cfg then Tlbi_vae1is it else Tlbi_vae2is it)"

partial_function (option) stage1_loop :: "arch_cfg \<Rightarrow> u16 \<Rightarrow> u64 \<Rightarrow> u64 \<Rightarrow> tlb_op list option" where
  "stage1_loop cfg asid it fin =
     (if it < fin
      then let it' = it OR push_bit 48 (ucast (asid AND 0xff))
           in Option.bind (stage1_loop cfg (asid AND 0xff) (it' + 1) fin)
                (\<lambda>ops. Some (tlbi_va cfg it' # ops))
      else Some [])"

definition arch_mm_invalidate_stage1_range ::
  "arch_cfg \<Rightarrow> u16 \<Rightarrow> u64 \<Rightarrow> u64 \<Rightarrow> tlb_op list option" where
  "arch_mm_invalidate_stage1_range cfg asid va_begin va_end =
     Option.bind
       (if va_end - va_begin > MAX_TLBI_OPS * PAGE_SIZE
        then Some [if cfg_vm cfg then Tlbi_vmalle1is else Tlbi_alle2is]
        else stage1_loop cfg asid (drop_bit 12 va_begin) (drop_bit 12 va_end))
       (\<lambda>ops. Some (arch_mm_sync_table_writes @ ops @ [Dsb_ish, Isb]))"

partial_function (option) stage2_loop :: "u64 \<Rightarrow> u64 \<Rightarrow> tlb_op list option" where
  "stage2_loop it fin =
     (if it < fin
      then Option.bind (stage2_loop (it + 1) fin) (\<lambda>ops. Some (Tlbi_ipas2e1is it # ops))
      else Some [])"

definition arch_mm_invalidate_stage2_range ::
  "arch_cfg \<Rightarrow> u16 \<Rightarrow> u64 \<Rightarrow> u64 \<Rightarrow> tlb_op list option" where
  "arch_mm_invalidate_stage2_range cfg vmid va_begin va_end =
     Option.bind
       (if va_end - va_begin > MAX_TLBI_OPS * PAGE_SIZE
        then Some [Tlbi_vmalls12e1is]
        else Option.bind (stage2_loop (drop_bit 12 va_begin) (drop_bit 12 va_end))
               (\<lambda>ops. Some (ops @ [Dsb_ish, Tlbi_vmalle1is])))
       (\<lambda>ops. Some (arch_mm_sync_table_writes @
          (if cfg_vhe cfg then [Switch_to_guest True] else []) @ ops @ [Dsb_ish, Isb] @
          (if cfg_vhe cfg then [Switch_to_guest False] else [])))"

text \<open>The page numbers of a range, in order.\<close>

definition page_run :: "u64 \<Rightarrow> u64 \<Rightarrow> u64 list" where
  "page_run it fin = map (\<lambda>k. it + of_nat k) [0..<unat fin - unat it]"

lemma unat_succ_less: "(it :: u64) < fin \<Longrightarrow> unat (it + 1) = unat it + 1"
proof -
  assume "it < fin"
  then have "unat it < unat fin" by (simp add: word_less_nat_alt)
  moreover have "unat fin < 18446744073709551616" by simp
  ultimately have "unat it + 1 < 18446744073709551616" by linarith
  then show ?thesis by (subst unat_add_no_wrap) simp_all
qed

lemma page_run_step: "it < fin \<Longrightarrow> page_run it fin = it # page_run (it + 1) fin"
proof -
  assume lt: "it < fin"
  then have le: "unat it + 1 \<le> unat fin" by (simp add: word_less_nat_alt)
  have un: "unat (it + 1) = unat it + 1"
    using lt by (rule unat_succ_less)
  have "unat fin - unat it = Suc (unat fin - unat (it + 1))" using le un by simp
  then show ?thesis
    unfolding page_run_def
    by (simp only: upt_conv_Cons zero_less_Suc map_Suc_upt [symmetric]) (simp add: algebra_simps)
qed

lemma page_run_done: "\<not> it < fin \<Longrightarrow> page_run it fin = []"
  by (simp add: page_run_def word_less_nat_alt)

lemma stage2_loop_pages: "stage2_loop it fin = Some (map Tlbi_ipas2e1is (page_run it fin))"
proof (induction "unat fin - unat it" arbitrary: it rule: less_induct)
  case less
  show ?case
  proof (cases "it < fin")
    case True
    then have lt: "unat it < unat fin" by (simp add: word_less_nat_alt)
    have "unat (it + 1) = unat it + 1" using True by (rule unat_succ_less)
    then have "unat fin - unat (it + 1) < unat fin - unat it" using lt by simp
    from less [OF this] True show ?thesis
      by (simp add: stage2_loop.simps [of it] page_run_step)
  next
    case False
    then show ?thesis by (simp add: stage2_loop.simps [of it] page_run_done)
  qed
qed

lemma stage1_loop_pages_asid0:
  "asid AND 0xff = 0 \<Longrightarrow> stage1_loop cfg asid it fin = Some (map (tlbi_va cfg) (page_run it fin))"
proof (induction "unat fin - unat it" arbitrary: it asid rule: less_induct)
  case less
  show ?case
  proof (cases "it < fin")
    case True
    then have lt: "unat it < unat fin" by (simp add: word_less_nat_alt)
    have "unat (it + 1) = unat it + 1" using True by (rule unat_succ_less)
    then have "unat fin - unat (it + 1) < unat fin - unat it" using lt by simp
    from less.hyps [OF this, of 0] less.prems True show ?thesis
      by (simp add: stage1_loop.simps [of cfg asid it] page_run_step)
  next
    case False
    then show ?thesis by (simp add: stage1_loop.simps [of cfg asid it] page_run_done)
  qed
qed

lemma bit_le_unat: "bit (w :: u64) (n + k) \<Longrightarrow> 2 ^ n \<le> unat w"
proof -
  assume "bit w (n + k)"
  then have "bit (drop_bit n w) k" by (simp only: bit_drop_bit_eq o_apply)
  then have "drop_bit n w \<noteq> 0" by auto
  then have "unat (drop_bit n w) \<noteq> 0" by (simp add: unat_eq_zero)
  then have "unat w div 2 ^ n \<noteq> 0" by (simp only: unat_drop_bit_div not_False_eq_True)
  then show ?thesis by (simp add: div_eq_0_iff not_less)
qed

text \<open>
  With a non-zero ASID the first iteration puts the ASID into the loop counter itself, which
  takes it past the end: only the first page of the range is invalidated.
\<close>

lemma stage1_loop_first_only:
  assumes "asid AND 0xff \<noteq> 0" "it < fin" "unat fin \<le> 2 ^ 48"
  shows "stage1_loop cfg asid it fin = Some [tlbi_va cfg (it OR push_bit 48 (ucast (asid AND 0xff)))]"
proof -
  let ?t = "push_bit 48 (ucast (asid AND 0xff)) :: u64"
  from assms(1) obtain k where k: "bit (asid AND 0xff) k"
    unfolding word_eq_bits by auto
  have "(0xff :: u16) = mask 8" by (simp add: mask_eq_exp_minus_1)
  with k have k8: "k < 8" "bit asid k" by (auto simp: bit_and_iff bit_mask_iff)
  have big: "2 ^ 48 \<le> unat (it OR ?t)"
  proof -
    have "bit (it OR ?t) (48 + k)"
      using k k8 by (simp add: bit_or_iff bit_push_bit_iff bit_unsigned_iff)
    then show ?thesis by (rule bit_le_unat)
  qed
  have "\<not> bit (it OR ?t) 63"
  proof -
    have "unat it < 2 ^ 48" using assms(2,3) by (simp add: word_less_nat_alt)
    then have "\<not> bit it 63" using bit_le_unat [of it 48 15] by fastforce
    moreover have "\<not> bit ?t 63"
      using \<open>(0xff :: u16) = mask 8\<close> by (simp add: bit_push_bit_iff bit_unsigned_iff bit_and_iff bit_mask_iff)
    ultimately show ?thesis by (simp add: bit_or_iff)
  qed
  then have "it OR ?t \<noteq> - 1" by auto
  then have "it OR ?t < - 1" by (simp only: word_order.not_eq_extremum)
  then have "unat ((it OR ?t) + 1) = unat (it OR ?t) + 1" by (rule unat_succ_less)
  then have "\<not> (it OR ?t) + 1 < fin" using big assms(3) by (simp add: word_less_nat_alt)
  then show ?thesis
    using assms(2) by (simp add: stage1_loop.simps [of cfg asid it] Let_def
        stage1_loop.simps [of cfg _ "(it OR ?t) + 1"])
qed

section \<open>Properties of the attribute encoding and of TLB maintenance\<close>

lemma mask7: "mask 7 = (MM_MODE_R OR MM_MODE_W OR MM_MODE_X OR MM_MODE_D OR MM_MODE_INVALID OR
    MM_MODE_UNOWNED OR MM_MODE_SHARED)"
  by (simp add: mode_consts mask_eq_exp_minus_1)

text \<open>
  C16: Converting a mode to stage-2 attributes and back loses nothing of the seven flags that
  stage 2 represents (R, W, X, D, INVALID, UNOWNED, SHARED), and the other flags are dropped.
\<close>

theorem stage2_mode_roundtrip:
  "arch_mm_stage2_attrs_to_mode (arch_mm_mode_to_stage2_attrs mode) =
     mode AND (MM_MODE_R OR MM_MODE_W OR MM_MODE_X OR MM_MODE_D OR MM_MODE_INVALID OR
       MM_MODE_UNOWNED OR MM_MODE_SHARED)"
  using stage2_roundtrip_mask [of mode] by (simp only: mask7)

lemma mask10: "mask 10 = (MM_MODE_R OR MM_MODE_W OR MM_MODE_X OR MM_MODE_D OR MM_MODE_INVALID OR
    MM_MODE_UNOWNED OR MM_MODE_SHARED OR MM_MODE_NS OR MM_MODE_NG OR MM_MODE_USER)"
  by (simp add: mode_consts mask_eq_exp_minus_1)

lemma has_T_bit: "has mode MM_MODE_T \<longleftrightarrow> bit mode 10"
  by simp

text \<open>
  C17: On a secure-world build with VHE, a stage-1 mode without the tagged-memory flag is
  recovered exactly by decoding its attributes, except that every mapping decodes as readable.
\<close>

theorem stage1_mode_roundtrip:
  assumes "cfg_vhe cfg" "cfg_secure cfg" "\<not> has mode MM_MODE_T"
  shows "arch_mm_stage1_attrs_to_mode cfg (arch_mm_mode_to_stage1_attrs cfg mode) =
    Ret (MM_MODE_R OR mode AND (MM_MODE_R OR MM_MODE_W OR MM_MODE_X OR MM_MODE_D OR MM_MODE_INVALID OR
    MM_MODE_UNOWNED OR MM_MODE_SHARED OR MM_MODE_NS OR MM_MODE_NG OR MM_MODE_USER))"
proof -
  have T: "\<not> bit mode 10" using assms(3) by (simp only: has_T_bit not_False_eq_True)
  obtain m where m: "arch_mm_stage1_attrs_to_mode cfg (arch_mm_mode_to_stage1_attrs cfg mode) = Ret m"
    and bits: "\<And>n. bit m n \<longleftrightarrow> n = 0 \<or> n < 10 \<and> bit mode n"
    using stage1_roundtrip_bits [OF assms(1,2) T] by blast
  have R: "bit MM_MODE_R n \<longleftrightarrow> n = 0" for n by (simp add: MM_MODE_R_def bit_1_iff)
  have "m = (MM_MODE_R OR mode AND mask 10)"
    unfolding word_eq_bits bits bit_or_iff bit_and_iff bit_mask_iff R by auto
  then show ?thesis using m by (simp only: mask10)
qed

definition cfg_secure_vhe :: arch_cfg where
  "cfg_secure_vhe = \<lparr>cfg_vhe = True, cfg_secure = True, cfg_bti = False, cfg_mte = False, cfg_vm = False\<rparr>"

theorem stage1_mode_roundtrip_witness:
  "arch_mm_stage1_attrs_to_mode cfg_secure_vhe (arch_mm_mode_to_stage1_attrs cfg_secure_vhe 0x203) = Ret 0x203"
  using stage1_mode_roundtrip [of cfg_secure_vhe "0x203"]
  by (simp add: cfg_secure_vhe_def has_def mode_consts)

text \<open>
  Without VHE every stage-1 mapping decodes as executable, whatever its mode: the decoder
  tests the privileged execute-never bit, which the encoder only sets when VHE is enabled.
\<close>

theorem stage1_decode_executable_without_vhe:
  assumes "\<not> cfg_vhe cfg"
  shows "\<exists>m. arch_mm_stage1_attrs_to_mode cfg (arch_mm_mode_to_stage1_attrs cfg mode) = Ret m \<and>
    has m MM_MODE_X"
proof -
  have "bit (MM_MODE_X) 2" by (simp add: mode_consts bit_numeral_rec)
  then show ?thesis
    unfolding stage1_attrs_to_mode_bits stage1_attr_bits using assms by (simp add: bit_or_iff)
qed

definition cfg_plain :: arch_cfg where
  "cfg_plain = \<lparr>cfg_vhe = False, cfg_secure = False, cfg_bti = False, cfg_mte = False, cfg_vm = False\<rparr>"

theorem stage1_decode_executable_without_vhe_witness:
  "\<exists>m. arch_mm_stage1_attrs_to_mode cfg_plain (arch_mm_mode_to_stage1_attrs cfg_plain MM_MODE_R) = Ret m \<and>
    has m MM_MODE_X"
  by (rule stage1_decode_executable_without_vhe) (simp add: cfg_plain_def)

section \<open>What maintenance removes from the TLB\<close>

text \<open>
  How far a maintenance sequence has come in removing the translations of one page. The writes to
  the tables must have been made visible by a barrier before an invalidation counts, and the
  invalidation is complete at the barrier after it. A stage-2 page invalidation leaves the
  translations that combine both stages, which a stage-1 flush removes once it is complete.
\<close>

datatype tlb_phase = Unsynced | Synced | Ipa_issued | Ipa_complete | Issued | Removed

fun barrier :: "tlb_phase \<Rightarrow> tlb_phase" where
  "barrier Unsynced = Synced"
| "barrier Ipa_issued = Ipa_complete"
| "barrier Issued = Removed"
| "barrier ph = ph"

text \<open>
  The translations of page \<open>p\<close> under the current VMID. With VHE the stage-1 flush only concerns
  the guest while guest mode is switched on.
\<close>

fun stage2_tlb :: "u64 \<Rightarrow> tlb_op \<Rightarrow> bool \<times> tlb_phase \<Rightarrow> bool \<times> tlb_phase" where
  "stage2_tlb p Dsb_ish (g, ph) = (g, barrier ph)"
| "stage2_tlb p (Switch_to_guest g') (g, ph) = (g', ph)"
| "stage2_tlb p Tlbi_vmalls12e1is (g, ph) = (g, if ph \<in> {Unsynced, Removed} then ph else Issued)"
| "stage2_tlb p (Tlbi_ipas2e1is q) (g, ph) = (g, if q = p \<and> ph = Synced then Ipa_issued else ph)"
| "stage2_tlb p Tlbi_vmalle1is (g, ph) = (g, if g \<and> ph = Ipa_complete then Issued else ph)"
| "stage2_tlb p _ st = st"

definition stage2_removed :: "arch_cfg \<Rightarrow> u64 \<Rightarrow> tlb_op list \<Rightarrow> bool" where
  "stage2_removed cfg p ops \<longleftrightarrow> fold (stage2_tlb p) ops (\<not> cfg_vhe cfg, Unsynced) = (\<not> cfg_vhe cfg, Removed)"

text \<open>The translations of page \<open>p\<close> in the hypervisor's own regime, under an address space identifier.\<close>

fun stage1_tlb :: "arch_cfg \<Rightarrow> u64 \<Rightarrow> tlb_op \<Rightarrow> tlb_phase \<Rightarrow> tlb_phase" where
  "stage1_tlb cfg p Dsb_ish ph = barrier ph"
| "stage1_tlb cfg p Tlbi_vmalle1is ph = (if cfg_vm cfg \<and> ph = Synced then Issued else ph)"
| "stage1_tlb cfg p Tlbi_alle2is ph = (if \<not> cfg_vm cfg \<and> ph = Synced then Issued else ph)"
| "stage1_tlb cfg p (Tlbi_vae1is q) ph = (if cfg_vm cfg \<and> q = p \<and> ph = Synced then Issued else ph)"
| "stage1_tlb cfg p (Tlbi_vae2is q) ph = (if \<not> cfg_vm cfg \<and> q = p \<and> ph = Synced then Issued else ph)"
| "stage1_tlb cfg p _ ph = ph"

definition stage1_removed :: "arch_cfg \<Rightarrow> u16 \<Rightarrow> u64 \<Rightarrow> tlb_op list \<Rightarrow> bool" where
  "stage1_removed cfg asid p ops \<longleftrightarrow>
     fold (stage1_tlb cfg (p OR push_bit 48 (ucast (asid AND 0xff)))) ops Unsynced = Removed"

lemma set_page_run: "set (page_run it fin) = {p. it \<le> p \<and> p < fin}"
proof (induction "unat fin - unat it" arbitrary: it rule: less_induct)
  case less
  show ?case
  proof (cases "it < fin")
    case True
    have u: "unat (it + 1) = unat it + 1" by (rule unat_succ_less [OF True])
    then have "unat fin - unat (it + 1) < unat fin - unat it" using True by (simp add: word_less_nat_alt)
    moreover have "it + 1 \<le> p \<longleftrightarrow> it \<le> p \<and> p \<noteq> it" for p
      unfolding word_le_nat_alt u by (auto simp: word_unat_eq_iff)
    ultimately show ?thesis using less True page_run_step [OF True] by auto
  qed (auto simp: page_run_done)
qed

lemma fold_ipas2:
  "fold (stage2_tlb p) (map Tlbi_ipas2e1is ps) (g, Synced) = (g, if p \<in> set ps then Ipa_issued else Synced)"
proof -
  have "fold (stage2_tlb p) (map Tlbi_ipas2e1is ps) (g, Ipa_issued) = (g, Ipa_issued)"
    by (induction ps) simp_all
  then show ?thesis by (induction ps) auto
qed

lemma stage1_tlb_va [simp]:
  "stage1_tlb cfg p (tlbi_va cfg q) ph = (if q = p \<and> ph = Synced then Issued else ph)"
  by (simp add: tlbi_va_def)

lemma fold_tlbi_va:
  "fold (stage1_tlb cfg p) (map (tlbi_va cfg) ps) Synced = (if p \<in> set ps then Issued else Synced)"
proof -
  have "fold (stage1_tlb cfg p) (map (tlbi_va cfg) ps) Issued = Issued"
    by (induction ps) simp_all
  then show ?thesis by (induction ps) auto
qed

lemma stage2_range_removes:
  "\<exists>ops. arch_mm_invalidate_stage2_range cfg vmid va_begin va_end = Some ops \<and>
     (\<forall>p. stage2_removed cfg p ops \<longleftrightarrow> va_end - va_begin > MAX_TLBI_OPS * PAGE_SIZE \<or>
        drop_bit 12 va_begin \<le> p \<and> p < drop_bit 12 va_end)"
  by (simp add: arch_mm_invalidate_stage2_range_def stage2_loop_pages arch_mm_sync_table_writes_def
      stage2_removed_def fold_ipas2 set_page_run)

lemma stage1_range_removes_asid0:
  assumes "asid AND 0xff = 0"
  shows "\<exists>ops. arch_mm_invalidate_stage1_range cfg asid va_begin va_end = Some ops \<and>
     (\<forall>p. stage1_removed cfg asid p ops \<longleftrightarrow> va_end - va_begin > MAX_TLBI_OPS * PAGE_SIZE \<or>
        drop_bit 12 va_begin \<le> p \<and> p < drop_bit 12 va_end)"
  using assms
  by (simp add: arch_mm_invalidate_stage1_range_def stage1_loop_pages_asid0 arch_mm_sync_table_writes_def
      stage1_removed_def fold_tlbi_va set_page_run)

text \<open>
  C18: Stage-2 invalidation returns, and it removes exactly what it is meant to. The sequence for a
  range of more than 512 pages removes the translations of every page of the current VMID. For any
  other range it removes those of page \<open>p\<close> exactly when \<open>p\<close> lies from the page of the beginning up to
  the page of the end, which is excluded: every page of a page-aligned range, and not the page that
  an unaligned end cuts. Removed means that a barrier precedes the invalidation, that a completed
  page invalidation is followed by a stage-1 flush in guest mode, that the sequence ends
  behind a barrier, and that host mode is restored under VHE.
\<close>

theorem invalidate_stage2_exact:
  "\<exists>ops. arch_mm_invalidate_stage2_range cfg vmid va_begin va_end = Some ops \<and>
     (\<forall>p. stage2_removed cfg p ops \<longleftrightarrow> va_end - va_begin > MAX_TLBI_OPS * PAGE_SIZE \<or>
        drop_bit 12 va_begin \<le> p \<and> p < drop_bit 12 va_end)"
  by (rule stage2_range_removes)

text \<open>
  C19: With a non-zero address space identifier only the first page of a range of at most 512
  pages below 2^48 is invalidated: the identifier is merged into the loop counter, which ends the loop.
\<close>

theorem invalidate_stage1_asid_first_page_only:
  assumes "asid AND 0xff \<noteq> 0"
    and "drop_bit 12 va_begin < drop_bit 12 va_end"
    and "\<not> va_end - va_begin > MAX_TLBI_OPS * PAGE_SIZE"
    and "unat va_end \<le> 2 ^ 48"
  shows "arch_mm_invalidate_stage1_range cfg asid va_begin va_end =
     Some [Dsb_ish, tlbi_va cfg (drop_bit 12 va_begin OR push_bit 48 (ucast (asid AND 0xff))),
       Dsb_ish, Isb]"
proof -
  have "unat va_end div 2 ^ 12 \<le> 2 ^ 48"
    using div_le_mono [OF assms(4), of "2 ^ 12"] by simp
  then have "unat (drop_bit 12 va_end) \<le> 2 ^ 48" by (simp only: unat_drop_bit_div)
  from stage1_loop_first_only [OF assms(1,2) this, of cfg] assms(3) show ?thesis
    by (simp add: arch_mm_invalidate_stage1_range_def arch_mm_sync_table_writes_def)
qed

theorem invalidate_stage1_asid_first_page_only_witness:
  "arch_mm_invalidate_stage1_range cfg_secure_vhe 1 0x1000 0x4000 =
     Some [Dsb_ish, Tlbi_vae2is 0x1000000000001, Dsb_ish, Isb]"
  using invalidate_stage1_asid_first_page_only [of 1 "0x1000" "0x4000" cfg_secure_vhe]
  by (simp add: cfg_secure_vhe_def MAX_TLBI_OPS_def PAGE_SIZE_def PAGE_BITS_def tlbi_va_def)
end
