(* ===== verification/Arch_Init.thy ===== *)
theory Arch_Init
  imports Arch_MM
begin

text \<open>
  Processor configuration: the register values computed by \<^verbatim>\<open>src/arch/aarch64/sysregs.c\<close>
  and the paging geometry and translation control registers chosen by \<open>arch_mm_init\<close> in
  \<^verbatim>\<open>src/arch/aarch64/mm.c\<close>. The feature registers the code reads are arguments.
\<close>

section \<open>System register values\<close>

definition HCR_EL2_TID5 :: u64 where "HCR_EL2_TID5 = push_bit 58 1"
definition HCR_EL2_ATA :: u64 where "HCR_EL2_ATA = push_bit 56 1"
definition HCR_EL2_API :: u64 where "HCR_EL2_API = push_bit 41 1"
definition HCR_EL2_APK :: u64 where "HCR_EL2_APK = push_bit 40 1"
definition HCR_EL2_E2H :: u64 where "HCR_EL2_E2H = push_bit 34 1"
definition HCR_EL2_RW :: u64 where "HCR_EL2_RW = push_bit 31 1"
definition HCR_EL2_TGE :: u64 where "HCR_EL2_TGE = push_bit 27 1"
definition HCR_EL2_TSW :: u64 where "HCR_EL2_TSW = push_bit 22 1"
definition HCR_EL2_TACR :: u64 where "HCR_EL2_TACR = push_bit 21 1"
definition HCR_EL2_TIDCP :: u64 where "HCR_EL2_TIDCP = push_bit 20 1"
definition HCR_EL2_TSC :: u64 where "HCR_EL2_TSC = push_bit 19 1"
definition HCR_EL2_TID3 :: u64 where "HCR_EL2_TID3 = push_bit 18 1"
definition HCR_EL2_TWE :: u64 where "HCR_EL2_TWE = push_bit 14 1"
definition HCR_EL2_TWI :: u64 where "HCR_EL2_TWI = push_bit 13 1"
definition HCR_EL2_BSU_INNER_SHAREABLE :: u64 where "HCR_EL2_BSU_INNER_SHAREABLE = push_bit 10 1"
definition HCR_EL2_FB :: u64 where "HCR_EL2_FB = push_bit 9 1"
definition HCR_EL2_AMO :: u64 where "HCR_EL2_AMO = push_bit 5 1"
definition HCR_EL2_IMO :: u64 where "HCR_EL2_IMO = push_bit 4 1"
definition HCR_EL2_FMO :: u64 where "HCR_EL2_FMO = push_bit 3 1"
definition HCR_EL2_PTW :: u64 where "HCR_EL2_PTW = push_bit 2 1"
definition HCR_EL2_VM :: u64 where "HCR_EL2_VM = push_bit 0 1"

lemmas hcr_consts = HCR_EL2_TID5_def HCR_EL2_ATA_def HCR_EL2_API_def HCR_EL2_APK_def HCR_EL2_E2H_def
  HCR_EL2_RW_def HCR_EL2_TGE_def HCR_EL2_TSW_def HCR_EL2_TACR_def HCR_EL2_TIDCP_def HCR_EL2_TSC_def
  HCR_EL2_TID3_def HCR_EL2_TWE_def HCR_EL2_TWI_def HCR_EL2_BSU_INNER_SHAREABLE_def HCR_EL2_FB_def
  HCR_EL2_AMO_def HCR_EL2_IMO_def HCR_EL2_FMO_def HCR_EL2_PTW_def HCR_EL2_VM_def

definition has_ras_support :: "u64 \<Rightarrow> bool" where
  "has_ras_support id_aa64pfr0 \<longleftrightarrow> id_aa64pfr0 AND push_bit 28 0xf \<noteq> 0"

definition HF_PRIMARY_VM_ID :: "bool \<Rightarrow> u16" where
  "HF_PRIMARY_VM_ID secure_world = (if secure_world then 0 else 1)"

definition get_hcr_el2_value :: "arch_cfg \<Rightarrow> u64 \<Rightarrow> u16 \<Rightarrow> bool \<Rightarrow> u64" where
  "get_hcr_el2_value cfg id_aa64pfr0 vm_id is_el0_partition =
     (let v = HCR_EL2_TID3 OR HCR_EL2_RW OR (HCR_EL2_TACR OR HCR_EL2_TIDCP) OR HCR_EL2_TSC OR HCR_EL2_PTW;
          v = (if cfg_mte cfg then (v OR HCR_EL2_ATA) AND NOT HCR_EL2_TID5 else v);
          v = v OR HCR_EL2_VM OR HCR_EL2_TSW OR (HCR_EL2_APK OR HCR_EL2_API);
          v = (if vm_id \<noteq> HF_PRIMARY_VM_ID (cfg_secure cfg)
               then v OR HCR_EL2_BSU_INNER_SHAREABLE OR HCR_EL2_FB OR
                 (if has_ras_support id_aa64pfr0 then 0 else HCR_EL2_AMO) OR
                 (HCR_EL2_IMO OR HCR_EL2_FMO) OR
                 (if cfg_secure cfg then 0 else HCR_EL2_TWE OR HCR_EL2_TWI)
               else v)
      in if cfg_vhe cfg
         then v OR HCR_EL2_E2H OR (if is_el0_partition then HCR_EL2_TGE else 0)
         else v)"

definition MDCR_EL2_HCCD :: u64 where "MDCR_EL2_HCCD = push_bit 23 1"
definition MDCR_EL2_HPMD :: u64 where "MDCR_EL2_HPMD = push_bit 17 1"
definition MDCR_EL2_HPMN :: u64 where "MDCR_EL2_HPMN = 0x1f"
definition GET_PMCR_EL0_N :: "u64 \<Rightarrow> u64" where "GET_PMCR_EL0_N pmcr = drop_bit 11 (0xf800 AND pmcr)"

definition get_mdcr_el2_value :: "u64 \<Rightarrow> u64 \<Rightarrow> u64" where
  "get_mdcr_el2_value mdcr pmcr_el0 =
     mdcr OR (MDCR_EL2_HCCD OR MDCR_EL2_HPMD) OR (GET_PMCR_EL0_N pmcr_el0 AND MDCR_EL2_HPMN)"

definition is_arch_feat_sve_supported :: "u64 \<Rightarrow> bool" where
  "is_arch_feat_sve_supported id_aa64pfr0 \<longleftrightarrow> drop_bit 32 id_aa64pfr0 AND 0xf = 1"

definition is_arch_feat_bti_supported :: "u64 \<Rightarrow> bool" where
  "is_arch_feat_bti_supported id_aa64pfr1 \<longleftrightarrow> id_aa64pfr1 AND 0xf = 1"

definition get_cptr_el2_value :: "arch_cfg \<Rightarrow> u64 \<Rightarrow> u64" where
  "get_cptr_el2_value cfg id_aa64pfr0 =
     (if cfg_vhe cfg
      then push_bit 20 3 OR push_bit 28 1 OR
        (if is_arch_feat_sve_supported id_aa64pfr0 then push_bit 16 3 else 0)
      else push_bit 20 1)"

definition get_sctlr_el2_value :: "arch_cfg \<Rightarrow> bool \<Rightarrow> u64" where
  "get_sctlr_el2_value cfg branch_protection =
     (let v = push_bit 21 1 OR push_bit 0 1 OR push_bit 1 1 OR push_bit 2 1 OR push_bit 3 1 OR
            push_bit 12 1 OR push_bit 19 1;
          v = (if cfg_mte cfg then v OR push_bit 43 1 OR push_bit 40 (3 AND 1) else v);
          v = (if branch_protection then (v OR push_bit 31 1) AND NOT (push_bit 36 1) else v)
      in v OR push_bit 4 3 OR push_bit 16 1 OR push_bit 18 1 OR push_bit 28 1 OR push_bit 11 1 OR
         push_bit 22 1)"

section \<open>Paging geometry\<close>

record arch_mm_config =
  ttbr0_el2 :: u64
  mair_el2 :: u64
  tcr_el2 :: u64
  sctlr_el2 :: u64
  hcr_el2 :: u64
  vtcr_el2 :: u64
  vstcr_el2 :: u64

record arch_mm_globals =
  mm_s1_max_level :: nat
  mm_s2_max_level :: nat
  mm_s2_root_table_count :: nat
  arch_mm_config :: arch_mm_config

definition pa_bits_table :: "nat list" where
  "pa_bits_table = [32, 36, 40, 42, 44, 48, 52, 0, 0, 0, 0, 0, 0, 0, 0, 0]"

definition arch_mm_get_pa_range :: "u64 \<Rightarrow> nat" where
  "arch_mm_get_pa_range features = pa_bits_table ! unat (features AND 0xf)"

definition arch_mm_stage1_max_level_set :: "nat \<Rightarrow> arch_mm_globals \<Rightarrow> arch_mm_globals outcome" where
  "arch_mm_stage1_max_level_set pa_bits g =
     check (pa_bits \<le> 48)
       (Ret (g\<lparr>mm_s1_max_level := (if pa_bits \<ge> 40 then 3 else 2)\<rparr>))"

definition arch_mm_stage1_max_level :: "arch_mm_globals \<Rightarrow> nat" where
  "arch_mm_stage1_max_level g = mm_s1_max_level g"

definition arch_mm_stage2_max_level :: "arch_mm_globals \<Rightarrow> nat" where
  "arch_mm_stage2_max_level g = mm_s2_max_level g"

definition arch_mm_stage1_root_table_count :: "arch_mm_globals \<Rightarrow> nat" where
  "arch_mm_stage1_root_table_count g = 1"

definition arch_mm_stage2_root_table_count :: "arch_mm_globals \<Rightarrow> nat" where
  "arch_mm_stage2_root_table_count g = mm_s2_root_table_count g"

definition arch_mm_extra_attributes_from_vm :: "u16 \<Rightarrow> u32" where
  "arch_mm_extra_attributes_from_vm vm_id = (if vm_id AND 0x8000 = 0 then MM_MODE_NS else 0)"

definition vtcr_value :: "u64 \<Rightarrow> u64 \<Rightarrow> nat \<Rightarrow> nat \<Rightarrow> u64" where
  "vtcr_value features pe_features sl0 pa_bits =
     push_bit 31 1 OR
     push_bit 29 (if drop_bit 36 pe_features AND 0xF = 1 then 2 else 0) OR
     push_bit 16 (features AND 0xf) OR push_bit 14 0 OR push_bit 12 3 OR push_bit 10 1 OR
     push_bit 8 1 OR push_bit 6 (of_nat sl0) OR of_nat (64 - pa_bits)"

definition vstcr_value :: "nat \<Rightarrow> nat \<Rightarrow> u64" where
  "vstcr_value sl0 pa_bits = push_bit 31 1 OR push_bit 6 (of_nat sl0) OR of_nat (64 - pa_bits)"

definition mair_value :: "arch_cfg \<Rightarrow> u64" where
  "mair_value cfg = push_bit (8 * unat STAGE1_DEVICEINDX) 0 OR
     (if cfg_mte cfg then push_bit (8 * unat STAGE1_STACKINDX) 0xf0 else 0) OR
     push_bit (8 * unat STAGE1_NORMALINDX) 0xff"

definition tcr_value :: "arch_cfg \<Rightarrow> u64 \<Rightarrow> nat \<Rightarrow> u64" where
  "tcr_value cfg features pa_bits =
     (if cfg_vhe cfg
      then push_bit 38 1 OR push_bit 37 1 OR push_bit 32 2 OR push_bit 30 2 OR push_bit 28 3 OR
        push_bit 26 1 OR push_bit 24 1 OR push_bit 23 1 OR push_bit 16 (of_nat (64 - pa_bits)) OR
        push_bit 12 3 OR push_bit 10 1 OR push_bit 8 1 OR of_nat (64 - pa_bits)
      else push_bit 20 1 OR push_bit 16 (features AND 0xf) OR push_bit 12 3 OR push_bit 10 1 OR
        push_bit 8 1 OR of_nat (64 - pa_bits))"

definition arch_mm_init ::
  "arch_cfg \<Rightarrow> bool \<Rightarrow> u64 \<Rightarrow> u64 \<Rightarrow> u64 \<Rightarrow> arch_mm_globals \<Rightarrow> (bool \<times> arch_mm_globals) outcome" where
  "arch_mm_init cfg branch_protection features pe_features table g =
     (let pa_bits = arch_mm_get_pa_range features
      in if drop_bit 28 features AND 0xf = 0xf then Ret (False, g)
         else if pa_bits = 0 then Ret (False, g)
         else let pa_bits = (if pa_bits = 52 then 48 else pa_bits);
                  (sl0, s2_max_level) = (if pa_bits \<ge> 44 then (2, 3)
                                         else if pa_bits \<ge> 35 then (1, 2) else (0, 1))
              in and_then (arch_mm_stage1_max_level_set pa_bits (g\<lparr>mm_s2_max_level := s2_max_level\<rparr>))
                (\<lambda>g. let extend_bits = (pa_bits - PAGE_BITS) mod PAGE_LEVEL_BITS;
                         extend_bits = (if extend_bits > 4 then 0 else extend_bits)
                     in Ret (True,
                       g\<lparr>mm_s2_root_table_count := 2 ^ extend_bits,
                         arch_mm_config :=
                           \<lparr>ttbr0_el2 = table, mair_el2 = mair_value cfg,
                            tcr_el2 = tcr_value cfg features pa_bits,
                            sctlr_el2 = get_sctlr_el2_value cfg branch_protection,
                            hcr_el2 = (if cfg_vhe cfg then HCR_EL2_E2H OR HCR_EL2_TGE else 0),
                            vtcr_el2 = vtcr_value features pe_features sl0 pa_bits,
                            vstcr_el2 = vstcr_value sl0 pa_bits\<rparr>\<rparr>)))"

definition arch_mm_get_vtcr_el2 :: "arch_mm_globals \<Rightarrow> u64" where
  "arch_mm_get_vtcr_el2 g = vtcr_el2 (arch_mm_config g)"

definition arch_mm_get_vstcr_el2 :: "arch_mm_globals \<Rightarrow> u64" where
  "arch_mm_get_vstcr_el2 g = vstcr_el2 (arch_mm_config g)"

section \<open>Properties\<close>

text \<open>The supported address sizes: the ones of the table, with 52 bits reduced to 48.\<close>

definition supported_bits :: "u64 \<Rightarrow> nat" where
  "supported_bits features = min 48 (arch_mm_get_pa_range features)"

lemma low_nibble: "unat ((w :: u64) AND 0xf) < 16"
proof -
  have "w AND 0xf = take_bit 4 w" by (simp add: take_bit_eq_mask mask_eq_exp_minus_1)
  then show ?thesis by (simp only: unsigned_take_bit_eq) (rule take_bit_nat_less_exp [of 4 "unat w", simplified])
qed

lemma pa_range_cases: "arch_mm_get_pa_range features \<in> {0, 32, 36, 40, 42, 44, 48, 52}"
proof -
  have "unat (features AND 0xf) \<in> set [0..<16]" using low_nibble [of features] by simp
  then show ?thesis unfolding arch_mm_get_pa_range_def
    by (simp add: upt_rec [of _ 16] upt_rec pa_bits_table_def) auto
qed

text \<open>
  C15: Initialisation never fails a run-time check. It reports failure exactly when the processor
  lacks 4KB granules or a known physical address size, leaving the globals alone. Otherwise the
  page table geometry it chooses covers the whole physical address space at both stages with at
  most four levels and at most sixteen concatenated root tables.
\<close>

theorem arch_mm_init_geometry:
  "\<exists>b g'. arch_mm_init cfg bp features pe_features table g = Ret (b, g') \<and>
     (b \<longleftrightarrow> drop_bit 28 features AND 0xf \<noteq> 0xf \<and> arch_mm_get_pa_range features \<noteq> 0) \<and>
     (if b then
        2 ^ supported_bits features \<le>
          arch_mm_stage2_root_table_count g' * 2 ^ (12 + 9 * (arch_mm_stage2_max_level g' + 1)) \<and>
        2 ^ supported_bits features \<le>
          arch_mm_stage1_root_table_count g' * 2 ^ (12 + 9 * (arch_mm_stage1_max_level g' + 1)) \<and>
        arch_mm_stage1_max_level g' \<le> 3 \<and> arch_mm_stage2_max_level g' \<le> 3 \<and>
        0 < arch_mm_stage2_root_table_count g' \<and> arch_mm_stage2_root_table_count g' \<le> 16 \<and>
        ttbr0_el2 (arch_mm_config g') = table
      else g' = g)"
  using pa_range_cases [of features]
  by (auto simp: arch_mm_init_def Let_def supported_bits_def arch_mm_stage1_max_level_set_def
      PAGE_BITS_def PAGE_LEVEL_BITS_def arch_mm_stage2_root_table_count_def
      arch_mm_stage1_root_table_count_def arch_mm_stage1_max_level_def arch_mm_stage2_max_level_def)


end
