(* ===== verification/MM.thy ===== *)
theory MM
  imports Mpool Arch_Init
begin

text \<open>
  The architecture-independent page table code of \<^verbatim>\<open>src/mm.c\<close>.

  Page table memory is an explicit store: \<open>mem t i\<close> is entry \<open>i\<close> of the page table at address
  \<open>t\<close>, and a pointer to an entry is the pair of the table and the index. The store is total;
  memory that belongs to the pool is not read, since a table is initialised when it is
  allocated. \<open>pool\<close> is the page pool passed to the operations. \<open>trace\<close> records the writes to
  live entries and the TLB maintenance in program order.

  What the code reads from elsewhere and does not change while tables are edited is the record
  \<open>mm_env\<close>: the processor configuration, the paging geometry set by \<open>arch_mm_init\<close>, and the
  flag \<open>mm_stage2_invalidate\<close>.

  Loops over the entries of a table are recursions on the list of remaining indices; running
  off the end of a table is \<open>Undef\<close>, as is descending below level 0. The logging calls are
  left out.
\<close>

section \<open>State\<close>

definition MM_FLAG_COMMIT :: u32 where "MM_FLAG_COMMIT = 1"
definition MM_FLAG_UNMAP :: u32 where "MM_FLAG_UNMAP = 2"
definition MM_FLAG_STAGE1 :: u32 where "MM_FLAG_STAGE1 = 4"

type_synonym table_mem = "u64 \<Rightarrow> nat \<Rightarrow> u64"

datatype mm_event =
    Pte_write u64 nat u64
  | Table_init u64 "nat \<Rightarrow> u64"
  | Tlb_range u64 u64 "tlb_op list"
  | Sync_writes

record mm_state =
  mem :: table_mem
  pool :: mpool
  trace :: "mm_event list"

record mm_env =
  env_cfg :: arch_cfg
  env_geom :: arch_mm_globals
  mm_stage2_invalidate :: bool

record mm_ptable =
  ptable_id :: u16
  ptable_root :: u64

definition log_event :: "mm_event \<Rightarrow> mm_state \<Rightarrow> mm_state" where
  "log_event e s = s\<lparr>trace := trace s @ [e]\<rparr>"

definition set_pte :: "u64 \<Rightarrow> nat \<Rightarrow> u64 \<Rightarrow> mm_state \<Rightarrow> mm_state" where
  "set_pte t i v s = log_event (Pte_write t i v) (s\<lparr>mem := (mem s)(t := (mem s t)(i := v))\<rparr>)"

definition init_table :: "u64 \<Rightarrow> (nat \<Rightarrow> u64) \<Rightarrow> mm_state \<Rightarrow> mm_state" where
  "init_table t f s = log_event (Table_init t f) (s\<lparr>mem := (mem s)(t := f)\<rparr>)"

section \<open>Address arithmetic\<close>

definition mm_vm_enable_invalidation :: "mm_env \<Rightarrow> mm_env" where
  "mm_vm_enable_invalidation env = env\<lparr>mm_stage2_invalidate := True\<rparr>"

definition mm_page_table_from_pa :: "u64 \<Rightarrow> u64" where
  "mm_page_table_from_pa pa = pa"

definition mm_round_down_to_page :: "u64 \<Rightarrow> u64" where
  "mm_round_down_to_page addr = addr AND NOT (PAGE_SIZE - 1)"

definition mm_round_up_to_page :: "u64 \<Rightarrow> u64" where
  "mm_round_up_to_page addr = mm_round_down_to_page (addr + PAGE_SIZE - 1)"

definition mm_entry_size :: "nat \<Rightarrow> u64" where
  "mm_entry_size level = push_bit (PAGE_BITS + level * PAGE_LEVEL_BITS) 1"

definition mm_start_of_next_block :: "u64 \<Rightarrow> u64 \<Rightarrow> u64" where
  "mm_start_of_next_block addr block_size = (addr + block_size) AND NOT (block_size - 1)"

definition mm_pa_start_of_next_block :: "u64 \<Rightarrow> u64 \<Rightarrow> u64" where
  "mm_pa_start_of_next_block pa block_size = (pa + block_size) AND NOT (block_size - 1)"

definition mm_level_end :: "u64 \<Rightarrow> nat \<Rightarrow> u64" where
  "mm_level_end addr level =
     (let offset = PAGE_BITS + (level + 1) * PAGE_LEVEL_BITS
      in push_bit offset (drop_bit offset addr + 1))"

definition mm_index :: "u64 \<Rightarrow> nat \<Rightarrow> nat" where
  "mm_index addr level =
     unat (drop_bit (PAGE_BITS + level * PAGE_LEVEL_BITS) addr AND (push_bit PAGE_LEVEL_BITS 1 - 1))"

definition mm_max_level :: "mm_env \<Rightarrow> u32 \<Rightarrow> nat" where
  "mm_max_level env flags =
     (if has flags MM_FLAG_STAGE1 then arch_mm_stage1_max_level (env_geom env)
      else arch_mm_stage2_max_level (env_geom env))"

definition mm_root_table_count :: "mm_env \<Rightarrow> u32 \<Rightarrow> nat" where
  "mm_root_table_count env flags =
     (if has flags MM_FLAG_STAGE1 then arch_mm_stage1_root_table_count (env_geom env)
      else arch_mm_stage2_root_table_count (env_geom env))"

definition mm_ptable_addr_space_end :: "mm_env \<Rightarrow> u32 \<Rightarrow> u64" where
  "mm_ptable_addr_space_end env flags =
     of_nat (mm_root_table_count env flags) * mm_entry_size (mm_max_level env flags + 1)"

section \<open>Tables and entries\<close>

definition mm_alloc_page_tables :: "nat \<Rightarrow> mpool \<Rightarrow> mpool \<times> u64 option" where
  "mm_alloc_page_tables cnt ppool =
     (if cnt = 1 then mpool_alloc ppool else mpool_alloc_contiguous ppool (of_nat cnt) (of_nat cnt))"

definition mm_invalidate_tlb ::
  "mm_env \<Rightarrow> u64 \<Rightarrow> u64 \<Rightarrow> u32 \<Rightarrow> u16 \<Rightarrow> mm_state \<Rightarrow> mm_state outcome" where
  "mm_invalidate_tlb env begin fin flags vid s =
     (case (if has flags MM_FLAG_STAGE1 then arch_mm_invalidate_stage1_range (env_cfg env) vid begin fin
            else arch_mm_invalidate_stage2_range (env_cfg env) vid begin fin) of
        None \<Rightarrow> Undef
      | Some ops \<Rightarrow> Ret (log_event (Tlb_range begin fin ops) s))"

text \<open>No entry is a table at level 0, so nothing is freed there.\<close>

primrec mm_free_page_pte :: "nat \<Rightarrow> u64 \<Rightarrow> table_mem \<Rightarrow> mpool \<Rightarrow> mpool" where
  "mm_free_page_pte 0 pte m ppool = ppool"
| "mm_free_page_pte (Suc l) pte m ppool =
     (if \<not> arch_mm_pte_is_table pte (Suc l) then ppool
      else let table = mm_page_table_from_pa (arch_mm_table_from_pte pte (Suc l))
           in mpool_free
                (fold (\<lambda>i p. mm_free_page_pte l (m table i) m p) [0..<MM_PTE_PER_PAGE] ppool) table)"

definition mm_replace_entry ::
  "mm_env \<Rightarrow> u64 \<Rightarrow> u64 \<times> nat \<Rightarrow> u64 \<Rightarrow> nat \<Rightarrow> u32 \<Rightarrow> u16 \<Rightarrow> mm_state \<Rightarrow> mm_state outcome" where
  "mm_replace_entry env begin pte new_pte level flags vid s =
     (let (t, i) = pte; v = mem s t i
      in and_then
           (if (has flags MM_FLAG_STAGE1 \<or> mm_stage2_invalidate env) \<and> arch_mm_pte_is_valid v level
            then mm_invalidate_tlb env begin (begin + mm_entry_size level) flags vid
                   (set_pte t i (arch_mm_absent_pte level) s)
            else Ret s)
           (\<lambda>s. let s = set_pte t i new_pte s
                in Ret (s\<lparr>pool := mm_free_page_pte level v (mem s) (pool s)\<rparr>)))"

text \<open>The loop that fills a new table: entry \<open>i\<close> and the \<open>n\<close> entries from there on.\<close>

fun fill_entries :: "nat \<Rightarrow> nat \<Rightarrow> u64 \<Rightarrow> u64 \<Rightarrow> (nat \<Rightarrow> u64) \<Rightarrow> nat \<Rightarrow> u64" where
  "fill_entries i 0 new_pte inc f = f"
| "fill_entries i (Suc n) new_pte inc f = fill_entries (i + 1) n (new_pte + inc) inc (f(i := new_pte))"

text \<open>\<open>None\<close> is the null pointer returned when no table could be allocated.\<close>

definition mm_populate_table_pte ::
  "mm_env \<Rightarrow> u64 \<Rightarrow> u64 \<times> nat \<Rightarrow> nat \<Rightarrow> u32 \<Rightarrow> u16 \<Rightarrow> mm_state \<Rightarrow> (u64 option \<times> mm_state) outcome" where
  "mm_populate_table_pte env begin pte level flags vid s =
     (let (t, i) = pte; v = mem s t i; level_below = level - 1
      in if arch_mm_pte_is_table v level
         then Ret (Some (mm_page_table_from_pa (arch_mm_table_from_pte v level)), s)
         else case mm_alloc_page_tables 1 (pool s) of
             (ppool, None) \<Rightarrow> Ret (None, s\<lparr>pool := ppool\<rparr>)
           | (ppool, Some ntable) \<Rightarrow>
               let (inc, new_pte) =
                     (if arch_mm_pte_is_block v level
                      then (mm_entry_size level_below,
                            arch_mm_block_pte level_below (arch_mm_block_from_pte v level)
                              (arch_mm_pte_attrs v level))
                      else (0, arch_mm_absent_pte level_below));
                   s = s\<lparr>pool := ppool\<rparr>;
                   s = init_table ntable (fill_entries 0 MM_PTE_PER_PAGE new_pte inc (mem s ntable)) s
               in and_then (mm_replace_entry env begin pte (arch_mm_table_pte level ntable) level flags vid s)
                    (\<lambda>s. Ret (Some ntable, s)))"

section \<open>Mapping\<close>

type_synonym map_call = "u64 \<Rightarrow> u64 \<Rightarrow> u64 \<Rightarrow> u64 \<Rightarrow> mm_state \<Rightarrow> (bool \<times> mm_state) outcome"

text \<open>
  The body of the loop of \<open>mm_map_level\<close> for one entry. \<open>below\<close> is the recursive call one level
  down, with the arguments that change: begin, end, physical address and table.
\<close>

definition map_entry ::
  "map_call \<Rightarrow> mm_env \<Rightarrow> u64 \<Rightarrow> nat \<Rightarrow> u32 \<Rightarrow> u16 \<Rightarrow> u64 \<Rightarrow> nat \<Rightarrow> u64 \<Rightarrow> u64 \<Rightarrow> u64 \<Rightarrow>
    mm_state \<Rightarrow> (bool \<times> mm_state) outcome" where
  "map_entry below env attrs level flags vid table i begin fin pa s =
     (let pte = mem s table i;
          commit = has flags MM_FLAG_COMMIT;
          unmap = has flags MM_FLAG_UNMAP;
          entry_size = mm_entry_size level
      in if (if unmap then \<not> arch_mm_pte_is_present pte level
             else arch_mm_pte_is_block pte level \<and> arch_mm_pte_attrs pte level = attrs)
         then Ret (True, s)
         else if fin - begin \<ge> entry_size \<and> (unmap \<or> arch_mm_is_block_allowed level) \<and>
             begin AND (entry_size - 1) = 0
         then (if commit
               then and_then
                 (mm_replace_entry env begin (table, i)
                   (if unmap then arch_mm_absent_pte level else arch_mm_block_pte level pa attrs)
                   level flags vid s)
                 (\<lambda>s. Ret (True, s))
               else Ret (True, s))
         else if level = 0 then Undef
         else and_then (mm_populate_table_pte env begin (table, i) level flags vid s)
           (\<lambda>(nt, s). case nt of
                None \<Rightarrow> Ret (False, s)
              | Some nt \<Rightarrow> below begin fin pa nt s))"

fun map_loop ::
  "map_call \<Rightarrow> mm_env \<Rightarrow> u64 \<Rightarrow> nat \<Rightarrow> u32 \<Rightarrow> u16 \<Rightarrow> u64 \<Rightarrow> nat list \<Rightarrow> u64 \<Rightarrow> u64 \<Rightarrow> u64 \<Rightarrow>
    mm_state \<Rightarrow> (bool \<times> mm_state) outcome" where
  "map_loop below env attrs level flags vid table [] begin fin pa s =
     (if begin < fin then Undef else Ret (True, s))"
| "map_loop below env attrs level flags vid table (i # is) begin fin pa s =
     (if begin < fin
      then and_then (map_entry below env attrs level flags vid table i begin fin pa s)
        (\<lambda>(ok, s). if \<not> ok then Ret (False, s)
          else map_loop below env attrs level flags vid table is
                 (mm_start_of_next_block begin (mm_entry_size level)) fin
                 (mm_pa_start_of_next_block pa (mm_entry_size level)) s)
      else Ret (True, s))"

primrec mm_map_level ::
  "nat \<Rightarrow> mm_env \<Rightarrow> u64 \<Rightarrow> u32 \<Rightarrow> u16 \<Rightarrow> map_call" where
  "mm_map_level 0 env attrs flags vid begin fin pa table s =
     map_loop (\<lambda>_ _ _ _ _. Undef) env attrs 0 flags vid table
       [mm_index begin 0..<MM_PTE_PER_PAGE] begin (min fin (mm_level_end begin 0)) pa s"
| "mm_map_level (Suc l) env attrs flags vid begin fin pa table s =
     map_loop (mm_map_level l env attrs flags vid) env attrs (Suc l) flags vid table
       [mm_index begin (Suc l)..<MM_PTE_PER_PAGE] begin (min fin (mm_level_end begin (Suc l))) pa s"

text \<open>\<open>mm_map_level_one_page\<close> has the same shape, with a single entry at each level.\<close>

definition map_one_page_entry ::
  "(u64 \<Rightarrow> mm_state \<Rightarrow> (bool \<times> mm_state) outcome) \<Rightarrow> mm_env \<Rightarrow> u64 \<Rightarrow> nat \<Rightarrow> u32 \<Rightarrow> u16 \<Rightarrow> u64 \<Rightarrow>
    u64 \<Rightarrow> u64 \<Rightarrow> mm_state \<Rightarrow> (bool \<times> mm_state) outcome" where
  "map_one_page_entry below env attrs level flags vid va pa table s =
     (let i = mm_index va level;
          pte = mem s table i;
          entry_size = mm_entry_size level;
          commit = has flags MM_FLAG_COMMIT;
          unmap = has flags MM_FLAG_UNMAP
      in check (va + PAGE_SIZE \<le> mm_level_end va level)
        (if (if unmap then \<not> arch_mm_pte_is_present pte level
             else arch_mm_pte_is_block pte level \<and> pte = arch_mm_block_pte level pa attrs)
         then Ret (True, s)
         else if PAGE_SIZE \<ge> entry_size \<and> (unmap \<or> arch_mm_is_block_allowed level) \<and>
             va AND (entry_size - 1) = 0
         then (if commit
               then and_then
                 (mm_replace_entry env va (table, i)
                   (if unmap then arch_mm_absent_pte level else arch_mm_block_pte level pa attrs)
                   level flags vid s)
                 (\<lambda>s. Ret (True, s))
               else Ret (True, s))
         else if level = 0 then Undef
         else and_then (mm_populate_table_pte env va (table, i) level flags vid s)
           (\<lambda>(nt, s). case nt of
                None \<Rightarrow> Ret (False, s)
              | Some nt \<Rightarrow> below nt s)))"

primrec mm_map_level_one_page ::
  "nat \<Rightarrow> mm_env \<Rightarrow> u64 \<Rightarrow> u32 \<Rightarrow> u16 \<Rightarrow> u64 \<Rightarrow> u64 \<Rightarrow> u64 \<Rightarrow> mm_state \<Rightarrow> (bool \<times> mm_state) outcome" where
  "mm_map_level_one_page 0 env attrs flags vid va pa table s =
     map_one_page_entry (\<lambda>_ _. Undef) env attrs 0 flags vid va pa table s"
| "mm_map_level_one_page (Suc l) env attrs flags vid va pa table s =
     map_one_page_entry (mm_map_level_one_page l env attrs flags vid va pa) env attrs (Suc l) flags vid
       va pa table s"

text \<open>The root tables are consecutive pages; \<open>root_table t k\<close> is the address of number \<open>k\<close>.\<close>

definition root_table :: "mm_ptable \<Rightarrow> nat \<Rightarrow> u64" where
  "root_table t k = mm_page_table_from_pa (ptable_root t) + of_nat k * PAGE_SIZE"

fun map_root_loop ::
  "mm_env \<Rightarrow> mm_ptable \<Rightarrow> u64 \<Rightarrow> nat \<Rightarrow> u32 \<Rightarrow> nat list \<Rightarrow> u64 \<Rightarrow> u64 \<Rightarrow> mm_state \<Rightarrow>
    (bool \<times> mm_state) outcome" where
  "map_root_loop env t attrs root_level flags [] begin fin s =
     (if begin < fin then Undef else Ret (True, s))"
| "map_root_loop env t attrs root_level flags (k # ks) begin fin s =
     (if begin < fin
      then and_then
        (mm_map_level (root_level - 1) env attrs flags (ptable_id t) begin fin begin (root_table t k) s)
        (\<lambda>(ok, s). if \<not> ok then Ret (False, s)
          else map_root_loop env t attrs root_level flags ks
                 (mm_start_of_next_block begin (mm_entry_size root_level)) fin s)
      else Ret (True, s))"

definition mm_map_root ::
  "mm_env \<Rightarrow> mm_ptable \<Rightarrow> u64 \<Rightarrow> u64 \<Rightarrow> u64 \<Rightarrow> nat \<Rightarrow> u32 \<Rightarrow> mm_state \<Rightarrow> (bool \<times> mm_state) outcome" where
  "mm_map_root env t begin fin attrs root_level flags s =
     map_root_loop env t attrs root_level flags
       [mm_index begin root_level..<mm_root_table_count env flags] begin fin s"

definition mm_map_root_one_page ::
  "mm_env \<Rightarrow> mm_ptable \<Rightarrow> u64 \<Rightarrow> u64 \<Rightarrow> u64 \<Rightarrow> nat \<Rightarrow> u32 \<Rightarrow> mm_state \<Rightarrow> (bool \<times> mm_state) outcome" where
  "mm_map_root_one_page env t va pa attrs root_level flags s =
     (if mm_index va root_level < mm_root_table_count env flags
      then mm_map_level_one_page (root_level - 1) env attrs flags (ptable_id t) va pa
             (root_table t (mm_index va root_level)) s
      else Undef)"

definition mm_ptable_identity_map ::
  "mm_env \<Rightarrow> mm_ptable \<Rightarrow> u64 \<Rightarrow> u64 \<Rightarrow> u64 \<Rightarrow> u32 \<Rightarrow> mm_state \<Rightarrow> (bool \<times> mm_state) outcome" where
  "mm_ptable_identity_map env t pa_begin pa_end attrs flags s =
     (let root_level = mm_max_level env flags + 1;
          ptable_end = mm_ptable_addr_space_end env flags;
          fin = mm_round_up_to_page pa_end;
          begin = arch_mm_clear_pa pa_begin
      in check (root_level \<ge> 2)
        (and_then (mm_map_root env t begin (if fin > ptable_end then ptable_end else fin) attrs root_level flags s)
          (\<lambda>(ok, s). if \<not> ok then Ret (False, s) else Ret (True, log_event Sync_writes s))))"

definition mm_ptable_map_one_page ::
  "mm_env \<Rightarrow> mm_ptable \<Rightarrow> u64 \<Rightarrow> u64 \<Rightarrow> u64 \<Rightarrow> u32 \<Rightarrow> mm_state \<Rightarrow> (bool \<times> mm_state) outcome" where
  "mm_ptable_map_one_page env t va pa attrs flags s =
     (let root_level = mm_max_level env flags + 1;
          ptable_end = mm_ptable_addr_space_end env flags;
          va_begin = arch_mm_clear_pa va;
          pa_begin = arch_mm_clear_pa pa
      in check (root_level \<ge> 2)
        (if va_begin + PAGE_SIZE > ptable_end then Ret (False, s)
         else and_then (mm_map_root_one_page env t va_begin pa_begin attrs root_level flags s)
           (\<lambda>(ok, s). if \<not> ok then Ret (False, s) else Ret (True, log_event Sync_writes s))))"

definition mm_ptable_identity_prepare ::
  "mm_env \<Rightarrow> mm_ptable \<Rightarrow> u64 \<Rightarrow> u64 \<Rightarrow> u64 \<Rightarrow> u32 \<Rightarrow> mm_state \<Rightarrow> (bool \<times> mm_state) outcome" where
  "mm_ptable_identity_prepare env t pa_begin pa_end attrs flags s =
     mm_ptable_identity_map env t pa_begin pa_end attrs (flags AND NOT MM_FLAG_COMMIT) s"

definition mm_ptable_identity_commit ::
  "mm_env \<Rightarrow> mm_ptable \<Rightarrow> u64 \<Rightarrow> u64 \<Rightarrow> u64 \<Rightarrow> u32 \<Rightarrow> mm_state \<Rightarrow> mm_state outcome" where
  "mm_ptable_identity_commit env t pa_begin pa_end attrs flags s =
     and_then (mm_ptable_identity_map env t pa_begin pa_end attrs (flags OR MM_FLAG_COMMIT) s)
       (\<lambda>(ok, s). check ok (Ret s))"

definition mm_ptable_identity_update ::
  "mm_env \<Rightarrow> mm_ptable \<Rightarrow> u64 \<Rightarrow> u64 \<Rightarrow> u64 \<Rightarrow> u32 \<Rightarrow> mm_state \<Rightarrow> (bool \<times> mm_state) outcome" where
  "mm_ptable_identity_update env t pa_begin pa_end attrs flags s =
     and_then (mm_ptable_identity_prepare env t pa_begin pa_end attrs flags s)
       (\<lambda>(ok, s). if \<not> ok then Ret (False, s)
         else and_then (mm_ptable_identity_commit env t pa_begin pa_end attrs flags s)
           (\<lambda>s. Ret (True, s)))"

section \<open>Creating and destroying tables\<close>

definition init_root_tables :: "u64 \<Rightarrow> nat \<Rightarrow> nat \<Rightarrow> mm_state \<Rightarrow> mm_state" where
  "init_root_tables tables cnt level s =
     fold (\<lambda>k s. let t = tables + of_nat k * PAGE_SIZE
        in init_table t (fill_entries 0 MM_PTE_PER_PAGE (arch_mm_absent_pte level) 0 (mem s t)) s)
       [0..<cnt] s"

text \<open>\<open>None\<close> is the result false; the page table object is returned otherwise.\<close>

definition mm_ptable_init :: "mm_env \<Rightarrow> u16 \<Rightarrow> u32 \<Rightarrow> mm_state \<Rightarrow> mm_ptable option \<times> mm_state" where
  "mm_ptable_init env vid flags s =
     (let root_table_count = mm_root_table_count env flags
      in case mm_alloc_page_tables root_table_count (pool s) of
           (ppool, None) \<Rightarrow> (None, s\<lparr>pool := ppool\<rparr>)
         | (ppool, Some tables) \<Rightarrow>
             (Some \<lparr>ptable_id = vid, ptable_root = tables\<rparr>,
              init_root_tables tables root_table_count (mm_max_level env flags) (s\<lparr>pool := ppool\<rparr>)))"

definition mm_ptable_fini :: "mm_env \<Rightarrow> mm_ptable \<Rightarrow> u32 \<Rightarrow> mm_state \<Rightarrow> mm_state" where
  "mm_ptable_fini env t flags s =
     (let level = mm_max_level env flags;
          root_table_count = mm_root_table_count env flags;
          p = fold (\<lambda>k p. fold (\<lambda>j p. mm_free_page_pte level (mem s (root_table t k) j) (mem s) p)
                  [0..<MM_PTE_PER_PAGE] p) [0..<root_table_count] (pool s)
      in s\<lparr>pool := fst (mpool_add_chunk p (mm_page_table_from_pa (ptable_root t))
                      (PAGE_SIZE * of_nat root_table_count))\<rparr>)"

section \<open>Defragmentation\<close>

definition mm_merge_table_pte :: "mm_env \<Rightarrow> u64 \<Rightarrow> nat \<Rightarrow> table_mem \<Rightarrow> u64" where
  "mm_merge_table_pte env table_pte level m =
     (let table = mm_page_table_from_pa (arch_mm_table_from_pte table_pte level);
          first = m table 0
      in if \<not> arch_mm_pte_is_present first (level - 1) then arch_mm_absent_pte level
         else if \<not> arch_mm_is_block_allowed level then table_pte
         else let block_attrs = arch_mm_pte_attrs first (level - 1);
                  table_attrs = arch_mm_pte_attrs table_pte level;
                  combined_attrs = arch_mm_combine_table_entry_attrs (env_cfg env) table_attrs block_attrs;
                  block_address = arch_mm_block_from_pte first (level - 1)
              in arch_mm_block_pte level block_address combined_attrs)"

text \<open>
  The loop over the entries of a table after the first: each is defragmented by \<open>below\<close> and
  compared with the base entry; the result says whether all of them can be merged.
\<close>

fun defrag_loop ::
  "(u64 \<Rightarrow> u64 \<times> nat \<Rightarrow> mm_state \<Rightarrow> mm_state outcome) \<Rightarrow> nat \<Rightarrow> u64 \<Rightarrow> u64 \<Rightarrow> bool \<Rightarrow> u64 \<Rightarrow>
    nat list \<Rightarrow> bool \<Rightarrow> mm_state \<Rightarrow> (bool \<times> mm_state) outcome" where
  "defrag_loop below l table base_addr base_present base_attrs [] mergeable s = Ret (mergeable, s)"
| "defrag_loop below l table base_addr base_present base_attrs (i # is) mergeable s =
     and_then (below (base_addr + of_nat i * mm_entry_size l) (table, i) s)
       (\<lambda>s. let entry = mem s table i;
                present = arch_mm_pte_is_present entry l;
                mergeable' = (if present \<noteq> base_present then False
                              else if \<not> present then mergeable
                              else if \<not> arch_mm_pte_is_block entry l then False
                              else if arch_mm_pte_attrs entry l \<noteq> base_attrs then False
                              else mergeable)
            in defrag_loop below l table base_addr base_present base_attrs is mergeable' s)"

text \<open>No entry is a table at level 0, so the function returns there without doing anything.\<close>

primrec mm_ptable_defrag_entry ::
  "nat \<Rightarrow> mm_env \<Rightarrow> u32 \<Rightarrow> u16 \<Rightarrow> u64 \<Rightarrow> u64 \<times> nat \<Rightarrow> mm_state \<Rightarrow> mm_state outcome" where
  "mm_ptable_defrag_entry 0 env flags vid base_addr entry s = Ret s"
| "mm_ptable_defrag_entry (Suc l) env flags vid base_addr entry s =
     (let v = mem s (fst entry) (snd entry)
      in if \<not> arch_mm_pte_is_table v (Suc l) then Ret s
         else let table = mm_page_table_from_pa (arch_mm_table_from_pte v (Suc l))
           in and_then (mm_ptable_defrag_entry l env flags vid base_addr (table, 0) s)
             (\<lambda>s. let base_present = arch_mm_pte_is_present (mem s table 0) l;
                      base_attrs = arch_mm_pte_attrs (mem s table 0) l
                  in and_then
                    (defrag_loop (mm_ptable_defrag_entry l env flags vid) l table base_addr
                      base_present base_attrs [1..<MM_PTE_PER_PAGE] True s)
                    (\<lambda>(mergeable, s).
                       if \<not> mergeable then Ret s
                       else let v = mem s (fst entry) (snd entry);
                                new_entry = mm_merge_table_pte env v (Suc l) (mem s)
                            in if v \<noteq> new_entry
                               then mm_replace_entry env base_addr entry new_entry (Suc l) flags vid s
                               else Ret s)))"

fun defrag_root_loop ::
  "mm_env \<Rightarrow> mm_ptable \<Rightarrow> nat \<Rightarrow> u32 \<Rightarrow> (nat \<times> nat) list \<Rightarrow> u64 \<Rightarrow> mm_state \<Rightarrow> mm_state outcome" where
  "defrag_root_loop env t level flags [] block_addr s = Ret s"
| "defrag_root_loop env t level flags ((k, j) # slots) block_addr s =
     and_then (mm_ptable_defrag_entry level env flags (ptable_id t) block_addr (root_table t k, j) s)
       (\<lambda>s. defrag_root_loop env t level flags slots
          (mm_start_of_next_block block_addr (mm_entry_size level)) s)"

definition mm_ptable_defrag :: "mm_env \<Rightarrow> mm_ptable \<Rightarrow> u32 \<Rightarrow> mm_state \<Rightarrow> mm_state outcome" where
  "mm_ptable_defrag env t flags s =
     and_then
       (defrag_root_loop env t (mm_max_level env flags) flags
         (List.product [0..<mm_root_table_count env flags] [0..<MM_PTE_PER_PAGE]) 0 s)
       (\<lambda>s. Ret (log_event Sync_writes s))"

section \<open>Reading attributes\<close>

text \<open>
  \<open>attrs\<close> is the out parameter: its value on entry is an argument and its final value is
  returned with the result.
\<close>

fun get_attrs_loop ::
  "(u64 \<Rightarrow> u64 \<Rightarrow> u64 \<Rightarrow> bool \<Rightarrow> u64 \<Rightarrow> (bool \<times> u64) outcome) \<Rightarrow> table_mem \<Rightarrow> nat \<Rightarrow> u64 \<Rightarrow>
    nat list \<Rightarrow> u64 \<Rightarrow> u64 \<Rightarrow> bool \<Rightarrow> u64 \<Rightarrow> (bool \<times> u64) outcome" where
  "get_attrs_loop below m level table [] begin fin got_attrs attrs =
     (if begin < fin then Undef else Ret (got_attrs, attrs))"
| "get_attrs_loop below m level table (i # is) begin fin got_attrs attrs =
     (if begin < fin
      then let pte = m table i;
               next_begin = mm_start_of_next_block begin (mm_entry_size level)
           in if arch_mm_pte_is_table pte level
              then and_then
                (below (mm_page_table_from_pa (arch_mm_table_from_pte pte level)) begin fin got_attrs attrs)
                (\<lambda>(ok, attrs). if \<not> ok then Ret (False, attrs)
                  else get_attrs_loop below m level table is next_begin fin True attrs)
              else if \<not> got_attrs
              then get_attrs_loop below m level table is next_begin fin True (arch_mm_pte_attrs pte level)
              else if arch_mm_pte_attrs pte level \<noteq> attrs then Ret (False, attrs)
              else get_attrs_loop below m level table is next_begin fin got_attrs attrs
      else Ret (got_attrs, attrs))"

primrec mm_ptable_get_attrs_level ::
  "nat \<Rightarrow> table_mem \<Rightarrow> u64 \<Rightarrow> u64 \<Rightarrow> u64 \<Rightarrow> bool \<Rightarrow> u64 \<Rightarrow> (bool \<times> u64) outcome" where
  "mm_ptable_get_attrs_level 0 m table begin fin got_attrs attrs =
     get_attrs_loop (\<lambda>_ _ _ _ _. Undef) m 0 table [mm_index begin 0..<MM_PTE_PER_PAGE]
       begin (min fin (mm_level_end begin 0)) got_attrs attrs"
| "mm_ptable_get_attrs_level (Suc l) m table begin fin got_attrs attrs =
     get_attrs_loop (mm_ptable_get_attrs_level l m) m (Suc l) table
       [mm_index begin (Suc l)..<MM_PTE_PER_PAGE]
       begin (min fin (mm_level_end begin (Suc l))) got_attrs attrs"

fun get_attrs_root_loop ::
  "table_mem \<Rightarrow> mm_ptable \<Rightarrow> nat \<Rightarrow> nat list \<Rightarrow> u64 \<Rightarrow> u64 \<Rightarrow> bool \<Rightarrow> u64 \<Rightarrow> (bool \<times> u64) outcome" where
  "get_attrs_root_loop m t max_level [] begin fin got_attrs attrs =
     (if begin < fin then Undef else Ret (got_attrs, attrs))"
| "get_attrs_root_loop m t max_level (k # ks) begin fin got_attrs attrs =
     (if begin < fin
      then and_then (mm_ptable_get_attrs_level max_level m (root_table t k) begin fin got_attrs attrs)
        (\<lambda>(ok, attrs). if \<not> ok then Ret (False, attrs)
          else get_attrs_root_loop m t max_level ks
                 (mm_start_of_next_block begin (mm_entry_size (max_level + 1))) fin True attrs)
      else Ret (got_attrs, attrs))"

definition mm_get_attrs ::
  "mm_env \<Rightarrow> mm_ptable \<Rightarrow> u64 \<Rightarrow> u64 \<Rightarrow> u64 \<Rightarrow> u32 \<Rightarrow> mm_state \<Rightarrow> (bool \<times> u64) outcome" where
  "mm_get_attrs env t begin fin attrs flags s =
     (let max_level = mm_max_level env flags;
          root_level = max_level + 1;
          ptable_end = of_nat (mm_root_table_count env flags) * mm_entry_size root_level;
          begin = mm_round_down_to_page begin;
          fin = mm_round_up_to_page fin
      in if fin > ptable_end then Ret (False, attrs)
         else get_attrs_root_loop (mem s) t max_level
                [mm_index begin root_level..<mm_root_table_count env flags] begin fin False attrs)"

section \<open>The interface\<close>

definition mm_vm_init :: "mm_env \<Rightarrow> u16 \<Rightarrow> mm_state \<Rightarrow> mm_ptable option \<times> mm_state" where
  "mm_vm_init env vid s = mm_ptable_init env vid 0 s"

definition mm_vm_fini :: "mm_env \<Rightarrow> mm_ptable \<Rightarrow> mm_state \<Rightarrow> mm_state" where
  "mm_vm_fini env t s = mm_ptable_fini env t 0 s"

definition mm_mode_to_flags :: "u32 \<Rightarrow> u32" where
  "mm_mode_to_flags mode =
     (if mode AND MM_MODE_UNMAPPED_MASK = MM_MODE_UNMAPPED_MASK then MM_FLAG_UNMAP else 0)"

definition mm_identity_prepare ::
  "mm_env \<Rightarrow> mm_ptable \<Rightarrow> u64 \<Rightarrow> u64 \<Rightarrow> u32 \<Rightarrow> mm_state \<Rightarrow> (bool \<times> mm_state) outcome" where
  "mm_identity_prepare env t begin fin mode s =
     mm_ptable_identity_prepare env t begin fin (arch_mm_mode_to_stage1_attrs (env_cfg env) mode)
       (MM_FLAG_STAGE1 OR mm_mode_to_flags mode) s"

text \<open>A pointer result is its address; 0 is the null pointer.\<close>

definition mm_identity_commit ::
  "mm_env \<Rightarrow> mm_ptable \<Rightarrow> u64 \<Rightarrow> u64 \<Rightarrow> u32 \<Rightarrow> mm_state \<Rightarrow> (u64 \<times> mm_state) outcome" where
  "mm_identity_commit env t begin fin mode s =
     and_then
       (mm_ptable_identity_commit env t begin fin (arch_mm_mode_to_stage1_attrs (env_cfg env) mode)
         (MM_FLAG_STAGE1 OR mm_mode_to_flags mode) s)
       (\<lambda>s. Ret (begin, s))"

definition mm_vm_identity_prepare ::
  "mm_env \<Rightarrow> mm_ptable \<Rightarrow> u64 \<Rightarrow> u64 \<Rightarrow> u32 \<Rightarrow> mm_state \<Rightarrow> (bool \<times> mm_state) outcome" where
  "mm_vm_identity_prepare env t begin fin mode s =
     mm_ptable_identity_prepare env t begin fin (arch_mm_mode_to_stage2_attrs mode)
       (mm_mode_to_flags mode) s"

text \<open>The intermediate physical address stored through \<open>ipa\<close> is the begin address.\<close>

definition mm_vm_identity_commit ::
  "mm_env \<Rightarrow> mm_ptable \<Rightarrow> u64 \<Rightarrow> u64 \<Rightarrow> u32 \<Rightarrow> mm_state \<Rightarrow> (u64 \<times> mm_state) outcome" where
  "mm_vm_identity_commit env t begin fin mode s =
     and_then
       (mm_ptable_identity_commit env t begin fin (arch_mm_mode_to_stage2_attrs mode)
         (mm_mode_to_flags mode) s)
       (\<lambda>s. Ret (begin, s))"

definition mm_vm_identity_map ::
  "mm_env \<Rightarrow> mm_ptable \<Rightarrow> u64 \<Rightarrow> u64 \<Rightarrow> u32 \<Rightarrow> mm_state \<Rightarrow> (bool \<times> mm_state) outcome" where
  "mm_vm_identity_map env t begin fin mode s =
     mm_ptable_identity_update env t begin fin (arch_mm_mode_to_stage2_attrs mode)
       (mm_mode_to_flags mode) s"

definition mm_vm_unmap ::
  "mm_env \<Rightarrow> mm_ptable \<Rightarrow> u64 \<Rightarrow> u64 \<Rightarrow> mm_state \<Rightarrow> (bool \<times> mm_state) outcome" where
  "mm_vm_unmap env t begin fin s = mm_vm_identity_map env t begin fin MM_MODE_UNMAPPED_MASK s"

definition mm_stage1_defrag :: "mm_env \<Rightarrow> mm_ptable \<Rightarrow> mm_state \<Rightarrow> mm_state outcome" where
  "mm_stage1_defrag env t s = mm_ptable_defrag env t MM_FLAG_STAGE1 s"

definition mm_vm_defrag :: "mm_env \<Rightarrow> mm_ptable \<Rightarrow> mm_state \<Rightarrow> mm_state outcome" where
  "mm_vm_defrag env t s = mm_ptable_defrag env t 0 s"

text \<open>\<open>None\<close> is the result false; \<open>u\<close> is the indeterminate initial value of the local attributes.\<close>

definition mm_vm_get_mode ::
  "mm_env \<Rightarrow> u64 \<Rightarrow> mm_ptable \<Rightarrow> u64 \<Rightarrow> u64 \<Rightarrow> mm_state \<Rightarrow> u32 option outcome" where
  "mm_vm_get_mode env u t begin fin s =
     and_then (mm_get_attrs env t begin fin u 0 s)
       (\<lambda>(ok, attrs). Ret (if ok then Some (arch_mm_stage2_attrs_to_mode attrs) else None))"

definition mm_get_mode ::
  "mm_env \<Rightarrow> u64 \<Rightarrow> mm_ptable \<Rightarrow> u64 \<Rightarrow> u64 \<Rightarrow> mm_state \<Rightarrow> u32 option outcome" where
  "mm_get_mode env u t begin fin s =
     and_then (mm_get_attrs env t begin fin u MM_FLAG_STAGE1 s)
       (\<lambda>(ok, attrs). if ok
          then and_then (arch_mm_stage1_attrs_to_mode (env_cfg env) attrs) (\<lambda>mode. Ret (Some mode))
          else Ret None)"

definition mm_identity_map ::
  "mm_env \<Rightarrow> mm_ptable \<Rightarrow> u64 \<Rightarrow> u64 \<Rightarrow> u32 \<Rightarrow> mm_state \<Rightarrow> (u64 \<times> mm_state) outcome" where
  "mm_identity_map env t begin fin mode s =
     and_then
       (mm_ptable_identity_update env t begin fin (arch_mm_mode_to_stage1_attrs (env_cfg env) mode)
         (MM_FLAG_STAGE1 OR mm_mode_to_flags mode) s)
       (\<lambda>(ok, s). Ret (if ok then begin else 0, s))"

definition mm_map_va_at_pa ::
  "mm_env \<Rightarrow> mm_ptable \<Rightarrow> u64 \<Rightarrow> u64 \<Rightarrow> u32 \<Rightarrow> mm_state \<Rightarrow> (bool \<times> mm_state) outcome" where
  "mm_map_va_at_pa env t va pa mode s =
     mm_ptable_map_one_page env t va pa (arch_mm_mode_to_stage1_attrs (env_cfg env) mode)
       (MM_FLAG_STAGE1 OR mm_mode_to_flags mode OR MM_FLAG_COMMIT) s"

definition mm_map_va_at_pa_stage2 ::
  "mm_env \<Rightarrow> mm_ptable \<Rightarrow> u64 \<Rightarrow> u64 \<Rightarrow> u32 \<Rightarrow> mm_state \<Rightarrow> (bool \<times> mm_state) outcome" where
  "mm_map_va_at_pa_stage2 env t va pa mode s =
     mm_ptable_map_one_page env t va pa (arch_mm_mode_to_stage1_attrs (env_cfg env) mode)
       (mm_mode_to_flags mode OR MM_FLAG_COMMIT) s"

definition mm_unmap :: "mm_env \<Rightarrow> mm_ptable \<Rightarrow> u64 \<Rightarrow> u64 \<Rightarrow> mm_state \<Rightarrow> (bool \<times> mm_state) outcome" where
  "mm_unmap env t begin fin s =
     and_then (mm_identity_map env t begin fin MM_MODE_UNMAPPED_MASK s) (\<lambda>(p, s). Ret (p \<noteq> 0, s))"

definition mm_defrag :: "mm_env \<Rightarrow> mm_ptable \<Rightarrow> mm_state \<Rightarrow> mm_state outcome" where
  "mm_defrag env t s = mm_ptable_defrag env t MM_FLAG_STAGE1 s"

end
