(* ===== verification/MM_Walk.thy ===== *)
theory MM_Walk
  imports MM
begin

text \<open>
  The abstract view of the page tables that the properties of \<^verbatim>\<open>src/mm.c\<close> are stated in: the
  address arithmetic on natural numbers, the pages a table is made of, the attributes an
  address has, when a table is well formed, and who owns which page. The first operations
  shown correct on this view are the ones every other one uses: freeing a subtree, TLB
  maintenance and replacing an entry.
\<close>

section \<open>Address arithmetic on natural numbers\<close>

text \<open>The size in bytes of the range an entry at a level translates.\<close>

definition esz :: "nat \<Rightarrow> nat" where
  "esz l = 2 ^ (12 + 9 * l)"

lemma esz_pos [simp]: "0 < esz l"
  by (simp add: esz_def)

lemma esz_Suc: "esz (Suc l) = 512 * esz l"
  by (simp add: esz_def power_add)

lemma esz_mono: "l \<le> k \<Longrightarrow> esz l \<le> esz k"
  by (simp add: esz_def)

lemma esz_dvd: "l \<le> k \<Longrightarrow> esz l dvd esz k"
  unfolding esz_def by (rule le_imp_power_dvd) simp

lemma esz_0: "esz 0 = 4096"
  by (simp add: esz_def)

lemma esz_le_48: "l \<le> 4 \<Longrightarrow> esz l \<le> 2 ^ 48"
  unfolding esz_def by (rule power_increasing) simp_all

lemma entry_size_power: "mm_entry_size l = 2 ^ (12 + 9 * l)"
  by (simp add: mm_entry_size_def PAGE_BITS_def PAGE_LEVEL_BITS_def push_bit_eq_mult mult.commute)

lemma entry_size_unat [simp]: "l \<le> 5 \<Longrightarrow> unat (mm_entry_size l) = esz l"
  unfolding entry_size_power esz_def by (rule unat_two_power) simp

lemma page_size_unat: "unat PAGE_SIZE = 4096"
  by (simp add: PAGE_SIZE_def PAGE_BITS_def)

lemma mm_index_unat: "mm_index a l = unat a div esz l mod 512"
proof -
  have m: "(push_bit PAGE_LEVEL_BITS 1 - 1 :: u64) = 2 ^ 9 - 1"
    by (simp add: PAGE_LEVEL_BITS_def)
  have "mm_index a l = unat (drop_bit (12 + 9 * l) a) mod 2 ^ 9"
    unfolding mm_index_def m unat_and_low_mask
    by (simp add: PAGE_BITS_def PAGE_LEVEL_BITS_def mult.commute)
  then show ?thesis by (simp add: unat_drop_bit_div esz_def)
qed

lemma mm_index_less [simp]: "mm_index a l < 512"
  by (simp add: mm_index_unat)

lemma next_block_unat:
  assumes "l \<le> 5" "unat a + esz l < 2 ^ 64"
  shows "unat (mm_start_of_next_block a (mm_entry_size l)) = (unat a div esz l + 1) * esz l"
proof -
  have "unat (a + mm_entry_size l) = unat a + esz l"
    using assms by (subst unat_add_no_wrap) simp_all
  then show ?thesis
    unfolding mm_start_of_next_block_def entry_size_power unat_and_not_low_mask esz_def [symmetric]
    by (simp only: div_add_self2 [OF esz_pos [THEN less_imp_neq, symmetric]])
qed

lemma level_end_unat:
  assumes "l \<le> 4" "unat a < 2 ^ 48"
  shows "unat (mm_level_end a l) = (unat a div esz (Suc l) + 1) * esz (Suc l)"
proof -
  have off: "PAGE_BITS + (l + 1) * PAGE_LEVEL_BITS = 12 + 9 * Suc l"
    by (simp add: PAGE_BITS_def PAGE_LEVEL_BITS_def)
  have le: "esz (Suc l) \<le> 2 ^ 57" unfolding esz_def using assms(1) by (intro power_increasing) simp_all
  have d: "unat a div esz (Suc l) * esz (Suc l) \<le> unat a" by simp
  have q: "unat a div esz (Suc l) \<le> unat a" by simp
  have "unat (drop_bit (12 + 9 * Suc l) a + 1) = unat a div esz (Suc l) + 1"
  proof (subst unat_add_no_wrap)
    show "unat (drop_bit (12 + 9 * Suc l) a) + unat (1 :: u64) < 2 ^ LENGTH(64)"
      unfolding unat_drop_bit_div esz_def [symmetric] using le_less_trans [OF q assms(2)] by simp
    show "unat (drop_bit (12 + 9 * Suc l) a) + unat (1 :: u64) = unat a div esz (Suc l) + 1"
      unfolding unat_drop_bit_div esz_def by simp
  qed
  moreover have "(unat a div esz (Suc l) + 1) * esz (Suc l) < 2 ^ 64"
  proof -
    have "unat a div esz (Suc l) * esz (Suc l) + esz (Suc l) < 2 ^ 48 + 2 ^ 57"
      using le_less_trans [OF d assms(2)] le by (rule add_less_le_mono)
    also have "\<dots> < 2 ^ 64" by simp
    finally show ?thesis by simp
  qed
  ultimately show ?thesis
    unfolding mm_level_end_def off Let_def
    by (subst unat_push_bit_mult) (simp_all add: esz_def)
qed

lemma aligned_iff:
  assumes "l \<le> 5"
  shows "a AND (mm_entry_size l - 1) = 0 \<longleftrightarrow> esz l dvd unat a"
proof -
  have "a AND (mm_entry_size l - 1) = 0 \<longleftrightarrow> unat (a AND (mm_entry_size l - 1)) = 0"
    by (simp add: unat_eq_zero)
  then show ?thesis
    unfolding entry_size_power unat_and_low_mask esz_def by (simp add: dvd_eq_mod_eq_0)
qed

lemma round_down_unat: "unat (mm_round_down_to_page a) = unat a div 4096 * 4096"
proof -
  have p: "PAGE_SIZE = 2 ^ 12" by (simp add: PAGE_SIZE_def PAGE_BITS_def)
  show ?thesis
    unfolding mm_round_down_to_page_def p unat_and_not_low_mask by simp
qed

lemma round_up_unat:
  assumes "unat a \<le> 2 ^ 64 - 4096"
  shows "unat (mm_round_up_to_page a) = (unat a + 4095) div 4096 * 4096"
proof -
  have p: "a + PAGE_SIZE - 1 = a + 4095" by (simp add: PAGE_SIZE_def PAGE_BITS_def)
  have u: "unat (a + 4095) = unat a + 4095"
    using assms by (subst unat_add_no_wrap) simp_all
  show ?thesis
    unfolding mm_round_up_to_page_def round_down_unat p u by simp
qed

lemma clear_pa_unat: "unat (arch_mm_clear_pa a) = unat a mod 2 ^ 48 div 4096 * 4096"
proof -
  have "pte_addr a = push_bit 12 (drop_bit 12 (take_bit 48 a))"
    by (rule bit_eqI) (auto simp: bit_pte_addr bit_push_bit_iff bit_drop_bit_eq bit_take_bit_iff
        dest: bit_imp_le_length)
  then show ?thesis
    by (simp add: arch_mm_clear_pa_def unat_push_drop unsigned_take_bit_eq take_bit_nat_def)
qed

text \<open>The position of an address inside a table whose range starts at \<open>B\<close>.\<close>

lemma index_in_table:
  assumes "esz (Suc l) dvd B" "B + i * esz l \<le> unat a" "unat a < B + (i + 1) * esz l" "i < 512"
  shows "mm_index a l = i"
proof -
  obtain k where k: "B = esz (Suc l) * k" using assms(1) by (auto elim: dvdE)
  have "unat a div esz l = 512 * k + i"
  proof (rule div_nat_eqI)
    show "esz l * (512 * k + i) \<le> unat a" using assms(2) k by (simp add: esz_Suc algebra_simps)
    show "unat a < esz l * Suc (512 * k + i)" using assms(3) k by (simp add: esz_Suc algebra_simps)
  qed
  then show ?thesis using assms(4) by (simp add: mm_index_unat)
qed

lemma table_position:
  assumes "esz (Suc l) dvd B" "B \<le> unat a" "unat a < B + 512 * esz l"
  shows "B + mm_index a l * esz l \<le> unat a" "unat a < B + (mm_index a l + 1) * esz l"
proof -
  define i where "i = (unat a - B) div esz l"
  have "i * esz l \<le> unat a - B" unfolding i_def by simp
  moreover have "unat a - B < (i + 1) * esz l"
    unfolding i_def using dividend_less_div_times [of "esz l" "unat a - B"] by (simp add: algebra_simps)
  moreover have "i < 512" unfolding i_def using assms(3)
    by (intro less_mult_imp_div_less) (use assms(2) in linarith)
  ultimately have "mm_index a l = i" using assms by (intro index_in_table [OF assms(1)]) auto
  with \<open>i * esz l \<le> unat a - B\<close> \<open>unat a - B < (i + 1) * esz l\<close>
  show "B + mm_index a l * esz l \<le> unat a" "unat a < B + (mm_index a l + 1) * esz l"
    using assms(2) by auto
qed

section \<open>What the tables hold\<close>

text \<open>
  The abstract view of an entry at a level: the table pages reached from it, the attributes
  it gives to an address, and whether it is well formed. \<open>idm\<close> asks in addition that every
  block maps its addresses to themselves, as the identity mappings do.
\<close>

definition sub_table :: "u64 \<Rightarrow> nat \<Rightarrow> u64" where
  "sub_table pte l = mm_page_table_from_pa (arch_mm_table_from_pte pte l)"

primrec pages :: "nat \<Rightarrow> table_mem \<Rightarrow> u64 \<Rightarrow> u64 list" where
  "pages 0 m pte = []"
| "pages (Suc l) m pte =
     (if arch_mm_pte_is_table pte (Suc l)
      then sub_table pte (Suc l) #
        concat (map (\<lambda>i. pages l m (m (sub_table pte (Suc l)) i)) [0..<512])
      else [])"

definition table_pages :: "nat \<Rightarrow> table_mem \<Rightarrow> u64 \<Rightarrow> u64 list" where
  "table_pages l m t = concat (map (\<lambda>i. pages l m (m t i)) [0..<512])"

primrec attr_at :: "nat \<Rightarrow> table_mem \<Rightarrow> u64 \<Rightarrow> u64 \<Rightarrow> u64" where
  "attr_at 0 m pte a = arch_mm_pte_attrs pte 0"
| "attr_at (Suc l) m pte a =
     (if arch_mm_pte_is_table pte (Suc l)
      then attr_at l m (m (sub_table pte (Suc l)) (mm_index a l)) a
      else arch_mm_pte_attrs pte (Suc l))"

definition table_attr :: "nat \<Rightarrow> table_mem \<Rightarrow> u64 \<Rightarrow> u64 \<Rightarrow> u64" where
  "table_attr l m t a = attr_at l m (m t (mm_index a l)) a"

definition leaf_ok :: "bool \<Rightarrow> nat \<Rightarrow> nat \<Rightarrow> u64 \<Rightarrow> bool" where
  "leaf_ok idm l base pte \<longleftrightarrow>
     pte = arch_mm_absent_pte l \<or>
     (let pa = arch_mm_block_from_pte pte l; attrs = arch_mm_pte_attrs pte l
      in arch_mm_is_block_allowed l \<and> pte = arch_mm_block_pte l pa attrs \<and> pte_attrs_ok attrs \<and>
         esz l dvd unat pa \<and> (idm \<longrightarrow> unat pa = base))"

primrec pte_ok :: "bool \<Rightarrow> nat \<Rightarrow> table_mem \<Rightarrow> nat \<Rightarrow> u64 \<Rightarrow> bool" where
  "pte_ok idm 0 m base pte = leaf_ok idm 0 base pte"
| "pte_ok idm (Suc l) m base pte =
     (if arch_mm_pte_is_table pte (Suc l)
      then pte = arch_mm_table_pte (Suc l) (sub_table pte (Suc l)) \<and>
        (\<forall>i \<in> set [0..<512]. pte_ok idm l m (base + i * esz l) (m (sub_table pte (Suc l)) i))
      else leaf_ok idm (Suc l) base pte)"

definition table_ok :: "bool \<Rightarrow> nat \<Rightarrow> table_mem \<Rightarrow> nat \<Rightarrow> u64 \<Rightarrow> bool" where
  "table_ok idm l m base t \<longleftrightarrow> (\<forall>i \<in> set [0..<512]. pte_ok idm l m (base + i * esz l) (m t i))"

text \<open>
  Ownership of pages: no page has two owners, and every page is one that an entry can refer
  to. The pool of table pages has entries of one page.
\<close>

definition own_ok :: "u64 multiset \<Rightarrow> bool" where
  "own_ok M \<longleftrightarrow> (\<forall>p \<in># M. count M p = 1 \<and> pte_addr_ok p \<and> 0 < p)"

definition page_pool_ok :: "mpool \<Rightarrow> bool" where
  "page_pool_ok p \<longleftrightarrow> mpool_wf p \<and> entry_size p = PAGE_SIZE"

abbreviation free_pages :: "mm_state \<Rightarrow> u64 multiset" where
  "free_pages s \<equiv> mpool_avail (pool s)"

section \<open>Entries do not interfere\<close>

lemma pages_table:
  "pages (Suc l) m pte = (if arch_mm_pte_is_table pte (Suc l)
     then sub_table pte (Suc l) # table_pages l m (sub_table pte (Suc l)) else [])"
  by (simp add: table_pages_def)

lemma attr_at_table:
  "attr_at (Suc l) m pte a = (if arch_mm_pte_is_table pte (Suc l)
     then table_attr l m (sub_table pte (Suc l)) a else arch_mm_pte_attrs pte (Suc l))"
  by (simp add: table_attr_def)

lemma pte_ok_table:
  "pte_ok idm (Suc l) m base pte = (if arch_mm_pte_is_table pte (Suc l)
     then pte = arch_mm_table_pte (Suc l) (sub_table pte (Suc l)) \<and>
       table_ok idm l m base (sub_table pte (Suc l))
     else leaf_ok idm (Suc l) base pte)"
  by (simp add: table_ok_def)

lemma own_ok_count: "own_ok (M + N) \<Longrightarrow> p \<in># M \<Longrightarrow> count M p = 1 \<and> count N p = 0 \<and> pte_addr_ok p \<and> 0 < p"
proof -
  assume "own_ok (M + N)" "p \<in># M"
  then have "count M p + count N p = 1" "pte_addr_ok p" "0 < p" "0 < count M p"
    unfolding own_ok_def by auto
  then show ?thesis by linarith
qed

lemma own_ok_mono: "own_ok (M + N) \<Longrightarrow> own_ok M"
  unfolding own_ok_def [of M] using own_ok_count by blast

lemma own_ok_disjoint: "own_ok (M + N) \<Longrightarrow> p \<in># M \<Longrightarrow> p \<notin># N"
  using own_ok_count [of M N p] by (auto simp: not_in_iff)

text \<open>The view of an entry only depends on the pages reached from it.\<close>

lemma entry_frame_all:
  "\<forall>p \<in> set (pages l m pte). m' p = m p \<Longrightarrow>
    pages l m' pte = pages l m pte \<and> attr_at l m' pte = attr_at l m pte \<and>
    (\<forall>base. pte_ok idm l m' base pte = pte_ok idm l m base pte)"
proof (induction l arbitrary: pte)
  case 0
  show ?case by (simp add: fun_eq_iff)
next
  case (Suc l)
  show ?case
  proof (cases "arch_mm_pte_is_table pte (Suc l)")
    case False
    then show ?thesis by (simp add: fun_eq_iff)
  next
    case True
    let ?t = "sub_table pte (Suc l)"
    have t: "m' ?t = m ?t" using Suc.prems True by simp
    have "pages l m' (m ?t i) = pages l m (m ?t i) \<and> attr_at l m' (m ?t i) = attr_at l m (m ?t i) \<and>
      (\<forall>base. pte_ok idm l m' base (m ?t i) = pte_ok idm l m base (m ?t i))" if "i < 512" for i
      using that Suc.prems True by (intro Suc.IH) auto
    then show ?thesis using True t by (auto simp: fun_eq_iff intro!: arg_cong [of _ _ concat])
  qed
qed

lemma entry_frame:
  assumes "\<forall>p \<in> set (pages l m pte). m' p = m p"
  shows "pages l m' pte = pages l m pte" "attr_at l m' pte = attr_at l m pte"
    "pte_ok idm l m' base pte = pte_ok idm l m base pte"
  using entry_frame_all [OF assms] by blast+

lemma table_frame:
  assumes "\<forall>p \<in> set (table_pages l m t). m' p = m p" "m' t = m t"
  shows "table_pages l m' t = table_pages l m t" "table_attr l m' t = table_attr l m t"
    "table_ok idm l m' base t = table_ok idm l m base t"
proof -
  have e: "\<forall>p \<in> set (pages l m (m t i)). m' p = m p" if "i < 512" for i
    using that assms(1) by (auto simp: table_pages_def)
  show "table_pages l m' t = table_pages l m t"
    unfolding table_pages_def assms(2) using e
    by (intro arg_cong [of _ _ concat] map_cong refl entry_frame(1)) simp
  show "table_attr l m' t = table_attr l m t"
    unfolding table_attr_def assms(2) by (simp only: entry_frame(2) [OF e [OF mm_index_less]])
  show "table_ok idm l m' base t = table_ok idm l m base t"
    unfolding table_ok_def assms(2) using e by (intro ball_cong refl entry_frame(3)) simp
qed

section \<open>Freeing a subtree\<close>

lemma page_entry_ok: "pte_addr_ok x \<Longrightarrow> 0 < x \<Longrightarrow> Mpool.entry_ok PAGE_SIZE x"
  by (simp add: entry_ok_def page_size_unat pte_addr_ok_unat)

lemma fold_free:
  assumes "\<And>i q. i \<in> set is \<Longrightarrow> page_pool_ok q \<Longrightarrow>
      page_pool_ok (g i q) \<and> mpool_avail (g i q) = mpool_avail q + mset (f i)"
    and "page_pool_ok q"
  shows "page_pool_ok (fold g is q) \<and> mpool_avail (fold g is q) = mpool_avail q + mset (concat (map f is))"
  using assms
proof (induction "is" arbitrary: q)
  case Nil
  then show ?case by simp
next
  case (Cons i "is")
  have "page_pool_ok (g i q) \<and> mpool_avail (g i q) = mpool_avail q + mset (f i)"
    using Cons.prems by simp
  moreover have "page_pool_ok (fold g is (g i q)) \<and>
    mpool_avail (fold g is (g i q)) = mpool_avail (g i q) + mset (concat (map f is))"
    using Cons.prems calculation by (intro Cons.IH) auto
  ultimately show ?case by (simp add: ac_simps)
qed

lemma page_pool_free:
  assumes "page_pool_ok q" "pte_addr_ok x" "0 < x"
  shows "page_pool_ok (mpool_free q x)"
  using assms pool.free_inv [of q x] page_entry_ok
  by (simp add: page_pool_ok_def mpool_ok_def)

lemma mm_free_page_pte_spec:
  "page_pool_ok q \<Longrightarrow> \<forall>x \<in> set (pages l m pte). pte_addr_ok x \<and> 0 < x \<Longrightarrow>
    page_pool_ok (mm_free_page_pte l pte m q) \<and>
    mpool_avail (mm_free_page_pte l pte m q) = mpool_avail q + mset (pages l m pte)"
proof (induction l arbitrary: pte q)
  case 0
  then show ?case by simp
next
  case (Suc l)
  show ?case
  proof (cases "arch_mm_pte_is_table pte (Suc l)")
    case False
    then show ?thesis using Suc.prems by simp
  next
    case True
    let ?t = "sub_table pte (Suc l)"
    let ?q = "fold (\<lambda>i p. mm_free_page_pte l (m ?t i) m p) [0..<512] q"
    have "page_pool_ok ?q \<and> mpool_avail ?q = mpool_avail q + mset (concat (map (\<lambda>i. pages l m (m ?t i)) [0..<512]))"
    proof (rule fold_free [OF _ Suc.prems(1)])
      fix i q'
      assume "i \<in> set [0..<512]" "page_pool_ok q'"
      then show "page_pool_ok (mm_free_page_pte l (m ?t i) m q') \<and>
        mpool_avail (mm_free_page_pte l (m ?t i) m q') = mpool_avail q' + mset (pages l m (m ?t i))"
        using Suc.prems(2) True by (intro Suc.IH) auto
    qed
    moreover have "pte_addr_ok ?t" "0 < ?t" using Suc.prems(2) True by simp_all
    ultimately have "page_pool_ok (mpool_free ?q ?t)" "mpool_avail (mpool_free ?q ?t) = mpool_avail q +
        mset (pages (Suc l) m pte)"
      using page_pool_free True by simp_all
    moreover have "mm_free_page_pte (Suc l) pte m q = mpool_free ?q ?t"
      using True by (simp add: sub_table_def MM_PTE_PER_PAGE_def Let_def)
    ultimately show ?thesis by simp
  qed
qed

section \<open>TLB maintenance returns\<close>

lemma or_ge: "unat a \<le> unat (a OR b :: u64)"
proof -
  have "uint a \<le> uint a OR uint b" by (rule or_greater_eq) (rule unsigned_greater_eq)
  then have "uint a \<le> uint (a OR b)" unfolding unsigned_or_eq .
  from nat_mono [OF this] show ?thesis by simp
qed

lemma or_less_power: "unat (a :: u64) < 2 ^ n \<Longrightarrow> unat b < 2 ^ n \<Longrightarrow> unat (a OR b) < 2 ^ n"
proof -
  assume n: "unat a < 2 ^ n" "unat b < 2 ^ n"
  have a: "uint a < 2 ^ n" if "unat a < 2 ^ n" for a :: u64
  proof -
    have "int (unat a) < int (2 ^ n)" using that by (simp only: of_nat_less_iff)
    then show ?thesis by simp
  qed
  have "uint a OR uint b < 2 ^ n"
    by (rule OR_upper [OF unsigned_greater_eq a [OF n(1)] a [OF n(2)]])
  then have "uint (a OR b) < 2 ^ n" unfolding unsigned_or_eq .
  then have "int (unat (a OR b)) < int (2 ^ n)" by simp
  then show ?thesis by (simp only: of_nat_less_iff)
qed

lemma stage1_loop_returns:
  "unat fin \<le> 2 ^ 52 \<Longrightarrow> \<exists>ops. stage1_loop cfg asid it fin = Some ops"
proof (induction "unat fin - unat it" arbitrary: it asid rule: less_induct)
  case less
  show ?case
  proof (cases "it < fin")
    case False
    then show ?thesis by (simp add: stage1_loop.simps [of cfg asid it])
  next
    case True
    let ?t = "push_bit 48 (ucast (asid AND 0xff)) :: u64"
    have ff: "(0xff :: u16) = mask 8" by (simp add: mask_eq_exp_minus_1)
    have "unat (ucast (asid AND 0xff) :: u64) < 2 ^ 8"
    proof -
      have "unat (asid AND 0xff) < 2 ^ 8"
        unfolding ff take_bit_eq_mask [symmetric] unsigned_take_bit_eq by (rule take_bit_nat_less_exp)
      moreover have "unat (ucast (asid AND 0xff) :: u64) \<le> unat (asid AND 0xff)"
        unfolding unsigned_ucast_eq by (rule take_bit_nat_less_eq_self)
      ultimately show ?thesis by (rule le_less_trans [rotated])
    qed
    then have "unat (ucast (asid AND 0xff) :: u64) * 2 ^ 48 < 2 ^ 56" by simp
    then have "unat ?t < 2 ^ 56" by (subst unat_push_bit_mult) simp_all
    moreover have lt: "unat it < unat fin" using True by (simp add: word_less_nat_alt)
    then have "unat it < 2 ^ 56" using less.prems by simp
    ultimately have b: "unat (it OR ?t) < 2 ^ 56" by (intro or_less_power)
    then have u: "unat (it OR ?t) + unat (1 :: u64) < 2 ^ LENGTH(64)" by simp
    have "unat ((it OR ?t) + 1) = unat (it OR ?t) + 1" using unat_add_no_wrap [OF u] by simp
    then have "unat fin - unat ((it OR ?t) + 1) < unat fin - unat it"
      using or_ge [of it ?t] lt by linarith
    from less.hyps [OF this less.prems, of "asid AND 0xff"] True show ?thesis
      by (auto simp: stage1_loop.simps [of cfg asid it] Let_def)
  qed
qed

lemma mm_invalidate_tlb_returns:
  "\<exists>ops. mm_invalidate_tlb env begin fin flags vid s = Ret (log_event (Tlb_range begin fin ops) s)"
proof -
  have "unat (drop_bit 12 fin) \<le> 2 ^ 52"
    unfolding unat_drop_bit_div using div_le_mono [OF less_imp_le [OF u64_bound [of fin]], of "2 ^ 12"]
    by simp
  then obtain ops where "stage1_loop (env_cfg env) vid (drop_bit 12 begin) (drop_bit 12 fin) = Some ops"
    using stage1_loop_returns by blast
  then have "\<exists>ops. arch_mm_invalidate_stage1_range (env_cfg env) vid begin fin = Some ops"
    by (simp add: arch_mm_invalidate_stage1_range_def)
  moreover have "\<exists>ops. arch_mm_invalidate_stage2_range (env_cfg env) vid begin fin = Some ops"
    by (simp add: arch_mm_invalidate_stage2_range_def stage2_loop_pages)
  ultimately show ?thesis by (auto simp: mm_invalidate_tlb_def)
qed

lemma log_event_sel [simp]: "mem (log_event e s) = mem s" "pool (log_event e s) = pool s"
  "trace (log_event e s) = trace s @ [e]"
  by (simp_all add: log_event_def)

lemma set_pte_sel [simp]: "mem (set_pte t i v s) = (mem s)(t := (mem s t)(i := v))"
  "pool (set_pte t i v s) = pool s" "trace (set_pte t i v s) = trace s @ [Pte_write t i v]"
  by (simp_all add: set_pte_def)

lemma init_table_sel [simp]: "mem (init_table t f s) = (mem s)(t := f)"
  "pool (init_table t f s) = pool s" "trace (init_table t f s) = trace s @ [Table_init t f]"
  by (simp_all add: init_table_def)

section \<open>Replacing an entry\<close>

lemma mm_replace_entry_returns:
  "\<exists>evs s1. mm_replace_entry env begin (t, i) new l flags vid s =
     Ret (s1\<lparr>pool := mm_free_page_pte l (mem s t i) (mem s1) (pool s)\<rparr>) \<and>
     mem s1 = (mem s)(t := (mem s t)(i := new)) \<and> trace s1 = trace s @ evs @ [Pte_write t i new] \<and>
     (if (has flags MM_FLAG_STAGE1 \<or> mm_stage2_invalidate env) \<and> arch_mm_pte_is_valid (mem s t i) l
      then \<exists>ops. evs = [Pte_write t i (arch_mm_absent_pte l), Tlb_range begin (begin + mm_entry_size l) ops]
      else evs = [])"
proof (cases "(has flags MM_FLAG_STAGE1 \<or> mm_stage2_invalidate env) \<and> arch_mm_pte_is_valid (mem s t i) l")
  case True
  let ?s = "set_pte t i (arch_mm_absent_pte l) s"
  obtain ops where inv: "mm_invalidate_tlb env begin (begin + mm_entry_size l) flags vid ?s =
      Ret (log_event (Tlb_range begin (begin + mm_entry_size l) ops) ?s)"
    using mm_invalidate_tlb_returns by blast
  have r: "mm_replace_entry env begin (t, i) new l flags vid s =
     and_then (mm_invalidate_tlb env begin (begin + mm_entry_size l) flags vid ?s)
       (\<lambda>s'. Ret ((set_pte t i new s')\<lparr>pool := mm_free_page_pte l (mem s t i) (mem (set_pte t i new s')) (pool s')\<rparr>))"
    using True by (simp add: mm_replace_entry_def Let_def)
  show ?thesis
    unfolding r inv and_then.simps using True
    by (intro exI [of _ "[Pte_write t i (arch_mm_absent_pte l), Tlb_range begin (begin + mm_entry_size l) ops]"]
        exI [of _ "set_pte t i new (log_event (Tlb_range begin (begin + mm_entry_size l) ops) ?s)"]) simp
next
  case False
  then have r: "mm_replace_entry env begin (t, i) new l flags vid s =
     Ret ((set_pte t i new s)\<lparr>pool := mm_free_page_pte l (mem s t i) (mem (set_pte t i new s)) (pool s)\<rparr>)"
    by (simp add: mm_replace_entry_def Let_def if_not_P [OF False] del: and_then_eq_Ret)
  show ?thesis unfolding r using False
    by (intro exI [of _ "[]"] exI [of _ "set_pte t i new s"]) simp
qed

lemma mm_replace_entry_spec:
  assumes "page_pool_ok (pool s)"
    and "\<forall>x \<in> set (pages l (mem s) (mem s t i)). pte_addr_ok x \<and> 0 < x \<and> x \<noteq> t"
  shows "\<exists>s'. mm_replace_entry env begin (t, i) new l flags vid s = Ret s' \<and>
    mem s' = (mem s)(t := (mem s t)(i := new)) \<and> page_pool_ok (pool s') \<and>
    free_pages s' = free_pages s + mset (pages l (mem s) (mem s t i))"
proof -
  obtain evs s1 where r: "mm_replace_entry env begin (t, i) new l flags vid s =
      Ret (s1\<lparr>pool := mm_free_page_pte l (mem s t i) (mem s1) (pool s)\<rparr>)"
    and m: "mem s1 = (mem s)(t := (mem s t)(i := new))"
    using mm_replace_entry_returns by blast
  have p: "pages l (mem s1) (mem s t i) = pages l (mem s) (mem s t i)"
    using assms(2) unfolding m by (intro entry_frame) simp
  have "page_pool_ok (mm_free_page_pte l (mem s t i) (mem s1) (pool s)) \<and>
    mpool_avail (mm_free_page_pte l (mem s t i) (mem s1) (pool s)) =
      free_pages s + mset (pages l (mem s1) (mem s t i))"
    using assms unfolding p [symmetric] by (intro mm_free_page_pte_spec) auto
  then show ?thesis using r m p by simp
qed

section \<open>Leaf entries\<close>

lemma pte_addr_idem: "pte_addr_ok (pte_addr x)"
  unfolding pte_addr_ok_bits bit_pte_addr by blast

lemma block_from_ok: "pte_addr_ok (arch_mm_block_from_pte pte l)"
  by (simp add: arch_mm_block_from_pte_def pte_addr_idem)

lemma sub_table_ok: "pte_addr_ok (sub_table pte l)"
  by (simp add: sub_table_def mm_page_table_from_pa_def arch_mm_table_from_pte_def pte_addr_idem)

lemma leaf_cases:
  assumes "leaf_ok idm l base pte"
  obtains (absent) "pte = arch_mm_absent_pte l"
  | (block) pa attrs where "pte = arch_mm_block_pte l pa attrs" "pte_addr_ok pa" "pte_attrs_ok attrs"
      "arch_mm_is_block_allowed l" "esz l dvd unat pa" "idm \<longrightarrow> unat pa = base"
  using assms unfolding leaf_ok_def Let_def using block_from_ok by blast

lemma leaf_absent: "leaf_ok idm l base (arch_mm_absent_pte l)"
  by (simp add: leaf_ok_def)

lemma leaf_blockI:
  assumes "pte_addr_ok pa" "pte_attrs_ok attrs" "arch_mm_is_block_allowed l" "esz l dvd unat pa"
    "idm \<longrightarrow> unat pa = base"
  shows "leaf_ok idm l base (arch_mm_block_pte l pa attrs)"
  using assms by (simp add: leaf_ok_def arch.block_roundtrip)

lemma leaf_not_table: "leaf_ok idm l base pte \<Longrightarrow> \<not> arch_mm_pte_is_table pte l"
  by (erule leaf_cases) (simp_all add: arch.absent_kind arch.block_not_table)

lemma leaf_present_block: "leaf_ok idm l base pte \<Longrightarrow> arch_mm_pte_is_present pte l \<Longrightarrow> arch_mm_pte_is_block pte l"
  by (erule leaf_cases) (simp_all add: arch.absent_kind arch.block_kind)

lemma leaf_block_present: "leaf_ok idm l base pte \<Longrightarrow> arch_mm_pte_is_block pte l \<Longrightarrow> arch_mm_pte_is_present pte l"
  by (erule leaf_cases) (simp_all add: arch.absent_kind arch.block_present)

lemma leaf_absent_attrs: "leaf_ok idm l base pte \<Longrightarrow> \<not> arch_mm_pte_is_present pte l \<Longrightarrow> pte = arch_mm_absent_pte l"
  by (erule leaf_cases) (simp_all add: arch.block_present)

lemma not_table_simps:
  assumes "\<not> arch_mm_pte_is_table pte l"
  shows "pages l m pte = []" "attr_at l m pte a = arch_mm_pte_attrs pte l"
    "pte_ok idm l m base pte = leaf_ok idm l base pte"
  using assms by (cases l; simp)+

lemma leaf_simps:
  assumes "leaf_ok idm l base pte"
  shows "pages l m pte = []" "attr_at l m pte a = arch_mm_pte_attrs pte l" "pte_ok idm l m base pte"
  using not_table_simps [OF leaf_not_table [OF assms]] assms by simp_all

lemma fill_entries_closed:
  "fill_entries i n p inc f j = (if i \<le> j \<and> j < i + n then p + of_nat (j - i) * inc else f j)"
proof (induction n arbitrary: i p f)
  case 0
  then show ?case by auto
next
  case (Suc n)
  have "of_nat (j - i) = of_nat (j - Suc i) + (1 :: u64)" if "Suc i \<le> j"
    using that by (metis Suc_diff_Suc Suc_le_eq of_nat_Suc add.commute)
  then show ?case by (auto simp: Suc algebra_simps)
qed

lemma block_piece:
  assumes "pte_addr_ok pa" "esz (Suc l) dvd unat pa" "l < 4" "j < 512"
  shows "unat (pa + of_nat j * mm_entry_size l) = unat pa + j * esz l"
    "pte_addr_ok (pa + of_nat j * mm_entry_size l)" "esz l dvd unat (pa + of_nat j * mm_entry_size l)"
proof -
  have lt: "unat pa < 2 ^ 48" and al: "4096 dvd unat pa" using assms(1) by (simp_all add: pte_addr_ok_unat)
  have "esz (Suc l) dvd 2 ^ 48" unfolding esz_def using assms(3) by (intro le_imp_power_dvd) simp
  then have "esz (Suc l) dvd 2 ^ 48 - unat pa" using assms(2) by (rule dvd_diff_nat)
  then have "esz (Suc l) \<le> 2 ^ 48 - unat pa" by (rule dvd_imp_le) (use lt in \<open>simp only: zero_less_diff\<close>)
  then have "esz (Suc l) + unat pa \<le> 2 ^ 48" by (simp only: le_diff_conv2 [OF less_imp_le [OF lt]])
  moreover have "Suc j * esz l \<le> esz (Suc l)"
    unfolding esz_Suc using assms(4) by (intro mult_le_mono1) simp
  ultimately have "Suc j * esz l + unat pa \<le> 2 ^ 48" by (rule order_trans [OF add_right_mono, rotated])
  then have sum: "unat pa + j * esz l + esz l \<le> 2 ^ 48" by (simp only: mult_Suc add.assoc add.commute add.left_commute)
  then have lt48: "unat pa + j * esz l < 2 ^ 48"
    using esz_pos [of l] by (meson less_add_same_cancel1 less_le_trans)
  have j: "j * esz l < 2 ^ 48" using lt48 by (rule le_less_trans [OF le_add2])
  have nj: "unat (of_nat j :: u64) = j" using assms(4) by (intro unat_of_nat_less) simp
  have es: "unat (mm_entry_size l) = esz l" using assms(3) by simp
  have "j * esz l < 2 ^ 64" using j by (rule less_trans) simp
  then have m: "unat (of_nat j * mm_entry_size l) = j * esz l"
    using unat_mult_no_wrap [of "of_nat j :: u64" "mm_entry_size l"] unfolding nj es by simp
  have "unat pa + j * esz l < 2 ^ 64" using lt48 by (rule less_trans) simp
  then have "unat pa + unat (of_nat j * mm_entry_size l) < 2 ^ LENGTH(64)" unfolding m by simp
  from unat_add_no_wrap [OF this] show u: "unat (pa + of_nat j * mm_entry_size l) = unat pa + j * esz l"
    unfolding m .
  have "esz l dvd unat pa" by (rule dvd_trans [OF esz_dvd assms(2)]) simp
  then show d: "esz l dvd unat (pa + of_nat j * mm_entry_size l)" unfolding u by simp
  have "4096 dvd esz l" using esz_dvd [of 0 l] by (simp add: esz_0)
  with d have "4096 dvd unat (pa + of_nat j * mm_entry_size l)" by (rule dvd_trans [rotated])
  with lt48 show "pte_addr_ok (pa + of_nat j * mm_entry_size l)"
    unfolding pte_addr_ok_unat u by simp
qed

text \<open>Splitting a block gives the blocks of its parts.\<close>

lemma split_block:
  assumes "pte_addr_ok pa" "pte_attrs_ok attrs" "arch_mm_is_block_allowed (Suc l)"
    "esz (Suc l) dvd unat pa" "idm \<longrightarrow> unat pa = base" "j < 512"
  shows "leaf_ok idm l (base + j * esz l)
      (fill_entries 0 512 (arch_mm_block_pte l pa attrs) (mm_entry_size l) f j)"
    "arch_mm_pte_attrs (fill_entries 0 512 (arch_mm_block_pte l pa attrs) (mm_entry_size l) f j) l = attrs"
proof -
  have l: "l < 4" "arch_mm_is_block_allowed l"
    using assms(3) arch.allowed_down by (auto simp: arch_mm_is_block_allowed_def)
  note p = block_piece [OF assms(1,4) l(1) assms(6)]
  have e: "fill_entries 0 512 (arch_mm_block_pte l pa attrs) (mm_entry_size l) f j =
    arch_mm_block_pte l (pa + of_nat j * mm_entry_size l) attrs"
    using assms(6) arch.block_shift [OF assms(1) p(2) assms(2)] by (simp add: fill_entries_closed)
  show "leaf_ok idm l (base + j * esz l)
      (fill_entries 0 512 (arch_mm_block_pte l pa attrs) (mm_entry_size l) f j)"
    unfolding e using p assms l by (intro leaf_blockI) auto
  show "arch_mm_pte_attrs (fill_entries 0 512 (arch_mm_block_pte l pa attrs) (mm_entry_size l) f j) l = attrs"
    unfolding e using arch.block_roundtrip(2) [OF p(2) assms(2)] .
qed

lemma split_leaf:
  fixes f :: "nat \<Rightarrow> u64"
  assumes "leaf_ok idm (Suc l) base pte" "j < 512"
  defines "e \<equiv> fill_entries 0 512
    (if arch_mm_pte_is_block pte (Suc l)
     then arch_mm_block_pte l (arch_mm_block_from_pte pte (Suc l)) (arch_mm_pte_attrs pte (Suc l))
     else arch_mm_absent_pte l)
    (if arch_mm_pte_is_block pte (Suc l) then mm_entry_size l else 0) f j"
  shows "leaf_ok idm l (base + j * esz l) e" "arch_mm_pte_attrs e l = arch_mm_pte_attrs pte (Suc l)"
proof -
  have "leaf_ok idm l (base + j * esz l) e \<and> arch_mm_pte_attrs e l = arch_mm_pte_attrs pte (Suc l)"
    using assms(1)
  proof (cases rule: leaf_cases)
    case absent
    then have "e = arch_mm_absent_pte l"
      using assms(2) unfolding e_def by (simp add: arch.absent_kind fill_entries_closed)
    then show ?thesis using absent by (simp add: leaf_absent arch.absent_attrs)
  next
    case (block pa attrs)
    then have "e = fill_entries 0 512 (arch_mm_block_pte l pa attrs) (mm_entry_size l) f j"
      unfolding e_def by (simp add: arch.block_simps)
    then show ?thesis
      using block split_block [OF block(2,3,4,5,6) assms(2), of f] by (simp add: arch.block_roundtrip)
  qed
  then show "leaf_ok idm l (base + j * esz l) e" "arch_mm_pte_attrs e l = arch_mm_pte_attrs pte (Suc l)"
    by simp_all
qed

end
