(* ===== verification/MM_Step.thy ===== *)
theory MM_Step
  imports MM_Walk
begin

text \<open>
  What an operation on one entry, or on one table, may rely on and must guarantee, how the two
  views relate, and the two operations of \<^verbatim>\<open>src/mm.c\<close> that every edit of a table is made of:
  replacing an entry and populating it with a table.
\<close>

section \<open>Steps on one entry and on one table\<close>

text \<open>
  \<open>entry_inv\<close> is what an operation on entry \<open>i\<close> of table \<open>t\<close> may rely on, \<open>entry_step\<close> what it
  guarantees: the entry stays well formed, pages only move between the entry and the pool, and
  nothing else in memory changes. \<open>table_inv\<close> and \<open>table_step\<close> say the same of a whole table.
\<close>

definition entry_pages :: "nat \<Rightarrow> u64 \<Rightarrow> nat \<Rightarrow> mm_state \<Rightarrow> u64 multiset" where
  "entry_pages l t i s = mset (pages l (mem s) (mem s t i)) + free_pages s"

definition entry_inv :: "bool \<Rightarrow> nat \<Rightarrow> u64 \<Rightarrow> nat \<Rightarrow> nat \<Rightarrow> mm_state \<Rightarrow> bool" where
  "entry_inv idm l t i base s \<longleftrightarrow>
     page_pool_ok (pool s) \<and> pte_ok idm l (mem s) base (mem s t i) \<and> own_ok (entry_pages l t i s + {#t#})"

definition entry_step :: "bool \<Rightarrow> nat \<Rightarrow> u64 \<Rightarrow> nat \<Rightarrow> nat \<Rightarrow> mm_state \<Rightarrow> mm_state \<Rightarrow> bool" where
  "entry_step idm l t i base s s' \<longleftrightarrow>
     page_pool_ok (pool s') \<and> pte_ok idm l (mem s') base (mem s' t i) \<and>
     entry_pages l t i s' = entry_pages l t i s \<and>
     (\<forall>p. p \<noteq> t \<longrightarrow> p \<notin># entry_pages l t i s \<longrightarrow> mem s' p = mem s p) \<and>
     (\<forall>j. j \<noteq> i \<longrightarrow> mem s' t j = mem s t j)"

definition all_pages :: "nat \<Rightarrow> u64 \<Rightarrow> mm_state \<Rightarrow> u64 multiset" where
  "all_pages l t s = mset (table_pages l (mem s) t) + free_pages s"

definition table_inv :: "bool \<Rightarrow> nat \<Rightarrow> u64 \<Rightarrow> nat \<Rightarrow> mm_state \<Rightarrow> bool" where
  "table_inv idm l t base s \<longleftrightarrow>
     page_pool_ok (pool s) \<and> table_ok idm l (mem s) base t \<and> own_ok (all_pages l t s + {#t#})"

definition table_step :: "bool \<Rightarrow> nat \<Rightarrow> u64 \<Rightarrow> nat \<Rightarrow> mm_state \<Rightarrow> mm_state \<Rightarrow> bool" where
  "table_step idm l t base s s' \<longleftrightarrow>
     page_pool_ok (pool s') \<and> table_ok idm l (mem s') base t \<and>
     all_pages l t s' = all_pages l t s \<and>
     (\<forall>p. p \<noteq> t \<longrightarrow> p \<notin># all_pages l t s \<longrightarrow> mem s' p = mem s p)"

lemma entry_step_refl: "entry_inv idm l t i base s \<Longrightarrow> entry_step idm l t i base s s"
  by (simp add: entry_inv_def entry_step_def)

lemma entry_step_trans:
  "entry_step idm l t i base s s' \<Longrightarrow> entry_step idm l t i base s' s'' \<Longrightarrow> entry_step idm l t i base s s''"
  by (simp add: entry_step_def)

lemma entry_step_inv: "entry_inv idm l t i base s \<Longrightarrow> entry_step idm l t i base s s' \<Longrightarrow> entry_inv idm l t i base s'"
  by (simp add: entry_inv_def entry_step_def)

lemma table_step_refl: "table_inv idm l t base s \<Longrightarrow> table_step idm l t base s s"
  by (simp add: table_inv_def table_step_def)

lemma table_step_trans:
  "table_step idm l t base s s' \<Longrightarrow> table_step idm l t base s' s'' \<Longrightarrow> table_step idm l t base s s''"
  by (simp add: table_step_def)

lemma table_step_inv: "table_inv idm l t base s \<Longrightarrow> table_step idm l t base s s' \<Longrightarrow> table_inv idm l t base s'"
  by (simp add: table_inv_def table_step_def)

text \<open>From an entry that is a table to that table, and back.\<close>

lemma entry_pages_table:
  "arch_mm_pte_is_table (mem s t i) (Suc l) \<Longrightarrow> entry_pages (Suc l) t i s =
    add_mset (sub_table (mem s t i) (Suc l)) (all_pages l (sub_table (mem s t i) (Suc l)) s)"
  by (simp add: entry_pages_def all_pages_def table_pages_def)

lemma entry_inv_table:
  assumes "entry_inv idm (Suc l) t i base s" "arch_mm_pte_is_table (mem s t i) (Suc l)"
  shows "table_inv idm l (sub_table (mem s t i) (Suc l)) base s" "sub_table (mem s t i) (Suc l) \<noteq> t"
    "t \<notin># all_pages l (sub_table (mem s t i) (Suc l)) s"
proof -
  let ?n = "sub_table (mem s t i) (Suc l)"
  have e: "entry_pages (Suc l) t i s = add_mset ?n (all_pages l ?n s)"
    by (rule entry_pages_table [OF assms(2)])
  have own: "own_ok ((all_pages l ?n s + {#?n#}) + {#t#})"
    using assms(1) by (simp add: entry_inv_def e)
  show "table_inv idm l ?n base s"
    using assms own_ok_mono [OF own] by (simp add: entry_inv_def table_inv_def table_ok_def)
  from own_ok_disjoint [of "{#t#}" "all_pages l ?n s + {#?n#}" t] own
  show "?n \<noteq> t" "t \<notin># all_pages l ?n s" by (auto simp: ac_simps)
qed

lemma table_step_entry:
  assumes "entry_inv idm (Suc l) t i base s" "arch_mm_pte_is_table (mem s t i) (Suc l)"
    and "table_step idm l (sub_table (mem s t i) (Suc l)) base s s'"
  shows "entry_step idm (Suc l) t i base s s'" "mem s' t = mem s t"
proof -
  let ?n = "sub_table (mem s t i) (Suc l)"
  note tab = entry_inv_table [OF assms(1,2)]
  show t: "mem s' t = mem s t" using assms(3) tab(2,3) by (simp add: table_step_def)
  have e: "entry_pages (Suc l) t i s = add_mset ?n (all_pages l ?n s)"
    by (rule entry_pages_table [OF assms(2)])
  have e': "entry_pages (Suc l) t i s' = add_mset ?n (all_pages l ?n s')"
    using entry_pages_table [of s' t i l] assms(2) by (simp only: t)
  show "entry_step idm (Suc l) t i base s s'"
    using assms t by (simp add: entry_step_def table_step_def e e' table_ok_def entry_inv_def)
qed

text \<open>From a table to one of its entries, and back.\<close>

definition other_pages :: "nat \<Rightarrow> u64 \<Rightarrow> nat \<Rightarrow> table_mem \<Rightarrow> u64 multiset" where
  "other_pages l t i m = mset (concat (map (\<lambda>j. pages l m (m t j)) ([0..<i] @ [Suc i..<512])))"

lemma upt_512_split: "i < 512 \<Longrightarrow> [0..<512] = [0..<i] @ i # [Suc i..<512]"
  using upt_add_eq_append [of 0 i "512 - i"] by (simp add: upt_conv_Cons [of i 512])

lemma table_pages_split:
  "i < 512 \<Longrightarrow> mset (table_pages l m t) = mset (pages l m (m t i)) + other_pages l t i m"
  unfolding table_pages_def other_pages_def by (simp add: upt_512_split [of i])

lemma in_other_pages: "j < 512 \<Longrightarrow> j \<noteq> i \<Longrightarrow> p \<in> set (pages l m (m t j)) \<Longrightarrow> p \<in># other_pages l t i m"
  unfolding other_pages_def by (auto simp: not_less Suc_le_eq nat_neq_iff intro: bexI [of _ j])

lemma all_pages_split:
  "i < 512 \<Longrightarrow> all_pages l t s = entry_pages l t i s + other_pages l t i (mem s)"
  by (simp add: all_pages_def entry_pages_def table_pages_split ac_simps)

lemma table_inv_entry:
  assumes "table_inv idm l t base s" "i < 512"
  shows "entry_inv idm l t i (base + i * esz l) s"
proof -
  have "own_ok ((entry_pages l t i s + {#t#}) + other_pages l t i (mem s))"
    using assms by (simp add: table_inv_def all_pages_split [OF assms(2)] ac_simps)
  from own_ok_mono [OF this] show ?thesis
    using assms by (simp add: table_inv_def entry_inv_def table_ok_def)
qed

lemma entry_step_others:
  assumes "table_inv idm l t base s" "i < 512" "entry_step idm l t i (base + i * esz l) s s'"
    and "j < 512" "j \<noteq> i"
  shows "mem s' t j = mem s t j" "\<forall>p \<in> set (pages l (mem s) (mem s t j)). mem s' p = mem s p"
proof -
  show "mem s' t j = mem s t j" using assms(3,5) by (simp add: entry_step_def)
  show "\<forall>p \<in> set (pages l (mem s) (mem s t j)). mem s' p = mem s p"
  proof
    fix p
    assume "p \<in> set (pages l (mem s) (mem s t j))"
    then have p: "p \<in># other_pages l t i (mem s)" using assms(4,5) by (rule in_other_pages [rotated 2])
    have "own_ok (other_pages l t i (mem s) + (entry_pages l t i s + {#t#}))"
      using assms(1) by (simp add: table_inv_def all_pages_split [OF assms(2)] ac_simps)
    from own_ok_disjoint [OF this p] have "p \<noteq> t" "p \<notin># entry_pages l t i s" by auto
    then show "mem s' p = mem s p" using assms(3) by (simp add: entry_step_def)
  qed
qed

lemma entry_step_table:
  assumes "table_inv idm l t base s" "i < 512" "entry_step idm l t i (base + i * esz l) s s'"
  shows "table_step idm l t base s s'"
    "\<And>j a. j < 512 \<Longrightarrow> j \<noteq> i \<Longrightarrow> attr_at l (mem s') (mem s' t j) a = attr_at l (mem s) (mem s t j) a"
proof -
  note oth = entry_step_others [OF assms]
  show "attr_at l (mem s') (mem s' t j) a = attr_at l (mem s) (mem s t j) a" if "j < 512" "j \<noteq> i" for j a
    unfolding oth(1) [OF that] by (simp only: entry_frame(2) [OF oth(2) [OF that]])
  have pg: "pages l (mem s') (mem s' t j) = pages l (mem s) (mem s t j)" if "j < 512" "j \<noteq> i" for j
    unfolding oth(1) [OF that] by (rule entry_frame(1) [OF oth(2) [OF that]])
  have "other_pages l t i (mem s') = other_pages l t i (mem s)"
    unfolding other_pages_def using assms(2) pg
    by (intro arg_cong [of _ _ mset] arg_cong [of _ _ concat] map_cong refl) auto
  then have ap: "all_pages l t s' = all_pages l t s"
    using assms(3) by (simp add: all_pages_split [OF assms(2)] entry_step_def)
  have "pte_ok idm l (mem s') (base + j * esz l) (mem s' t j)" if "j < 512" for j
  proof (cases "j = i")
    case True
    then show ?thesis using assms(3) by (simp add: entry_step_def)
  next
    case False
    then have "pte_ok idm l (mem s') (base + j * esz l) (mem s t j) =
      pte_ok idm l (mem s) (base + j * esz l) (mem s t j)"
      using oth(2) that by (intro entry_frame(3)) auto
    then show ?thesis using oth(1) [OF that False] assms(1) that by (simp add: table_inv_def table_ok_def)
  qed
  then have "table_ok idm l (mem s') base t" by (simp add: table_ok_def)
  moreover have "p \<notin># all_pages l t s \<Longrightarrow> p \<notin># entry_pages l t i s" for p
    by (simp add: all_pages_split [OF assms(2)])
  ultimately show "table_step idm l t base s s'"
    using assms(3) ap unfolding table_step_def entry_step_def by auto
qed

lemma entry_pages_facts:
  assumes "entry_inv idm l t i base s"
  shows "\<forall>x \<in> set (pages l (mem s) (mem s t i)). pte_addr_ok x \<and> 0 < x \<and> x \<noteq> t"
    "\<And>x. x \<in># free_pages s \<Longrightarrow> pte_addr_ok x \<and> 0 < x \<and> x \<noteq> t \<and> x \<notin> set (pages l (mem s) (mem s t i))"
proof -
  let ?P = "mset (pages l (mem s) (mem s t i))"
  have o: "own_ok (?P + free_pages s + {#t#})"
    using assms by (simp add: entry_inv_def entry_pages_def)
  then have o1: "own_ok (?P + (free_pages s + {#t#}))" and o2: "own_ok (free_pages s + (?P + {#t#}))"
    by (simp_all add: ac_simps)
  show "\<forall>x \<in> set (pages l (mem s) (mem s t i)). pte_addr_ok x \<and> 0 < x \<and> x \<noteq> t"
    using own_ok_count [OF o1] own_ok_disjoint [OF o1] by auto
  show "pte_addr_ok x \<and> 0 < x \<and> x \<noteq> t \<and> x \<notin> set (pages l (mem s) (mem s t i))" if "x \<in># free_pages s" for x
    using own_ok_count [OF o2 that] own_ok_disjoint [OF o2 that] by auto
qed

lemma replace_entry_step:
  assumes "entry_inv idm l t i base s" "leaf_ok idm l base new"
  shows "\<exists>s'. mm_replace_entry env begin (t, i) new l flags vid s = Ret s' \<and>
    entry_step idm l t i base s s' \<and> mem s' t i = new"
proof -
  have "page_pool_ok (pool s)" using assms(1) by (simp add: entry_inv_def)
  from mm_replace_entry_spec [OF this entry_pages_facts(1) [OF assms(1)]]
  obtain s' where r: "mm_replace_entry env begin (t, i) new l flags vid s = Ret s'"
    and m: "mem s' = (mem s)(t := (mem s t)(i := new))" and p: "page_pool_ok (pool s')"
    and f: "free_pages s' = free_pages s + mset (pages l (mem s) (mem s t i))"
    by blast
  have "entry_step idm l t i base s s'"
    unfolding entry_step_def entry_pages_def m f
    using p leaf_simps [OF assms(2)] by simp
  with r m show ?thesis by auto
qed

section \<open>Populating an entry with a table\<close>

lemma populate_existing:
  assumes "arch_mm_pte_is_table (mem s t i) (Suc l)"
  shows "mm_populate_table_pte env begin (t, i) (Suc l) flags vid s =
    Ret (Some (sub_table (mem s t i) (Suc l)), s)"
  using assms by (simp add: mm_populate_table_pte_def sub_table_def Let_def)

lemma populate_full:
  assumes "\<not> arch_mm_pte_is_table (mem s t i) (Suc l)" "mpool_alloc (pool s) = (p, None)"
  shows "mm_populate_table_pte env begin (t, i) (Suc l) flags vid s = Ret (None, s)"
proof -
  have "p = pool s" using pool.alloc_None [OF assms(2)] by simp
  then show ?thesis
    using assms by (simp add: mm_populate_table_pte_def mm_alloc_page_tables_def Let_def del: and_then_eq_Ret)
qed

definition split_entries :: "u64 \<Rightarrow> nat \<Rightarrow> (nat \<Rightarrow> u64) \<Rightarrow> nat \<Rightarrow> u64" where
  "split_entries v l f = fill_entries 0 512
    (if arch_mm_pte_is_block v (Suc l)
     then arch_mm_block_pte l (arch_mm_block_from_pte v (Suc l)) (arch_mm_pte_attrs v (Suc l))
     else arch_mm_absent_pte l)
    (if arch_mm_pte_is_block v (Suc l) then mm_entry_size l else 0) f"

lemma populate_new:
  assumes "\<not> arch_mm_pte_is_table (mem s t i) (Suc l)" "mpool_alloc (pool s) = (p, Some nt)"
  shows "mm_populate_table_pte env begin (t, i) (Suc l) flags vid s =
    and_then (mm_replace_entry env begin (t, i) (arch_mm_table_pte (Suc l) nt) (Suc l) flags vid
      (init_table nt (split_entries (mem s t i) l (mem s nt)) (s\<lparr>pool := p\<rparr>)))
      (\<lambda>s. Ret (Some nt, s))"
  using assms
  by (simp add: mm_populate_table_pte_def mm_alloc_page_tables_def Let_def split_entries_def
      MM_PTE_PER_PAGE_def del: and_then_eq_Ret)

lemma populate_new_step:
  assumes inv: "entry_inv idm (Suc l) t i base s" and v: "\<not> arch_mm_pte_is_table (mem s t i) (Suc l)"
    and al: "mpool_alloc (pool s) = (p, Some nt)"
  shows "\<exists>s'. mm_populate_table_pte env begin (t, i) (Suc l) flags vid s = Ret (Some nt, s') \<and>
    entry_step idm (Suc l) t i base s s' \<and> mem s' t i = arch_mm_table_pte (Suc l) nt \<and>
    pte_addr_ok nt \<and> (\<forall>j<512. arch_mm_pte_attrs (mem s' nt j) l = arch_mm_pte_attrs (mem s t i) (Suc l) \<and>
      leaf_ok idm l (base + j * esz l) (mem s' nt j))"
proof -
  let ?v = "mem s t i" and ?f = "split_entries (mem s t i) l (mem s nt)"
  let ?s1 = "init_table nt ?f (s\<lparr>pool := p\<rparr>)"
  have pok: "page_pool_ok p" and av: "free_pages s = add_mset nt (mpool_avail p)"
    using pool.alloc_Some [of "pool s" p nt] al inv mpool_alloc_Some [of "pool s" p nt]
    by (auto simp: entry_inv_def page_pool_ok_def)
  have nt: "pte_addr_ok nt" "nt \<noteq> t" using entry_pages_facts(2) [OF inv, of nt] av by simp_all
  have leaf: "leaf_ok idm (Suc l) base ?v"
    using inv v not_table_simps(3) by (simp add: entry_inv_def)
  have f: "leaf_ok idm l (base + j * esz l) (?f j)" "arch_mm_pte_attrs (?f j) l = arch_mm_pte_attrs ?v (Suc l)"
    if "j < 512" for j
    unfolding split_entries_def using split_leaf [OF leaf that] by blast+
  have v1: "mem ?s1 t i = ?v" using nt by simp
  have pg: "pages (Suc l) (mem ?s1) (mem ?s1 t i) = []" using v unfolding v1 by simp
  have p1: "page_pool_ok (pool ?s1)" using pok by simp
  have "\<forall>x \<in> set (pages (Suc l) (mem ?s1) (mem ?s1 t i)). pte_addr_ok x \<and> 0 < x \<and> x \<noteq> t"
    unfolding pg by simp
  from mm_replace_entry_spec [OF p1 this, of env "begin" "arch_mm_table_pte (Suc l) nt" flags vid]
  obtain s' where r: "mm_replace_entry env begin (t, i) (arch_mm_table_pte (Suc l) nt) (Suc l) flags vid ?s1 = Ret s'"
    and m: "mem s' = (mem ?s1)(t := (mem ?s1 t)(i := arch_mm_table_pte (Suc l) nt))"
    and p': "page_pool_ok (pool s')" and fr: "free_pages s' = free_pages ?s1"
    unfolding pg by auto
  have mt: "mem s' t i = arch_mm_table_pte (Suc l) nt" and mn: "mem s' nt = ?f"
    using m nt by simp_all
  have tab: "arch_mm_pte_is_table (mem s' t i) (Suc l)" "sub_table (mem s' t i) (Suc l) = nt"
    unfolding mt using nt(1)
    by (simp_all add: arch.table_kind sub_table_def mm_page_table_from_pa_def arch.table_roundtrip)
  have leafs: "leaf_ok idm l (base + j * esz l) (mem s' nt j)" if "j < 512" for j
    unfolding mn using f that by simp
  have "table_pages l (mem s') nt = []"
    unfolding table_pages_def using leaf_simps(1) [OF leafs] by simp
  then have ep: "entry_pages (Suc l) t i s' = {#nt#} + mpool_avail p"
    using entry_pages_table [OF tab(1)] fr unfolding tab(2) by (simp add: all_pages_def)
  have es: "entry_pages (Suc l) t i s = {#nt#} + mpool_avail p"
    using v av by (simp add: entry_pages_def)
  have "table_ok idm l (mem s') base nt"
    unfolding table_ok_def using leaf_simps(3) [OF leafs] by simp
  then have ok: "pte_ok idm (Suc l) (mem s') base (mem s' t i)"
    unfolding pte_ok_table using tab mt by simp
  have "entry_step idm (Suc l) t i base s s'"
    unfolding entry_step_def es ep using p' ok m nt(2) by auto
  then show ?thesis
    using populate_new [OF v al, of env "begin" flags vid] r mt nt f leafs by (auto simp: mn)
qed

lemma populate_spec:
  assumes inv: "entry_inv idm (Suc l) t i base s"
  obtains (existing) "arch_mm_pte_is_table (mem s t i) (Suc l)"
      "mm_populate_table_pte env begin (t, i) (Suc l) flags vid s =
        Ret (Some (sub_table (mem s t i) (Suc l)), s)"
  | (full) "\<not> arch_mm_pte_is_table (mem s t i) (Suc l)"
      "mm_populate_table_pte env begin (t, i) (Suc l) flags vid s = Ret (None, s)"
  | (new) s' where "\<not> arch_mm_pte_is_table (mem s t i) (Suc l)"
      "mm_populate_table_pte env begin (t, i) (Suc l) flags vid s =
        Ret (Some (sub_table (mem s' t i) (Suc l)), s')"
      "entry_step idm (Suc l) t i base s s'" "arch_mm_pte_is_table (mem s' t i) (Suc l)"
      "\<forall>a. attr_at (Suc l) (mem s') (mem s' t i) a = attr_at (Suc l) (mem s) (mem s t i) a"
proof (cases "arch_mm_pte_is_table (mem s t i) (Suc l)")
  case True
  then show thesis using existing populate_existing by blast
next
  case False
  obtain p r where al: "mpool_alloc (pool s) = (p, r)" by fastforce
  show thesis
  proof (cases r)
    case None
    then show thesis using full False al populate_full by blast
  next
    case (Some nt)
    from populate_new_step [OF inv False al [unfolded Some]]
    obtain s' where r: "mm_populate_table_pte env begin (t, i) (Suc l) flags vid s = Ret (Some nt, s')"
      and st: "entry_step idm (Suc l) t i base s s'" and mt: "mem s' t i = arch_mm_table_pte (Suc l) nt"
      and nt: "pte_addr_ok nt"
      and lf: "\<forall>j<512. arch_mm_pte_attrs (mem s' nt j) l = arch_mm_pte_attrs (mem s t i) (Suc l) \<and>
        leaf_ok idm l (base + j * esz l) (mem s' nt j)"
      by blast
    have tab: "arch_mm_pte_is_table (mem s' t i) (Suc l)" "sub_table (mem s' t i) (Suc l) = nt"
      unfolding mt using nt
      by (simp_all add: arch.table_kind sub_table_def mm_page_table_from_pa_def arch.table_roundtrip)
    have "attr_at (Suc l) (mem s') (mem s' t i) a = attr_at (Suc l) (mem s) (mem s t i) a" for a
    proof -
      have "attr_at (Suc l) (mem s') (mem s' t i) a = attr_at l (mem s') (mem s' nt (mm_index a l)) a"
        using tab by simp
      also have "\<dots> = arch_mm_pte_attrs (mem s t i) (Suc l)"
        using lf leaf_simps(2) [of idm l "base + mm_index a l * esz l"] by simp
      finally show ?thesis using False by simp
    qed
    then show thesis using new [OF False _ st tab(1)] r tab(2) by simp
  qed
qed

end
