(* ===== verification/MM_Map.thy ===== *)
theory MM_Map
  imports MM_Step
begin

text \<open>
  Correctness of mapping and unmapping a range: \<open>mm_map_level\<close> of \<^verbatim>\<open>src/mm.c\<close> on one table. The
  attributes of the addresses in the range change and no others, the tables stay well formed,
  pages are neither lost nor used twice, and a commit that has been prepared succeeds.
\<close>

section \<open>What mapping a range means\<close>

text \<open>
  \<open>attr_claim\<close>: an address of the range has the new attributes, an address outside keeps its
  own; when the operation fails part of the range may still have its old ones, and without
  the commit flag nothing changes.
\<close>

definition attr_claim :: "bool \<Rightarrow> u64 \<Rightarrow> nat \<Rightarrow> nat \<Rightarrow> (u64 \<Rightarrow> u64) \<Rightarrow> (u64 \<Rightarrow> u64) \<Rightarrow> bool \<Rightarrow> u64 \<Rightarrow> bool" where
  "attr_claim commit nattr b f F F' ok a \<longleftrightarrow>
     (if commit \<and> b \<le> unat a \<and> unat a < f then F' a = nattr \<or> \<not> ok \<and> F' a = F a else F' a = F a)"

definition new_attr :: "u32 \<Rightarrow> u64 \<Rightarrow> u64" where
  "new_attr flags attrs = (if has flags MM_FLAG_UNMAP then 0 else attrs)"

text \<open>An entry that already is as wanted, and an entry that lies wholly in the range.\<close>

definition entry_done :: "u32 \<Rightarrow> u64 \<Rightarrow> nat \<Rightarrow> u64 \<Rightarrow> bool" where
  "entry_done flags attrs l pte \<longleftrightarrow>
     (if has flags MM_FLAG_UNMAP then \<not> arch_mm_pte_is_present pte l
      else arch_mm_pte_is_block pte l \<and> arch_mm_pte_attrs pte l = attrs)"

definition entry_whole :: "u32 \<Rightarrow> nat \<Rightarrow> nat \<Rightarrow> nat \<Rightarrow> nat \<Rightarrow> bool" where
  "entry_whole flags l base b f \<longleftrightarrow>
     b \<le> base \<and> base + esz l \<le> f \<and> (has flags MM_FLAG_UNMAP \<or> arch_mm_is_block_allowed l)"

text \<open>
  \<open>entry_ready\<close>: the tables a commit of the range needs below the entry are all there, so that
  the commit allocates nothing. This is what the prepare stage establishes.
\<close>

primrec entry_ready :: "nat \<Rightarrow> u32 \<Rightarrow> u64 \<Rightarrow> table_mem \<Rightarrow> nat \<Rightarrow> nat \<Rightarrow> nat \<Rightarrow> u64 \<Rightarrow> bool" where
  "entry_ready 0 flags attrs m base b f pte \<longleftrightarrow> entry_done flags attrs 0 pte \<or> entry_whole flags 0 base b f"
| "entry_ready (Suc l) flags attrs m base b f pte \<longleftrightarrow>
     entry_done flags attrs (Suc l) pte \<or> entry_whole flags (Suc l) base b f \<or>
     arch_mm_pte_is_table pte (Suc l) \<and>
       (\<forall>i \<in> set [0..<512]. b < base + (i + 1) * esz l \<and> base + i * esz l < f \<longrightarrow>
          entry_ready l flags attrs m (base + i * esz l) b f (m (sub_table pte (Suc l)) i))"

definition table_ready :: "nat \<Rightarrow> u32 \<Rightarrow> u64 \<Rightarrow> table_mem \<Rightarrow> nat \<Rightarrow> nat \<Rightarrow> nat \<Rightarrow> u64 \<Rightarrow> bool" where
  "table_ready l flags attrs m base b f t \<longleftrightarrow>
     (\<forall>i \<in> set [0..<512]. b < base + (i + 1) * esz l \<and> base + i * esz l < f \<longrightarrow>
        entry_ready l flags attrs m (base + i * esz l) b f (m t i))"

lemma entry_ready_table:
  "entry_ready (Suc l) flags attrs m base b f pte \<longleftrightarrow>
     entry_done flags attrs (Suc l) pte \<or> entry_whole flags (Suc l) base b f \<or>
     arch_mm_pte_is_table pte (Suc l) \<and> table_ready l flags attrs m base b f (sub_table pte (Suc l))"
  by (simp add: table_ready_def)

lemma entry_ready_cases: "entry_ready l flags attrs m base b f pte \<Longrightarrow>
    entry_done flags attrs l pte \<or> entry_whole flags l base b f \<or> arch_mm_pte_is_table pte l"
  by (cases l) auto

lemma entry_ready_whole:
  "entry_done flags attrs l pte \<or> entry_whole flags l base b f \<Longrightarrow> entry_ready l flags attrs m base b f pte"
  by (cases l) auto

lemma entry_ready_frame:
  "\<forall>p \<in> set (pages l m pte). m' p = m p \<Longrightarrow>
    entry_ready l flags attrs m' base b f pte = entry_ready l flags attrs m base b f pte"
proof (induction l arbitrary: pte base)
  case 0
  then show ?case by simp
next
  case (Suc l)
  show ?case
  proof (cases "arch_mm_pte_is_table pte (Suc l)")
    case False
    then show ?thesis by simp
  next
    case True
    let ?t = "sub_table pte (Suc l)"
    have t: "m' ?t = m ?t" using Suc.prems True by simp
    have "entry_ready l flags attrs m' (base + i * esz l) b f (m ?t i) =
      entry_ready l flags attrs m (base + i * esz l) b f (m ?t i)" if "i < 512" for i
      using that Suc.prems True by (intro Suc.IH) auto
    then show ?thesis using True t by simp
  qed
qed

lemma entry_ready_begin:
  assumes "b \<le> base" "b' \<le> base"
  shows "entry_ready l flags attrs m base b f pte = entry_ready l flags attrs m base b' f pte"
  using assms
proof (induction l arbitrary: pte base)
  case 0
  then show ?case by (simp add: entry_whole_def)
next
  case (Suc l)
  have "entry_ready l flags attrs m (base + i * esz l) b f q = entry_ready l flags attrs m (base + i * esz l) b' f q" for i q
    using Suc.prems by (intro Suc.IH) auto
  moreover have "b < base + (i + 1) * esz l" "b' < base + (i + 1) * esz l" for i
  proof -
    have "0 < (i + 1) * esz l" by simp
    then show "b < base + (i + 1) * esz l" "b' < base + (i + 1) * esz l"
      using Suc.prems by linarith+
  qed
  ultimately show ?case using Suc.prems by (simp add: entry_whole_def)
qed

text \<open>The results of mapping in one entry, and in one table.\<close>

definition entry_result ::
  "bool \<Rightarrow> nat \<Rightarrow> u64 \<Rightarrow> nat \<Rightarrow> nat \<Rightarrow> u32 \<Rightarrow> u64 \<Rightarrow> nat \<Rightarrow> nat \<Rightarrow> mm_state \<Rightarrow> bool \<Rightarrow> mm_state \<Rightarrow> bool" where
  "entry_result idm l t i base flags attrs b f s ok s' \<longleftrightarrow>
     entry_step idm l t i base s s' \<and>
     (\<forall>a. base \<le> unat a \<and> unat a < base + esz l \<longrightarrow>
        attr_claim (has flags MM_FLAG_COMMIT) (new_attr flags attrs) b f
          (attr_at l (mem s) (mem s t i)) (attr_at l (mem s') (mem s' t i)) ok a) \<and>
     (\<not> has flags MM_FLAG_COMMIT \<and> ok \<longrightarrow>
        entry_ready l flags attrs (mem s') base b f (mem s' t i)) \<and>
     (entry_ready l flags attrs (mem s) base b f (mem s t i) \<longrightarrow> ok)"

definition table_result ::
  "bool \<Rightarrow> nat \<Rightarrow> u64 \<Rightarrow> nat \<Rightarrow> u32 \<Rightarrow> u64 \<Rightarrow> nat \<Rightarrow> nat \<Rightarrow> mm_state \<Rightarrow> bool \<Rightarrow> mm_state \<Rightarrow> bool" where
  "table_result idm l t base flags attrs b f s ok s' \<longleftrightarrow>
     table_step idm l t base s s' \<and>
     (\<forall>a. base \<le> unat a \<and> unat a < base + esz (Suc l) \<longrightarrow>
        attr_claim (has flags MM_FLAG_COMMIT) (new_attr flags attrs) b f
          (table_attr l (mem s) t) (table_attr l (mem s') t) ok a) \<and>
     (\<not> has flags MM_FLAG_COMMIT \<and> ok \<longrightarrow> table_ready l flags attrs (mem s') base b f t) \<and>
     (table_ready l flags attrs (mem s) base b f t \<longrightarrow> ok)"

lemma attr_claim_same: "attr_claim False nattr b f F F ok a" "attr_claim c nattr b f F F False a"
  "\<not> (b \<le> unat a \<and> unat a < f) \<Longrightarrow> attr_claim c nattr b f F F ok a"
  by (auto simp: attr_claim_def)

text \<open>An entry that is a table is mapped by mapping in that table.\<close>

lemma table_result_entry:
  assumes inv: "entry_inv idm (Suc l) t i base s" and tab: "arch_mm_pte_is_table (mem s t i) (Suc l)"
    and nd: "\<not> entry_done flags attrs (Suc l) (mem s t i)" "\<not> entry_whole flags (Suc l) base b f"
    and r: "table_result idm l (sub_table (mem s t i) (Suc l)) base flags attrs b f s ok s'"
  shows "entry_result idm (Suc l) t i base flags attrs b f s ok s'"
proof -
  let ?n = "sub_table (mem s t i) (Suc l)"
  have st: "entry_step idm (Suc l) t i base s s'" "mem s' t = mem s t"
    using table_step_entry [OF inv tab] r by (simp_all add: table_result_def)
  have a: "attr_at (Suc l) (mem s) (mem s t i) = table_attr l (mem s) ?n"
    "attr_at (Suc l) (mem s') (mem s' t i) = table_attr l (mem s') ?n"
    using tab by (simp_all add: fun_eq_iff table_attr_def st(2))
  have rd: "entry_ready (Suc l) flags attrs m base b f (mem s t i) =
    table_ready l flags attrs m base b f ?n" for m
    unfolding entry_ready_table using tab nd by simp
  show ?thesis
    unfolding entry_result_def a unfolding st(2) rd
    using st(1) r by (simp add: table_result_def)
qed

section \<open>Mapping in one entry\<close>

lemma whole_iff:
  assumes "l \<le> 3" "esz l dvd base" "base \<le> unat begin" "unat begin < base + esz l" "begin < fin"
  shows "fin - begin \<ge> mm_entry_size l \<and> (has flags MM_FLAG_UNMAP \<or> arch_mm_is_block_allowed l) \<and>
    begin AND (mm_entry_size l - 1) = 0 \<longleftrightarrow> entry_whole flags l base (unat begin) (unat fin)"
proof -
  have "unat (fin - begin) = unat fin - unat begin" using assms(5) by (intro unat_sub) simp
  then have ge: "fin - begin \<ge> mm_entry_size l \<longleftrightarrow> unat begin + esz l \<le> unat fin"
    using assms(1,5) by (auto simp: word_le_nat_alt word_less_nat_alt)
  have al: "begin AND (mm_entry_size l - 1) = 0 \<longleftrightarrow> unat begin \<le> base"
  proof -
    obtain k where k: "base = esz l * k" using assms(2) by (auto elim: dvdE)
    have "esz l dvd unat begin \<longleftrightarrow> unat begin = base"
    proof
      assume "esz l dvd unat begin"
      then have "esz l dvd unat begin - base" using assms(2) by (rule dvd_diff_nat)
      moreover have "unat begin - base < esz l" using assms(3,4) by linarith
      ultimately have "unat begin - base = 0" by (meson dvd_imp_le not_less gr0I)
      then show "unat begin = base" using assms(3) by simp
    qed (use assms(2) in simp)
    then show ?thesis using assms(1,3) by (auto simp: aligned_iff)
  qed
  show ?thesis unfolding ge al entry_whole_def using assms(3) by auto
qed

lemma table_not_done: "arch_mm_pte_is_table pte l \<Longrightarrow> \<not> entry_done flags attrs l pte"
  using arch.table_present arch.kinds_disjoint by (auto simp: entry_done_def)

lemma entry_done_attr:
  assumes "pte_ok idm l m base pte" "entry_done flags attrs l pte"
  shows "attr_at l m pte a = new_attr flags attrs"
proof -
  have nt: "\<not> arch_mm_pte_is_table pte l" using assms(2) table_not_done by blast
  then have "leaf_ok idm l base pte" using assms(1) by (simp add: not_table_simps(3))
  then have "\<not> arch_mm_pte_is_present pte l \<Longrightarrow> arch_mm_pte_attrs pte l = 0"
    using leaf_absent_attrs arch.absent_attrs by metis
  then show ?thesis
    using assms(2) nt by (auto simp: not_table_simps(2) entry_done_def new_attr_def split: if_splits)
qed

lemma map_entry_done:
  assumes "entry_inv idm l t i base s" "entry_done flags attrs l (mem s t i)"
  shows "entry_result idm l t i base flags attrs b f s True s"
  unfolding entry_result_def
  using entry_step_refl [OF assms(1)] entry_ready_whole [of flags attrs l "mem s t i"] assms
    entry_done_attr [of idm l "mem s" base "mem s t i" flags attrs]
  by (simp add: attr_claim_def entry_inv_def)

definition new_leaf :: "u32 \<Rightarrow> u64 \<Rightarrow> nat \<Rightarrow> u64 \<Rightarrow> u64" where
  "new_leaf flags attrs l pa =
     (if has flags MM_FLAG_UNMAP then arch_mm_absent_pte l else arch_mm_block_pte l pa attrs)"

lemma new_leaf_ok:
  assumes "entry_whole flags l (unat pa) b f" "esz l dvd unat pa" "pte_addr_ok pa"
    "has flags MM_FLAG_UNMAP \<or> pte_attrs_ok attrs"
  shows "leaf_ok idm l (unat pa) (new_leaf flags attrs l pa)"
    "arch_mm_pte_attrs (new_leaf flags attrs l pa) l = new_attr flags attrs"
  using assms
  by (auto simp: new_leaf_def new_attr_def entry_whole_def leaf_absent arch.absent_attrs
      arch.block_roundtrip intro: leaf_blockI)

lemma map_entry_whole:
  assumes inv: "entry_inv idm l t i (unat pa) s" and w: "entry_whole flags l (unat pa) b f"
    and pa: "esz l dvd unat pa" "pte_addr_ok pa"
    and at: "has flags MM_FLAG_UNMAP \<or> pte_attrs_ok attrs" and c: "has flags MM_FLAG_COMMIT"
  shows "\<exists>s'. mm_replace_entry env begin (t, i) (new_leaf flags attrs l pa) l flags vid s = Ret s' \<and>
    entry_result idm l t i (unat pa) flags attrs b f s True s'"
proof -
  note nl = new_leaf_ok(1) [OF w pa at, of idm] new_leaf_ok(2) [OF w pa at]
  obtain s' where r: "mm_replace_entry env begin (t, i) (new_leaf flags attrs l pa) l flags vid s = Ret s'"
    and st: "entry_step idm l t i (unat pa) s s'" and m: "mem s' t i = new_leaf flags attrs l pa"
    using replace_entry_step [OF inv nl(1)] by blast
  have "attr_at l (mem s') (mem s' t i) a = new_attr flags attrs" for a
    unfolding m leaf_simps(2) [OF nl(1)] nl(2) ..
  with w have "entry_result idm l t i (unat pa) flags attrs b f s True s'"
    unfolding entry_result_def using st c by (auto simp: attr_claim_def entry_whole_def)
  with r show ?thesis by blast
qed

lemma page_whole:
  assumes "esz 0 dvd base" "base \<le> unat begin" "unat begin < base + esz 0" "begin < fin"
    "4096 dvd unat begin" "4096 dvd unat fin"
  shows "entry_whole flags 0 base (unat begin) (unat fin)"
proof -
  obtain j k n where "base = 4096 * j" "unat begin = 4096 * k" "unat fin = 4096 * n"
    using assms(1,5,6) by (auto simp: esz_0 elim!: dvdE)
  moreover from this have "k = j" "j < n" using assms(2-4) by (auto simp: esz_0 word_less_nat_alt)
  ultimately show ?thesis by (simp add: entry_whole_def esz_0 arch.allowed_0)
qed

lemma entry_result_pre:
  assumes "entry_step idm l t i base s s'"
    "\<forall>a. attr_at l (mem s') (mem s' t i) a = attr_at l (mem s) (mem s t i) a"
    "\<not> entry_ready l flags attrs (mem s) base b f (mem s t i)"
    "entry_result idm l t i base flags attrs b f s' ok s''"
  shows "entry_result idm l t i base flags attrs b f s ok s''"
proof -
  have "attr_at l (mem s') (mem s' t i) = attr_at l (mem s) (mem s t i)" using assms(2) by (simp add: fun_eq_iff)
  then show ?thesis
    using assms(3,4) entry_step_trans [OF assms(1)] unfolding entry_result_def by simp
qed

lemma map_entry_spec:
  assumes inv: "entry_inv idm l t i base s" and l: "l \<le> 3" "esz l dvd base"
    and bg: "base \<le> unat begin" "unat begin < base + esz l" "begin < fin"
    and pg: "4096 dvd unat begin" "4096 dvd unat fin" "unat fin \<le> 2 ^ 48"
    and at: "has flags MM_FLAG_UNMAP \<or> pte_attrs_ok attrs"
    and IH: "\<And>k nt s1. l = Suc k \<Longrightarrow> table_inv idm k nt base s1 \<Longrightarrow>
      \<exists>ok s'. below begin fin begin nt s1 = Ret (ok, s') \<and>
        table_result idm k nt base flags attrs (unat begin) (unat fin) s1 ok s'"
  shows "\<exists>ok s'. map_entry below env attrs l flags vid t i begin fin begin s = Ret (ok, s') \<and>
    entry_result idm l t i base flags attrs (unat begin) (unat fin) s ok s'"
proof -
  note wh = whole_iff [OF l bg, of flags]
  have run: "map_entry below env attrs l flags vid t i begin fin begin s =
    (if entry_done flags attrs l (mem s t i) then Ret (True, s)
     else if entry_whole flags l base (unat begin) (unat fin)
     then (if has flags MM_FLAG_COMMIT
           then and_then (mm_replace_entry env begin (t, i) (new_leaf flags attrs l begin) l flags vid s)
             (\<lambda>s. Ret (True, s))
           else Ret (True, s))
     else if l = 0 then Undef
     else and_then (mm_populate_table_pte env begin (t, i) l flags vid s)
       (\<lambda>(nt, s). case nt of None \<Rightarrow> Ret (False, s) | Some nt \<Rightarrow> below begin fin begin nt s))"
    unfolding map_entry_def Let_def wh entry_done_def new_leaf_def ..
  consider (fine) "entry_done flags attrs l (mem s t i)"
    | (whole) "\<not> entry_done flags attrs l (mem s t i)" "entry_whole flags l base (unat begin) (unat fin)"
    | (part) k where "l = Suc k" "\<not> entry_done flags attrs l (mem s t i)"
        "\<not> entry_whole flags l base (unat begin) (unat fin)"
    using page_whole [of base "begin" fin flags] l(2) bg pg by (cases l) auto
  then show ?thesis
  proof cases
    case fine
    then show ?thesis using map_entry_done [OF inv fine] run by auto
  next
    case whole
    have b: "unat begin = base" using whole(2) bg(1) by (simp add: entry_whole_def)
    have "unat begin < 2 ^ 48" using bg(3) pg(3) by (simp add: word_less_nat_alt)
    then have "pte_addr_ok begin" using pg(1) by (simp add: pte_addr_ok_unat)
    note w = map_entry_whole [of idm l t i "begin" s flags "unat begin" "unat fin" attrs env "begin" vid,
        OF inv [folded b] whole(2) [folded b] l(2) [folded b] this at]
    show ?thesis
    proof (cases "has flags MM_FLAG_COMMIT")
      case True
      from w [OF this] True whole b show ?thesis unfolding run by auto
    next
      case False
      have "entry_result idm l t i base flags attrs (unat begin) (unat fin) s True s"
        unfolding entry_result_def
        using False entry_step_refl [OF inv] entry_ready_whole [of flags attrs l "mem s t i" base] whole
        by (simp add: attr_claim_def)
      then show ?thesis using False whole unfolding run by auto
    qed
  next
    case (part k)
    have run': "map_entry below env attrs l flags vid t i begin fin begin s =
      and_then (mm_populate_table_pte env begin (t, i) (Suc k) flags vid s)
       (\<lambda>(nt, s). case nt of None \<Rightarrow> Ret (False, s) | Some nt \<Rightarrow> below begin fin begin nt s)"
      unfolding run using part by simp
    note inv' = inv [unfolded part(1)] and nd = part(2,3) [unfolded part(1)]
    show ?thesis
      using inv'
    proof (cases rule: populate_spec [of idm k t i base s env "begin" flags vid])
      case existing
      obtain ok s' where r: "below begin fin begin (sub_table (mem s t i) (Suc k)) s = Ret (ok, s')"
        and tr: "table_result idm k (sub_table (mem s t i) (Suc k)) base flags attrs (unat begin) (unat fin) s ok s'"
        using IH [OF part(1) entry_inv_table(1) [OF inv' existing(1)]] by blast
      show ?thesis
        using table_result_entry [OF inv' existing(1) nd tr] r existing(2) part(1) unfolding run' by auto
    next
      case full
      have "\<not> entry_ready (Suc k) flags attrs (mem s) base (unat begin) (unat fin) (mem s t i)"
        using entry_ready_cases nd full(1) by blast
      then have "entry_result idm (Suc k) t i base flags attrs (unat begin) (unat fin) s False s"
        unfolding entry_result_def using entry_step_refl [OF inv'] by (simp add: attr_claim_def)
      then show ?thesis using full(2) part(1) unfolding run' by auto
    next
      case (new s')
      have i': "entry_inv idm (Suc k) t i base s'" by (rule entry_step_inv [OF inv' new(3)])
      obtain ok s'' where r: "below begin fin begin (sub_table (mem s' t i) (Suc k)) s' = Ret (ok, s'')"
        and tr: "table_result idm k (sub_table (mem s' t i) (Suc k)) base flags attrs (unat begin) (unat fin) s' ok s''"
        using IH [OF part(1) entry_inv_table(1) [OF i' new(4)]] by blast
      have "\<not> entry_ready (Suc k) flags attrs (mem s) base (unat begin) (unat fin) (mem s t i)"
        using entry_ready_cases nd new(1) by blast
      from entry_result_pre [OF new(3,5) this table_result_entry [OF i' new(4) table_not_done [OF new(4)] nd(2) tr]]
      show ?thesis using r new(2) part(1) unfolding run' by auto
    qed
  qed
qed

section \<open>Mapping in one table\<close>

definition entries_kept :: "nat \<Rightarrow> u64 \<Rightarrow> nat \<Rightarrow> mm_state \<Rightarrow> mm_state \<Rightarrow> bool" where
  "entries_kept l t i s s' \<longleftrightarrow>
     (\<forall>j<i. mem s' t j = mem s t j \<and> (\<forall>p \<in> set (pages l (mem s) (mem s t j)). mem s' p = mem s p))"

lemma entries_kept_trans:
  assumes "entries_kept l t i s s'" "entries_kept l t i s' s''"
  shows "entries_kept l t i s s''"
  unfolding entries_kept_def
proof (intro allI impI conjI ballI)
  fix j
  assume j: "j < i"
  have m: "mem s' t j = mem s t j" "\<forall>p \<in> set (pages l (mem s) (mem s t j)). mem s' p = mem s p"
    using assms(1) j by (auto simp: entries_kept_def)
  show "mem s'' t j = mem s t j" using assms j by (simp add: entries_kept_def)
  fix p
  assume p: "p \<in> set (pages l (mem s) (mem s t j))"
  then have "p \<in> set (pages l (mem s') (mem s' t j))" unfolding m(1) entry_frame(1) [OF m(2)] .
  then show "mem s'' p = mem s p" using assms(2) j m(2) p by (simp add: entries_kept_def)
qed

lemma entries_kept_step:
  assumes "table_inv idm l t base s" "i < 512" "entry_step idm l t i (base + i * esz l) s s'"
  shows "entries_kept l t i s s'"
  unfolding entries_kept_def
proof (intro allI impI conjI)
  fix j
  assume "j < i"
  then have "j < 512" "j \<noteq> i" using assms(2) by simp_all
  from entry_step_others [OF assms this]
  show "mem s' t j = mem s t j" "\<forall>p \<in> set (pages l (mem s) (mem s t j)). mem s' p = mem s p" .
qed

lemma entries_kept_less: "entries_kept l t (Suc i) s s' \<Longrightarrow> entries_kept l t i s s'"
  unfolding entries_kept_def using less_SucI by blast

text \<open>An address of a table and the entry that holds it.\<close>

lemma table_attr_entry:
  assumes "esz (Suc l) dvd B" "B \<le> unat a" "unat a < B + esz (Suc l)"
  obtains i where "i < 512" "B + i * esz l \<le> unat a" "unat a < B + (i + 1) * esz l"
    "\<And>m. table_attr l m t a = attr_at l m (m t i) a"
proof
  have a: "unat a < B + 512 * esz l" using assms(3) by (simp add: esz_Suc)
  show "mm_index a l < 512" by simp
  show "B + mm_index a l * esz l \<le> unat a" "unat a < B + (mm_index a l + 1) * esz l"
    using table_position [OF assms(1,2) a] by simp_all
  show "table_attr l m t a = attr_at l m (m t (mm_index a l)) a" for m
    by (simp add: table_attr_def)
qed

lemma entry_before:
  fixes i j e :: nat
  assumes "B + j * e \<le> x" "x < B + (i + 1) * e"
  shows "j \<le> i"
proof -
  have "j * e < (i + 1) * e" using assms by linarith
  then have "j < i + 1" by (simp only: mult_less_cancel2)
  then show ?thesis by simp
qed

lemma attr_claim_combine:
  assumes inv: "table_inv idm l t B s" and al: "esz (Suc l) dvd B" and i: "i < 512"
    and bg: "B + i * esz l \<le> b" "b < B + (i + 1) * esz l"
    and e: "entry_result idm l t i (B + i * esz l) flags attrs b f s ok1 s1"
    and r: "\<And>a. B \<le> unat a \<Longrightarrow> unat a < B + esz (Suc l) \<Longrightarrow>
      attr_claim (has flags MM_FLAG_COMMIT) (new_attr flags attrs) (B + (i + 1) * esz l) f
          (table_attr l (mem s1) t) (table_attr l (mem s2) t) ok a"
    and ok: "ok \<Longrightarrow> ok1"
    and a: "B \<le> unat a" "unat a < B + esz (Suc l)"
  shows "attr_claim (has flags MM_FLAG_COMMIT) (new_attr flags attrs) b f
          (table_attr l (mem s) t) (table_attr l (mem s2) t) ok a"
proof -
  obtain j where j: "j < 512" "B + j * esz l \<le> unat a" "unat a < B + (j + 1) * esz l"
    and at: "\<And>m. table_attr l m t a = attr_at l m (m t j) a"
    using table_attr_entry [OF al a, of t] by blast
  have st: "entry_step idm l t i (B + i * esz l) s s1" using e by (simp add: entry_result_def)
  have r': "attr_claim (has flags MM_FLAG_COMMIT) (new_attr flags attrs) (B + (i + 1) * esz l) f
          (table_attr l (mem s1) t) (table_attr l (mem s2) t) ok a" by (rule r [OF a])
  show ?thesis
  proof (cases "j = i")
    case True
    have "attr_claim (has flags MM_FLAG_COMMIT) (new_attr flags attrs) b f
          (attr_at l (mem s) (mem s t i)) (attr_at l (mem s1) (mem s1 t i)) ok1 a"
      using e j True by (simp add: entry_result_def add_ac)
    moreover have "table_attr l (mem s2) t a = table_attr l (mem s1) t a"
      using r' j True by (simp add: attr_claim_def)
    ultimately show ?thesis using ok unfolding attr_claim_def at True by auto
  next
    case False
    have same: "table_attr l (mem s1) t a = table_attr l (mem s) t a"
      unfolding at using entry_step_table(2) [OF inv i st j(1) False] .
    have "(b \<le> unat a) = (B + (i + 1) * esz l \<le> unat a)"
    proof
      assume "b \<le> unat a"
      then have "i \<le> j" using entry_before [of B i "esz l" "unat a" j] bg j by linarith
      then have "(i + 1) * esz l \<le> j * esz l" using False by (intro mult_le_mono1) simp
      then show "B + (i + 1) * esz l \<le> unat a" using j by linarith
    qed (use bg in linarith)
    then show ?thesis using r' unfolding attr_claim_def same by simp
  qed
qed

lemma ready_entries_kept:
  assumes "entries_kept l t (Suc i) s1 s2" "j \<le> i"
  shows "entry_ready l flags attrs (mem s2) base b f (mem s2 t j) =
    entry_ready l flags attrs (mem s1) base b f (mem s1 t j)"
proof -
  have "mem s2 t j = mem s1 t j" "\<forall>p \<in> set (pages l (mem s1) (mem s1 t j)). mem s2 p = mem s1 p"
    using assms(1) le_imp_less_Suc [OF assms(2)] unfolding entries_kept_def by blast+
  then show ?thesis by (simp add: entry_ready_frame)
qed

lemma ready_entries_step:
  assumes "table_inv idm l t base s" "i < 512" "entry_step idm l t i (base + i * esz l) s s1" "j < 512" "j \<noteq> i"
  shows "entry_ready l flags attrs (mem s1) bs b f (mem s1 t j) =
    entry_ready l flags attrs (mem s) bs b f (mem s t j)"
  using entry_step_others [OF assms] entry_ready_frame [of l "mem s" "mem s t j" "mem s1"] by simp

lemma table_ready_combine:
  assumes i: "i < 512" and bg: "B + i * esz l \<le> b" "b < B + (i + 1) * esz l"
    and e: "entry_ready l flags attrs (mem s1) (B + i * esz l) b f (mem s1 t i)"
    and r: "table_ready l flags attrs (mem s2) B (B + (i + 1) * esz l) f t"
    and k: "entries_kept l t (Suc i) s1 s2"
  shows "table_ready l flags attrs (mem s2) B b f t"
  unfolding table_ready_def
proof (intro ballI impI)
  fix j
  assume j: "j \<in> set [0..<512]" and jr: "b < B + (j + 1) * esz l \<and> B + j * esz l < f"
  have "i \<le> j" using entry_before [of B i "esz l" b j] bg jr by linarith
  show "entry_ready l flags attrs (mem s2) (B + j * esz l) b f (mem s2 t j)"
  proof (cases "j = i")
    case True
    then show ?thesis using e ready_entries_kept [OF k, of i] by simp
  next
    case False
    then have ij: "(i + 1) * esz l \<le> j * esz l" using \<open>i \<le> j\<close> by (intro mult_le_mono1) simp
    have "B + (i + 1) * esz l < B + (j + 1) * esz l" using ij esz_pos [of l] unfolding add_mult_distrib mult_1 by linarith
    then have "entry_ready l flags attrs (mem s2) (B + j * esz l) (B + (i + 1) * esz l) f (mem s2 t j)"
      using r j jr by (simp add: table_ready_def)
    moreover have "b \<le> B + j * esz l" "B + (i + 1) * esz l \<le> B + j * esz l" using ij bg by linarith+
    ultimately show ?thesis using entry_ready_begin by blast
  qed
qed

lemma table_ready_split:
  assumes inv: "table_inv idm l t B s" and i: "i < 512" and bg: "B + i * esz l \<le> b" "b < B + (i + 1) * esz l"
    and r: "table_ready l flags attrs (mem s) B b f t"
  shows "B + i * esz l < f \<Longrightarrow> entry_ready l flags attrs (mem s) (B + i * esz l) b f (mem s t i)"
    "entry_step idm l t i (B + i * esz l) s s1 \<Longrightarrow> table_ready l flags attrs (mem s1) B (B + (i + 1) * esz l) f t"
proof -
  show "entry_ready l flags attrs (mem s) (B + i * esz l) b f (mem s t i)" if "B + i * esz l < f"
    using r i bg that by (simp add: table_ready_def)
  assume st: "entry_step idm l t i (B + i * esz l) s s1"
  show "table_ready l flags attrs (mem s1) B (B + (i + 1) * esz l) f t"
    unfolding table_ready_def
  proof (intro ballI impI)
    fix j
    assume j: "j \<in> set [0..<512]" and jr: "B + (i + 1) * esz l < B + (j + 1) * esz l \<and> B + j * esz l < f"
    then have "(i + 1) * esz l < (j + 1) * esz l" by linarith
    then have ij: "i < j" by simp
    then have le: "(i + 1) * esz l \<le> j * esz l" by (intro mult_le_mono1) simp
    have "b < B + (j + 1) * esz l" using bg jr by linarith
    then have "entry_ready l flags attrs (mem s) (B + j * esz l) b f (mem s t j)"
      using r j jr by (simp add: table_ready_def)
    moreover have "b \<le> B + j * esz l" "B + (i + 1) * esz l \<le> B + j * esz l" using le bg by linarith+
    ultimately have "entry_ready l flags attrs (mem s) (B + j * esz l) (B + (i + 1) * esz l) f (mem s t j)"
      using entry_ready_begin by blast
    then show "entry_ready l flags attrs (mem s1) (B + j * esz l) (B + (i + 1) * esz l) f (mem s1 t j)"
      using ready_entries_step [OF inv i st, of j] j ij by simp
  qed
qed

lemma pa_next: "mm_pa_start_of_next_block = mm_start_of_next_block"
  by (simp add: fun_eq_iff mm_pa_start_of_next_block_def mm_start_of_next_block_def)

lemma next_in_table:
  assumes "l \<le> 3" "esz l dvd B" "B + i * esz l \<le> unat bg" "unat bg < B + (i + 1) * esz l" "unat bg < 2 ^ 48"
  shows "unat (mm_start_of_next_block bg (mm_entry_size l)) = B + (i + 1) * esz l"
proof -
  obtain k where k: "B = esz l * k" using assms(2) by (auto elim: dvdE)
  have "unat bg div esz l = k + i"
  proof (rule div_nat_eqI)
    show "esz l * (k + i) \<le> unat bg" using assms(3) k by (simp add: algebra_simps)
    show "unat bg < esz l * Suc (k + i)" using assms(4) k by (simp add: algebra_simps)
  qed
  moreover have "unat bg + esz l < 2 ^ 64"
  proof -
    have "esz l \<le> 2 ^ 48" using assms(1) by (intro esz_le_48) simp
    with assms(5) have "unat bg + esz l < 2 ^ 48 + 2 ^ 48" by (rule add_less_le_mono)
    also have "\<dots> < 2 ^ 64" by simp
    finally show ?thesis .
  qed
  ultimately show ?thesis using assms(1) k by (simp add: next_block_unat algebra_simps)
qed

text \<open>The position of the loop at entry \<open>i\<close>: inside it while there is something left to do.\<close>

definition at_entry :: "nat \<Rightarrow> nat \<Rightarrow> nat \<Rightarrow> u64 \<Rightarrow> u64 \<Rightarrow> bool" where
  "at_entry l B i bg fin \<longleftrightarrow>
     (if bg < fin then i < 512 \<and> B + i * esz l \<le> unat bg \<and> unat bg < B + (i + 1) * esz l
      else unat bg = B + i * esz l) \<and> 4096 dvd unat bg"

lemma at_entry_next:
  assumes "l \<le> 3" "esz (Suc l) dvd B" "bg < fin" "at_entry l B i bg fin"
    "unat fin \<le> B + esz (Suc l)" "unat fin \<le> 2 ^ 48"
  shows "unat (mm_start_of_next_block bg (mm_entry_size l)) = B + (i + 1) * esz l"
    "at_entry l B (i + 1) (mm_start_of_next_block bg (mm_entry_size l)) fin"
proof -
  let ?n = "mm_start_of_next_block bg (mm_entry_size l)"
  have d: "esz l dvd B" by (rule dvd_trans [OF esz_dvd assms(2)]) simp
  have i: "i < 512" "B + i * esz l \<le> unat bg" "unat bg < B + (i + 1) * esz l"
    using assms(3,4) by (simp_all add: at_entry_def)
  have "unat bg < 2 ^ 48" using assms(3,6) by (simp add: word_less_nat_alt)
  from next_in_table [OF assms(1) d i(2,3) this] show n: "unat ?n = B + (i + 1) * esz l" .
  have "4096 dvd esz l" using esz_dvd [of 0 l] by (simp add: esz_0)
  then have "4096 dvd unat ?n" unfolding n using d by (intro dvd_add dvd_mult) (auto intro: dvd_trans)
  moreover have "i + 1 < 512" if "?n < fin"
  proof -
    have "B + (i + 1) * esz l < B + esz (Suc l)" using that assms(5) n by (simp add: word_less_nat_alt)
    then have "(i + 1) * esz l < 512 * esz l" unfolding esz_Suc by linarith
    then show ?thesis by (simp only: mult_less_cancel2)
  qed
  moreover have "B + (i + 1) * esz l < B + (i + 1 + 1) * esz l" by simp
  ultimately show "at_entry l B (i + 1) ?n fin" by (auto simp: at_entry_def n)
qed

lemma table_ready_empty:
  assumes "unat bg = B + i * esz l" "\<not> bg < fin"
  shows "table_ready l flags attrs m B (unat bg) (unat fin) t"
  unfolding table_ready_def
proof (intro ballI impI)
  fix j
  assume j: "unat bg < B + (j + 1) * esz l \<and> B + j * esz l < unat fin"
  then have "i \<le> j" using assms(1) entry_before [of B i "esz l" "unat bg" j] by simp
  then have "i * esz l \<le> j * esz l" by (rule mult_le_mono1)
  with j assms have False by (simp add: word_less_nat_alt not_less)
  then show "entry_ready l flags attrs m (B + j * esz l) (unat bg) (unat fin) (m t j)" ..
qed

lemma map_loop_spec:
  assumes l: "l \<le> 3" "esz (Suc l) dvd B"
    and fin: "unat fin \<le> B + esz (Suc l)" "unat fin \<le> 2 ^ 48" "4096 dvd unat fin"
    and at: "has flags MM_FLAG_UNMAP \<or> pte_attrs_ok attrs"
    and IH: "\<And>k nt s1 base bg. l = Suc k \<Longrightarrow> table_inv idm k nt base s1 \<Longrightarrow> esz l dvd base \<Longrightarrow>
      base \<le> unat bg \<Longrightarrow> unat bg < base + esz l \<Longrightarrow> bg < fin \<Longrightarrow> 4096 dvd unat bg \<Longrightarrow>
      \<exists>ok s'. below bg fin bg nt s1 = Ret (ok, s') \<and>
        table_result idm k nt base flags attrs (unat bg) (unat fin) s1 ok s'"
  shows "table_inv idm l t B s \<Longrightarrow> at_entry l B i bg fin \<Longrightarrow> i \<le> 512 \<Longrightarrow>
    \<exists>ok s'. map_loop below env attrs l flags vid t [i..<512] bg fin bg s = Ret (ok, s') \<and>
      table_result idm l t B flags attrs (unat bg) (unat fin) s ok s' \<and> entries_kept l t i s s'"
proof (induction "512 - i" arbitrary: i bg s)
  case 0
  then have "\<not> bg < fin" "i = 512" by (auto simp: at_entry_def)
  then show ?case
    using 0 table_step_refl [OF 0(2)] table_ready_empty [of bg B i l fin]
    by (auto simp: table_result_def attr_claim_def entries_kept_def word_less_nat_alt at_entry_def)
next
  case (Suc n)
  then have i: "i < 512" and up: "[i..<512] = i # [i + 1..<512]" by (simp_all add: upt_conv_Cons)
  show ?case
  proof (cases "bg < fin")
    case False
    then show ?thesis
      using Suc.prems table_step_refl [OF Suc.prems(1)] table_ready_empty [of bg B i l fin] up
      by (auto simp: table_result_def attr_claim_def entries_kept_def word_less_nat_alt at_entry_def)
  next
    case True
    note inv = Suc.prems(1)
    have bg: "B + i * esz l \<le> unat bg" "unat bg < B + (i + 1) * esz l" "4096 dvd unat bg"
      using Suc.prems(2) True by (simp_all add: at_entry_def)
    have bd: "esz l dvd B + i * esz l" using dvd_trans [OF esz_dvd l(2), of l] by simp
    have lt: "unat bg < B + i * esz l + esz l" using bg(2) by (simp add: add_ac)
    obtain ok1 s1 where e: "map_entry below env attrs l flags vid t i bg fin bg s = Ret (ok1, s1)"
      and er: "entry_result idm l t i (B + i * esz l) flags attrs (unat bg) (unat fin) s ok1 s1"
      using map_entry_spec [OF table_inv_entry [OF inv i] l(1) bd bg(1) lt True bg(3) fin(3,2) at, of below env vid]
        IH [OF _ _ bd bg(1) lt True bg(3)] by blast
    have st: "entry_step idm l t i (B + i * esz l) s s1" using er by (simp add: entry_result_def)
    note ts = entry_step_table(1) [OF inv i st]
    have ready: "table_ready l flags attrs (mem s) B (unat bg) (unat fin) t \<Longrightarrow> ok1"
      using table_ready_split(1) [OF inv i bg(1,2)] er bg(1) True
      by (auto simp: entry_result_def word_less_nat_alt)
    show ?thesis
    proof (cases ok1)
      case False
      have "attr_claim (has flags MM_FLAG_COMMIT) (new_attr flags attrs) (unat bg) (unat fin)
          (table_attr l (mem s) t) (table_attr l (mem s1) t) False a"
        if "B \<le> unat a" "unat a < B + esz (Suc l)" for a
        using attr_claim_combine [OF inv l(2) i bg(1,2) er _ _ that, of s1 False] attr_claim_same(2) by blast
      then have "table_result idm l t B flags attrs (unat bg) (unat fin) s False s1"
        unfolding table_result_def using ts ready False by auto
      then show ?thesis
        using e False True up entries_kept_step [OF inv i st] by auto
    next
      case ok1: True
      let ?n = "mm_start_of_next_block bg (mm_entry_size l)"
      note nx = at_entry_next [OF l True Suc.prems(2) fin(1,2)]
      have "n = 512 - (i + 1)" "i + 1 \<le> 512" using Suc.hyps(2) i by simp_all
      from Suc.hyps(1) [OF this(1) table_step_inv [OF inv ts] nx(2) this(2)]
      obtain ok s2 where r: "map_loop below env attrs l flags vid t [i + 1..<512] ?n fin ?n s1 = Ret (ok, s2)"
        and tr: "table_result idm l t B flags attrs (B + (i + 1) * esz l) (unat fin) s1 ok s2"
        and k: "entries_kept l t (i + 1) s1 s2"
        unfolding nx(1) by blast
      have claim: "attr_claim (has flags MM_FLAG_COMMIT) (new_attr flags attrs) (unat bg) (unat fin)
          (table_attr l (mem s) t) (table_attr l (mem s2) t) ok a"
        if "B \<le> unat a" "unat a < B + esz (Suc l)" for a
        using attr_claim_combine [OF inv l(2) i bg(1,2) er _ _ that, of s2 ok] tr ok1
        by (simp add: table_result_def)
      have after: "table_ready l flags attrs (mem s2) B (unat bg) (unat fin) t"
        if "\<not> has flags MM_FLAG_COMMIT" ok
        using table_ready_combine [OF i bg(1,2), of flags attrs s1 "unat fin" t s2] er tr k ok1 that
        by (simp add: entry_result_def table_result_def)
      have before: ok if "table_ready l flags attrs (mem s) B (unat bg) (unat fin) t"
        using table_ready_split(2) [OF inv i bg(1,2) that st] tr by (simp add: table_result_def)
      have "table_result idm l t B flags attrs (unat bg) (unat fin) s ok s2"
        unfolding table_result_def
        using table_step_trans [OF ts] tr claim after before by (auto simp: table_result_def)
      moreover have "map_loop below env attrs l flags vid t [i..<512] bg fin bg s = Ret (ok, s2)"
        unfolding up using True e ok1 r by (simp add: pa_next)
      moreover have "entries_kept l t i s s2"
        using entries_kept_trans [OF entries_kept_step [OF inv i st]] entries_kept_less k by simp
      ultimately show ?thesis by blast
    qed
  qed
qed

lemma entry_ready_end:
  assumes "base + esz l \<le> f" "base + esz l \<le> f'"
  shows "entry_ready l flags attrs m base b f pte = entry_ready l flags attrs m base b f' pte"
  using assms
proof (induction l arbitrary: pte base)
  case 0
  then show ?case by (simp add: entry_whole_def)
next
  case (Suc l)
  have le: "base + i * esz l + esz l \<le> base + esz (Suc l)" if "i < 512" for i
  proof -
    have "(i + 1) * esz l \<le> 512 * esz l" using that by (intro mult_le_mono1) simp
    then show ?thesis unfolding esz_Suc add_mult_distrib mult_1 by linarith
  qed
  have "entry_ready l flags attrs m (base + i * esz l) b f q = entry_ready l flags attrs m (base + i * esz l) b f' q"
    if "i < 512" for i q
    using Suc.prems le [OF that] by (intro Suc.IH) linarith+
  moreover have "base + i * esz l < f" "base + i * esz l < f'" if "i < 512" for i
    using Suc.prems le [OF that] esz_pos [of l] by linarith+
  ultimately show ?case using Suc.prems by (simp add: entry_whole_def)
qed

lemma table_ready_end:
  assumes "base + esz (Suc l) \<le> f"
  shows "table_ready l flags attrs m base b f t = table_ready l flags attrs m base b (base + esz (Suc l)) t"
proof -
  have le: "base + i * esz l + esz l \<le> base + esz (Suc l)" if "i < 512" for i
  proof -
    have "(i + 1) * esz l \<le> 512 * esz l" using that by (intro mult_le_mono1) simp
    then show ?thesis unfolding esz_Suc add_mult_distrib mult_1 by linarith
  qed
  have "entry_ready l flags attrs m (base + i * esz l) b f q =
    entry_ready l flags attrs m (base + i * esz l) b (base + esz (Suc l)) q" if "i < 512" for i q
    using assms le [OF that] by (intro entry_ready_end) linarith+
  moreover have "base + i * esz l < f" "base + i * esz l < base + esz (Suc l)" if "i < 512" for i
    using assms le [OF that] esz_pos [of l] by linarith+
  ultimately show ?thesis by (simp add: table_ready_def)
qed

lemma table_result_end:
  assumes "base + esz (Suc l) \<le> f"
  shows "table_result idm l t base flags attrs b (base + esz (Suc l)) s ok s' \<Longrightarrow>
    table_result idm l t base flags attrs b f s ok s'"
  unfolding table_result_def table_ready_end [OF assms] attr_claim_def using assms by auto

lemma level_end_table:
  assumes "l \<le> 3" "esz (Suc l) dvd B" "B \<le> unat bg" "unat bg < B + esz (Suc l)" "unat bg < 2 ^ 48"
  shows "unat (mm_level_end bg l) = B + esz (Suc l)"
proof -
  obtain k where k: "B = esz (Suc l) * k" using assms(2) by (auto elim: dvdE)
  have "unat bg div esz (Suc l) = k"
    using assms(3,4) k by (intro div_nat_eqI) (simp_all add: algebra_simps)
  then show ?thesis using assms(1,5) k by (simp add: level_end_unat algebra_simps)
qed

lemma unat_min: "unat (min a b :: u64) = min (unat a) (unat b)"
  by (simp add: min_def word_le_nat_alt)

lemma level_loop:
  assumes p: "l \<le> 3" "esz (Suc l) dvd B" "B \<le> unat bg" "unat bg < B + esz (Suc l)"
      "bg < fin" "4096 dvd unat bg" "4096 dvd unat fin" "unat fin \<le> 2 ^ 48"
  shows "bg < min fin (mm_level_end bg l)" "unat (min fin (mm_level_end bg l)) \<le> B + esz (Suc l)"
    "unat (min fin (mm_level_end bg l)) \<le> 2 ^ 48" "4096 dvd unat (min fin (mm_level_end bg l))"
    "at_entry l B (mm_index bg l) bg (min fin (mm_level_end bg l))"
proof -
  let ?f = "min fin (mm_level_end bg l)"
  have b48: "unat bg < 2 ^ 48" using p(5,8) by (simp add: word_less_nat_alt)
  have f: "unat ?f = min (unat fin) (B + esz (Suc l))"
    unfolding unat_min level_end_table [OF p(1-4) b48] ..
  have d: "4096 dvd esz (Suc l)" "4096 dvd B"
    using esz_dvd [of 0 "Suc l"] dvd_trans [OF _ p(2)] by (auto simp: esz_0)
  show "unat ?f \<le> B + esz (Suc l)" "unat ?f \<le> 2 ^ 48" "4096 dvd unat ?f"
    using p(7,8) d unfolding f by (auto simp: min_def)
  show lt: "bg < ?f" using p(4,5) f by (simp add: word_less_nat_alt)
  show "at_entry l B (mm_index bg l) bg ?f"
    using table_position [OF p(2,3)] p(4,6) lt by (simp add: at_entry_def esz_Suc)
qed

lemma map_table_spec:
  assumes p: "l \<le> 3" "table_inv idm l t B s" "esz (Suc l) dvd B" "B \<le> unat bg" "unat bg < B + esz (Suc l)"
      "bg < fin" "4096 dvd unat bg" "4096 dvd unat fin" "unat fin \<le> 2 ^ 48"
    and at: "has flags MM_FLAG_UNMAP \<or> pte_attrs_ok attrs"
    and IH: "\<And>k nt s1 base bg' fin'. l = Suc k \<Longrightarrow> table_inv idm k nt base s1 \<Longrightarrow> esz l dvd base \<Longrightarrow>
      base \<le> unat bg' \<Longrightarrow> unat bg' < base + esz l \<Longrightarrow> bg' < fin' \<Longrightarrow> 4096 dvd unat bg' \<Longrightarrow>
      4096 dvd unat fin' \<Longrightarrow> unat fin' \<le> 2 ^ 48 \<Longrightarrow>
      \<exists>ok s'. below bg' fin' bg' nt s1 = Ret (ok, s') \<and>
        table_result idm k nt base flags attrs (unat bg') (unat fin') s1 ok s'"
  shows "\<exists>ok s'. map_loop below env attrs l flags vid t [mm_index bg l..<MM_PTE_PER_PAGE] bg
      (min fin (mm_level_end bg l)) bg s = Ret (ok, s') \<and>
    table_result idm l t B flags attrs (unat bg) (unat fin) s ok s'"
proof -
  let ?f = "min fin (mm_level_end bg l)"
  note lp = level_loop [OF p(1,3-9)]
  have f: "unat ?f = min (unat fin) (B + esz (Suc l))"
    using level_end_table [OF p(1,3,4,5)] p(6,9) unfolding unat_min by (simp add: word_less_nat_alt)
  note IH' = IH [where fin' = ?f, OF _ _ _ _ _ _ _ lp(4,3)]
  obtain ok s' where r: "map_loop below env attrs l flags vid t [mm_index bg l..<MM_PTE_PER_PAGE] bg ?f bg s = Ret (ok, s')"
    and tr: "table_result idm l t B flags attrs (unat bg) (unat ?f) s ok s'"
    using map_loop_spec [where below = below and idm = idm, OF p(1,3) lp(2-4) at _ p(2) lp(5), of env vid] IH'
    by (auto simp: MM_PTE_PER_PAGE_def less_imp_le)
  have "table_result idm l t B flags attrs (unat bg) (unat fin) s ok s'"
    using tr table_result_end [of B l "unat fin"] unfolding f
    by (cases "unat fin \<le> B + esz (Suc l)") (auto simp: min_def)
  with r show ?thesis by blast
qed

text \<open>
  The main fact about \<open>mm_map_level\<close>: on a well-formed table it always returns, it never runs
  off a table, and its result is as \<open>table_result\<close> says.
\<close>

lemma mm_map_level_spec:
  assumes at: "has flags MM_FLAG_UNMAP \<or> pte_attrs_ok attrs"
  shows "l \<le> 3 \<Longrightarrow> table_inv idm l t B s \<Longrightarrow> esz (Suc l) dvd B \<Longrightarrow> B \<le> unat bg \<Longrightarrow>
    unat bg < B + esz (Suc l) \<Longrightarrow> bg < fin \<Longrightarrow> 4096 dvd unat bg \<Longrightarrow> 4096 dvd unat fin \<Longrightarrow>
    unat fin \<le> 2 ^ 48 \<Longrightarrow>
    \<exists>ok s'. mm_map_level l env attrs flags vid bg fin bg t s = Ret (ok, s') \<and>
      table_result idm l t B flags attrs (unat bg) (unat fin) s ok s'"
proof (induction l arbitrary: t B s bg fin)
  case 0
  show ?case unfolding mm_map_level.simps by (rule map_table_spec [OF 0 at]) simp
next
  case (Suc l)
  have IH: "\<exists>ok s'. mm_map_level l env attrs flags vid bg' fin' bg' nt s1 = Ret (ok, s') \<and>
      table_result idm k nt base flags attrs (unat bg') (unat fin') s1 ok s'"
    if "Suc l = Suc k" "table_inv idm k nt base s1" "esz (Suc l) dvd base" "base \<le> unat bg'"
      "unat bg' < base + esz (Suc l)" "bg' < fin'" "4096 dvd unat bg'" "4096 dvd unat fin'"
      "unat fin' \<le> 2 ^ 48" for k nt s1 base bg' fin'
    using that Suc.IH [of nt base s1 bg' fin'] Suc.prems(1) by simp
  show ?case
    unfolding mm_map_level.simps
    by (rule map_table_spec [where below = "mm_map_level l env attrs flags vid", OF Suc.prems at IH])
qed

end
