(* ===== verification/MM_Root.thy ===== *)
theory MM_Root
  imports MM_Map
begin

text \<open>
  Whole page tables with their concatenated root tables, and the mapping of a range in them:
  \<open>mm_map_root\<close> of \<^verbatim>\<open>src/mm.c\<close> and what is built on it, the identity mapping with its prepare
  and commit stages.
\<close>

section \<open>Whole page tables\<close>

text \<open>
  \<open>geom_ok\<close> is what \<open>arch_mm_init\<close> establishes about the number of levels and of root tables.
  \<open>ptable_pages\<close> are the pages of all the tables and of the pool; \<open>ptable_attr\<close> is the
  attribute that a page table gives to an address.
\<close>

definition geom_ok :: "mm_env \<Rightarrow> u32 \<Rightarrow> bool" where
  "geom_ok env flags \<longleftrightarrow>
     1 \<le> mm_max_level env flags \<and> mm_max_level env flags \<le> 3 \<and>
     1 \<le> mm_root_table_count env flags \<and> mm_root_table_count env flags \<le> 16 \<and>
     mm_root_table_count env flags * esz (Suc (mm_max_level env flags)) \<le> 2 ^ 48"

definition space_end :: "mm_env \<Rightarrow> u32 \<Rightarrow> nat" where
  "space_end env flags = mm_root_table_count env flags * esz (Suc (mm_max_level env flags))"

definition root_pages :: "nat \<Rightarrow> mm_ptable \<Rightarrow> table_mem \<Rightarrow> nat \<Rightarrow> u64 list" where
  "root_pages l t m k = root_table t k # table_pages l m (root_table t k)"

definition ptable_pages :: "mm_env \<Rightarrow> u32 \<Rightarrow> mm_ptable \<Rightarrow> mm_state \<Rightarrow> u64 multiset" where
  "ptable_pages env flags t s =
     mset (concat (map (root_pages (mm_max_level env flags) t (mem s)) [0..<mm_root_table_count env flags])) +
     free_pages s"

definition ptable_ok :: "bool \<Rightarrow> mm_env \<Rightarrow> u32 \<Rightarrow> mm_ptable \<Rightarrow> table_mem \<Rightarrow> bool" where
  "ptable_ok idm env flags t m \<longleftrightarrow>
     (\<forall>k \<in> set [0..<mm_root_table_count env flags].
        table_ok idm (mm_max_level env flags) m (k * esz (Suc (mm_max_level env flags))) (root_table t k))"

definition ptable_inv :: "bool \<Rightarrow> mm_env \<Rightarrow> u32 \<Rightarrow> mm_ptable \<Rightarrow> mm_state \<Rightarrow> bool" where
  "ptable_inv idm env flags t s \<longleftrightarrow>
     page_pool_ok (pool s) \<and> ptable_ok idm env flags t (mem s) \<and> own_ok (ptable_pages env flags t s)"

definition ptable_step :: "bool \<Rightarrow> mm_env \<Rightarrow> u32 \<Rightarrow> mm_ptable \<Rightarrow> mm_state \<Rightarrow> mm_state \<Rightarrow> bool" where
  "ptable_step idm env flags t s s' \<longleftrightarrow>
     page_pool_ok (pool s') \<and> ptable_ok idm env flags t (mem s') \<and>
     ptable_pages env flags t s' = ptable_pages env flags t s \<and>
     (\<forall>p. p \<notin># ptable_pages env flags t s \<longrightarrow> mem s' p = mem s p)"

definition ptable_attr :: "mm_env \<Rightarrow> u32 \<Rightarrow> mm_ptable \<Rightarrow> table_mem \<Rightarrow> u64 \<Rightarrow> u64" where
  "ptable_attr env flags t m a =
     table_attr (mm_max_level env flags) m (root_table t (mm_index a (Suc (mm_max_level env flags)))) a"

lemma ptable_step_refl: "ptable_inv idm env flags t s \<Longrightarrow> ptable_step idm env flags t s s"
  by (simp add: ptable_inv_def ptable_step_def)

lemma ptable_step_trans:
  "ptable_step idm env flags t s s' \<Longrightarrow> ptable_step idm env flags t s' s'' \<Longrightarrow> ptable_step idm env flags t s s''"
  by (simp add: ptable_step_def)

lemma ptable_step_inv: "ptable_inv idm env flags t s \<Longrightarrow> ptable_step idm env flags t s s' \<Longrightarrow> ptable_inv idm env flags t s'"
  by (simp add: ptable_inv_def ptable_step_def)

lemma upt_split_at: "k < n \<Longrightarrow> [0..<n] = [0..<k] @ k # [Suc k..<n]"
  using upt_add_eq_append [of 0 k "n - k"] by (simp add: upt_conv_Cons [of k n])

text \<open>The pages of root table \<open>k\<close>, of the pool, and of everything else.\<close>

definition other_roots :: "mm_env \<Rightarrow> u32 \<Rightarrow> mm_ptable \<Rightarrow> nat \<Rightarrow> table_mem \<Rightarrow> u64 multiset" where
  "other_roots env flags t k m =
     mset (concat (map (root_pages (mm_max_level env flags) t m)
       ([0..<k] @ [Suc k..<mm_root_table_count env flags])))"

lemma ptable_pages_split:
  assumes "k < mm_root_table_count env flags"
  shows "ptable_pages env flags t s =
    all_pages (mm_max_level env flags) (root_table t k) s + {#root_table t k#} + other_roots env flags t k (mem s)"
  unfolding ptable_pages_def other_roots_def all_pages_def
  by (simp add: upt_split_at [OF assms] root_pages_def)

lemma in_other_roots:
  "j < mm_root_table_count env flags \<Longrightarrow> j \<noteq> k \<Longrightarrow>
    p \<in> set (root_pages (mm_max_level env flags) t m j) \<Longrightarrow> p \<in># other_roots env flags t k m"
  unfolding other_roots_def by (auto simp: not_less Suc_le_eq nat_neq_iff intro: bexI [of _ j])

lemma ptable_inv_table:
  assumes "ptable_inv idm env flags t s" "k < mm_root_table_count env flags"
  shows "table_inv idm (mm_max_level env flags) (root_table t k) (k * esz (Suc (mm_max_level env flags))) s"
proof -
  have "own_ok (all_pages (mm_max_level env flags) (root_table t k) s + {#root_table t k#} +
      other_roots env flags t k (mem s))"
    using assms ptable_pages_split [OF assms(2)] by (simp add: ptable_inv_def)
  from own_ok_mono [OF this] show ?thesis
    using assms by (simp add: ptable_inv_def table_inv_def ptable_ok_def)
qed

lemma table_step_others:
  assumes "ptable_inv idm env flags t s" "k < mm_root_table_count env flags"
    and "table_step idm (mm_max_level env flags) (root_table t k) (k * esz (Suc (mm_max_level env flags))) s s'"
    and "j < mm_root_table_count env flags" "j \<noteq> k"
  shows "\<forall>p \<in> set (root_pages (mm_max_level env flags) t (mem s) j). mem s' p = mem s p"
proof
  fix p
  assume "p \<in> set (root_pages (mm_max_level env flags) t (mem s) j)"
  then have p: "p \<in># other_roots env flags t k (mem s)" using in_other_roots assms(4,5) by blast
  have "own_ok (other_roots env flags t k (mem s) +
      (all_pages (mm_max_level env flags) (root_table t k) s + {#root_table t k#}))"
    using assms(1) ptable_pages_split [OF assms(2)] by (simp add: ptable_inv_def ac_simps)
  from own_ok_disjoint [OF this p] have "p \<noteq> root_table t k"
    "p \<notin># all_pages (mm_max_level env flags) (root_table t k) s" by auto
  then show "mem s' p = mem s p" using assms(3) by (simp add: table_step_def)
qed

lemma root_frame:
  assumes "\<forall>p \<in> set (root_pages l t m j). m' p = m p"
  shows "root_pages l t m' j = root_pages l t m j" "table_attr l m' (root_table t j) = table_attr l m (root_table t j)"
    "table_ok idm l m' base (root_table t j) = table_ok idm l m base (root_table t j)"
  using table_frame [of l m "root_table t j" m'] assms by (simp_all add: root_pages_def)

lemma table_step_ptable:
  assumes inv: "ptable_inv idm env flags t s" and k: "k < mm_root_table_count env flags"
    and st: "table_step idm (mm_max_level env flags) (root_table t k) (k * esz (Suc (mm_max_level env flags))) s s'"
  shows "ptable_step idm env flags t s s'"
    "\<And>j. j < mm_root_table_count env flags \<Longrightarrow> j \<noteq> k \<Longrightarrow>
      table_attr (mm_max_level env flags) (mem s') (root_table t j) =
      table_attr (mm_max_level env flags) (mem s) (root_table t j)"
proof -
  let ?l = "mm_max_level env flags"
  note oth = table_step_others [OF assms]
  show "table_attr ?l (mem s') (root_table t j) = table_attr ?l (mem s) (root_table t j)"
    if "j < mm_root_table_count env flags" "j \<noteq> k" for j
    by (rule root_frame(2) [OF oth [OF that]])
  have "other_roots env flags t k (mem s') = other_roots env flags t k (mem s)"
    unfolding other_roots_def using k root_frame(1) [OF oth]
    by (intro arg_cong [of _ _ mset] arg_cong [of _ _ concat] map_cong refl) auto
  then have pp: "ptable_pages env flags t s' = ptable_pages env flags t s"
    using st by (simp add: ptable_pages_split [OF k] table_step_def)
  have "table_ok idm ?l (mem s') (j * esz (Suc ?l)) (root_table t j)"
    if "j < mm_root_table_count env flags" for j
  proof (cases "j = k")
    case True
    then show ?thesis using st by (simp add: table_step_def)
  next
    case False
    then show ?thesis
      using root_frame(3) [OF oth [OF that False]] inv that by (simp add: ptable_inv_def ptable_ok_def)
  qed
  then have "ptable_ok idm env flags t (mem s')" by (simp add: ptable_ok_def)
  moreover have "p \<notin># ptable_pages env flags t s \<Longrightarrow> p \<noteq> root_table t k \<and> p \<notin># all_pages ?l (root_table t k) s" for p
    by (simp add: ptable_pages_split [OF k])
  ultimately show "ptable_step idm env flags t s s'"
    using st pp unfolding ptable_step_def table_step_def by blast
qed

section \<open>Mapping a range in a page table\<close>

definition ptable_ready :: "mm_env \<Rightarrow> u32 \<Rightarrow> mm_ptable \<Rightarrow> u64 \<Rightarrow> table_mem \<Rightarrow> nat \<Rightarrow> nat \<Rightarrow> bool" where
  "ptable_ready env flags t attrs m b f \<longleftrightarrow>
     (\<forall>k \<in> set [0..<mm_root_table_count env flags].
        b < f \<and> b < (k + 1) * esz (Suc (mm_max_level env flags)) \<and> k * esz (Suc (mm_max_level env flags)) < f \<longrightarrow>
        table_ready (mm_max_level env flags) flags attrs m (k * esz (Suc (mm_max_level env flags))) b f
          (root_table t k))"

definition ptable_result ::
  "bool \<Rightarrow> mm_env \<Rightarrow> u32 \<Rightarrow> mm_ptable \<Rightarrow> u64 \<Rightarrow> nat \<Rightarrow> nat \<Rightarrow> mm_state \<Rightarrow> bool \<Rightarrow> mm_state \<Rightarrow> bool" where
  "ptable_result idm env flags t attrs b f s ok s' \<longleftrightarrow>
     ptable_step idm env flags t s s' \<and>
     (\<forall>a. unat a < space_end env flags \<longrightarrow>
        attr_claim (has flags MM_FLAG_COMMIT) (new_attr flags attrs) b f
          (ptable_attr env flags t (mem s)) (ptable_attr env flags t (mem s')) ok a) \<and>
     (\<not> has flags MM_FLAG_COMMIT \<and> ok \<longrightarrow> ptable_ready env flags t attrs (mem s') b f) \<and>
     (ptable_ready env flags t attrs (mem s) b f \<longrightarrow> ok)"

lemma table_ready_begin:
  assumes "b \<le> base" "b' \<le> base"
  shows "table_ready l flags attrs m base b f t = table_ready l flags attrs m base b' f t"
proof -
  have "entry_ready l flags attrs m (base + i * esz l) b f q =
    entry_ready l flags attrs m (base + i * esz l) b' f q" for i q
    using assms by (intro entry_ready_begin) auto
  moreover have "b < base + (i + 1) * esz l" "b' < base + (i + 1) * esz l" for i
  proof -
    have "0 < (i + 1) * esz l" by simp
    then show "b < base + (i + 1) * esz l" "b' < base + (i + 1) * esz l" using assms by linarith+
  qed
  ultimately show ?thesis by (simp add: table_ready_def)
qed

lemma table_ready_frame:
  assumes "\<forall>p \<in> set (root_pages l t m j). m' p = m p"
  shows "table_ready l flags attrs m' base b f (root_table t j) = table_ready l flags attrs m base b f (root_table t j)"
proof -
  have t: "m' (root_table t j) = m (root_table t j)" using assms by (simp add: root_pages_def)
  have "entry_ready l flags attrs m' bs b f (m (root_table t j) i) =
    entry_ready l flags attrs m bs b f (m (root_table t j) i)" if "i < 512" for bs i
    using assms that by (intro entry_ready_frame) (auto simp: root_pages_def table_pages_def)
  then show ?thesis by (simp add: table_ready_def t)
qed

text \<open>The root table that holds an address.\<close>

lemma root_index:
  assumes "geom_ok env flags" "unat a < space_end env flags"
  obtains k where "k < mm_root_table_count env flags" "mm_index a (Suc (mm_max_level env flags)) = k"
    "k * esz (Suc (mm_max_level env flags)) \<le> unat a" "unat a < (k + 1) * esz (Suc (mm_max_level env flags))"
proof
  let ?E = "esz (Suc (mm_max_level env flags))"
  define k where "k = unat a div ?E"
  have k: "k < mm_root_table_count env flags"
    unfolding k_def using assms(2) by (intro less_mult_imp_div_less) (simp add: space_end_def)
  then have i: "mm_index a (Suc (mm_max_level env flags)) = k"
    using assms(1) by (simp add: mm_index_unat k_def [symmetric] geom_ok_def)
  show "mm_index a (Suc (mm_max_level env flags)) < mm_root_table_count env flags"
    "mm_index a (Suc (mm_max_level env flags)) = mm_index a (Suc (mm_max_level env flags))"
    using i k by simp_all
  show "mm_index a (Suc (mm_max_level env flags)) * ?E \<le> unat a" unfolding i k_def by simp
  show "unat a < (mm_index a (Suc (mm_max_level env flags)) + 1) * ?E"
    unfolding i k_def using dividend_less_div_times [of ?E "unat a"] by (simp add: add.commute)
qed

definition at_root :: "mm_env \<Rightarrow> u32 \<Rightarrow> nat \<Rightarrow> u64 \<Rightarrow> u64 \<Rightarrow> bool" where
  "at_root env flags k bg fin \<longleftrightarrow>
     (if bg < fin then k < mm_root_table_count env flags \<and> k * esz (Suc (mm_max_level env flags)) \<le> unat bg \<and>
        unat bg < (k + 1) * esz (Suc (mm_max_level env flags))
      else True) \<and> 4096 dvd unat bg"

lemma at_root_next:
  assumes g: "geom_ok env flags" and bg: "bg < fin" "at_root env flags k bg fin" "unat fin \<le> space_end env flags"
  shows "unat (mm_start_of_next_block bg (mm_entry_size (Suc (mm_max_level env flags)))) =
      (k + 1) * esz (Suc (mm_max_level env flags))"
    "at_root env flags (k + 1) (mm_start_of_next_block bg (mm_entry_size (Suc (mm_max_level env flags)))) fin"
proof -
  let ?E = "esz (Suc (mm_max_level env flags))"
  let ?n = "mm_start_of_next_block bg (mm_entry_size (Suc (mm_max_level env flags)))"
  have k: "k * ?E \<le> unat bg" "unat bg < (k + 1) * ?E" using bg by (simp_all add: at_root_def)
  have sp: "space_end env flags \<le> 2 ^ 48" using g by (simp add: geom_ok_def space_end_def)
  have "unat bg < 2 ^ 48" using bg(1,3) sp by (simp add: word_less_nat_alt)
  moreover have "?E \<le> 2 ^ 48" using g by (intro esz_le_48) (simp add: geom_ok_def)
  ultimately have "unat bg + ?E < 2 ^ 48 + 2 ^ 48" by (rule add_less_le_mono)
  also have "\<dots> < 2 ^ 64" by simp
  finally have "unat ?n = (unat bg div ?E + 1) * ?E"
    using g by (intro next_block_unat) (simp_all add: geom_ok_def)
  moreover have "unat bg div ?E = k"
    using k by (intro div_nat_eqI) (simp_all add: algebra_simps)
  ultimately show n: "unat ?n = (k + 1) * ?E" by simp
  have "4096 dvd ?E" using esz_dvd [of 0 "Suc (mm_max_level env flags)"] by (simp add: esz_0)
  then have "4096 dvd unat ?n" unfolding n by (rule dvd_mult)
  moreover have "k + 1 < mm_root_table_count env flags" if "?n < fin"
  proof -
    have "(k + 1) * ?E < mm_root_table_count env flags * ?E"
      using that bg(3) n by (simp add: word_less_nat_alt space_end_def)
    then show ?thesis by (simp only: mult_less_cancel2)
  qed
  moreover have "(k + 1) * ?E < (k + 1 + 1) * ?E" by simp
  ultimately show "at_root env flags (k + 1) ?n fin" by (auto simp: at_root_def n)
qed

lemma roots_kept_ready:
  assumes "j \<le> k" "\<forall>j<Suc k. \<forall>p \<in> set (root_pages l t (mem s1) j). mem s2 p = mem s1 p"
  shows "table_ready l flags attrs (mem s2) base b f (root_table t j) =
    table_ready l flags attrs (mem s1) base b f (root_table t j)"
  by (rule table_ready_frame) (use assms le_imp_less_Suc in blast)

lemma ptable_result_empty:
  assumes "ptable_inv idm env flags t s" "\<not> b < f"
  shows "ptable_result idm env flags t attrs b f s True s"
proof -
  have "attr_claim c na b f F F True a" for c na F and a :: u64
    using assms(2) by (auto simp: attr_claim_def)
  moreover have "ptable_ready env flags t attrs m b f" for m
    using assms(2) by (simp add: ptable_ready_def)
  ultimately show ?thesis
    unfolding ptable_result_def using ptable_step_refl [OF assms(1)] by blast
qed

text \<open>One step of the loop over the root tables, at root table \<open>k\<close>.\<close>

lemma root_step_other_attr:
  assumes inv: "ptable_inv idm env flags t s" and k: "k < mm_root_table_count env flags"
    and st: "table_step idm (mm_max_level env flags) (root_table t k) (k * esz (Suc (mm_max_level env flags))) s s1"
    and j: "j < mm_root_table_count env flags" "mm_index a (Suc (mm_max_level env flags)) = j" "j \<noteq> k"
  shows "ptable_attr env flags t (mem s1) a = ptable_attr env flags t (mem s) a"
  unfolding ptable_attr_def j(2) table_step_ptable(2) [OF inv k st j(1,3)] ..

lemma root_claim_first:
  assumes g: "geom_ok env flags" and inv: "ptable_inv idm env flags t s" and k: "k < mm_root_table_count env flags"
    and bg: "k * esz (Suc (mm_max_level env flags)) \<le> b"
    and er: "table_result idm (mm_max_level env flags) (root_table t k) (k * esz (Suc (mm_max_level env flags)))
      flags attrs b f s ok1 s1"
    and a: "unat a < space_end env flags"
    and na: "unat a < (k + 1) * esz (Suc (mm_max_level env flags)) \<or> \<not> ok1"
  shows "attr_claim (has flags MM_FLAG_COMMIT) (new_attr flags attrs) b f
    (ptable_attr env flags t (mem s)) (ptable_attr env flags t (mem s1)) ok1 a"
proof -
  let ?l = "mm_max_level env flags" and ?E = "esz (Suc (mm_max_level env flags))"
  have st: "table_step idm ?l (root_table t k) (k * ?E) s s1" using er by (simp add: table_result_def)
  obtain j where j: "j < mm_root_table_count env flags" "mm_index a (Suc ?l) = j" "j * ?E \<le> unat a" "unat a < (j + 1) * ?E"
    using root_index [OF g a] by blast
  show ?thesis
  proof (cases "j = k")
    case True
    then have "k * ?E \<le> unat a \<and> unat a < k * ?E + ?E" using j by (simp add: add.commute)
    then show ?thesis
      using er True j(2) unfolding table_result_def ptable_attr_def attr_claim_def by simp
  next
    case False
    have "\<not> b \<le> unat a" if "unat a < (k + 1) * ?E"
    proof -
      have "j \<le> k" using entry_before [of 0 j ?E "unat a" k] j(3) that by simp
      then have "(j + 1) * ?E \<le> k * ?E" using False by (intro mult_le_mono1) simp
      then show ?thesis using j(4) bg by linarith
    qed
    then show ?thesis
      using na root_step_other_attr [OF inv k st j(1,2) False] unfolding attr_claim_def by auto
  qed
qed

lemma root_claim_rest:
  assumes g: "geom_ok env flags" and inv: "ptable_inv idm env flags t s" and k: "k < mm_root_table_count env flags"
    and bg: "k * esz (Suc (mm_max_level env flags)) \<le> b" "b < (k + 1) * esz (Suc (mm_max_level env flags))"
    and er: "table_result idm (mm_max_level env flags) (root_table t k) (k * esz (Suc (mm_max_level env flags)))
      flags attrs b f s True s1"
    and tr: "ptable_result idm env flags t attrs ((k + 1) * esz (Suc (mm_max_level env flags))) f s1 ok s2"
    and a: "unat a < space_end env flags"
  shows "attr_claim (has flags MM_FLAG_COMMIT) (new_attr flags attrs) b f
    (ptable_attr env flags t (mem s)) (ptable_attr env flags t (mem s2)) ok a"
proof -
  let ?l = "mm_max_level env flags" and ?E = "esz (Suc (mm_max_level env flags))"
  have st: "table_step idm ?l (root_table t k) (k * ?E) s s1" using er by (simp add: table_result_def)
  have r2: "attr_claim (has flags MM_FLAG_COMMIT) (new_attr flags attrs) ((k + 1) * ?E) f
    (ptable_attr env flags t (mem s1)) (ptable_attr env flags t (mem s2)) ok a"
    using tr a by (simp add: ptable_result_def)
  show ?thesis
  proof (cases "unat a < (k + 1) * ?E")
    case True
    then have "ptable_attr env flags t (mem s2) a = ptable_attr env flags t (mem s1) a"
      using r2 by (simp add: attr_claim_def)
    then show ?thesis
      using root_claim_first [OF g inv k bg(1) er a] True unfolding attr_claim_def by auto
  next
    case False
    obtain j where j: "j < mm_root_table_count env flags" "mm_index a (Suc ?l) = j" "unat a < (j + 1) * ?E"
      using root_index [OF g a] by blast
    have jk: "j \<noteq> k" using False j(3) by auto
    show ?thesis
      using r2 False bg(2) unfolding attr_claim_def root_step_other_attr [OF inv k st j(1,2) jk] by auto
  qed
qed

lemma root_ready_after:
  assumes k: "k < mm_root_table_count env flags"
    and bg: "k * esz (Suc (mm_max_level env flags)) \<le> b" "b < (k + 1) * esz (Suc (mm_max_level env flags))"
    and e: "table_ready (mm_max_level env flags) flags attrs (mem s1) (k * esz (Suc (mm_max_level env flags))) b f (root_table t k)"
    and r: "ptable_ready env flags t attrs (mem s2) ((k + 1) * esz (Suc (mm_max_level env flags))) f"
    and kp: "\<forall>j<Suc k. \<forall>p \<in> set (root_pages (mm_max_level env flags) t (mem s1) j). mem s2 p = mem s1 p"
  shows "ptable_ready env flags t attrs (mem s2) b f"
  unfolding ptable_ready_def
proof (intro ballI impI)
  let ?E = "esz (Suc (mm_max_level env flags))"
  fix j
  assume j: "j \<in> set [0..<mm_root_table_count env flags]" and jr: "b < f \<and> b < (j + 1) * ?E \<and> j * ?E < f"
  have kj: "k \<le> j" using entry_before [of 0 k ?E b j] bg jr by simp
  show "table_ready (mm_max_level env flags) flags attrs (mem s2) (j * ?E) b f (root_table t j)"
  proof (cases "j = k")
    case True
    then show ?thesis using e roots_kept_ready [OF _ kp, of k] by simp
  next
    case False
    then have le: "(k + 1) * ?E \<le> j * ?E" using kj by (intro mult_le_mono1) simp
    have "j * ?E < (j + 1) * ?E" by simp
    then have "table_ready (mm_max_level env flags) flags attrs (mem s2) (j * ?E) ((k + 1) * ?E) f (root_table t j)"
      using r j jr le unfolding ptable_ready_def by (meson le_less_trans)
    moreover have "b \<le> j * ?E" using le bg by linarith
    ultimately show ?thesis using table_ready_begin le by blast
  qed
qed

lemma root_ready_before:
  assumes inv: "ptable_inv idm env flags t s" and k: "k < mm_root_table_count env flags"
    and bg: "k * esz (Suc (mm_max_level env flags)) \<le> b" "b < (k + 1) * esz (Suc (mm_max_level env flags))"
    and st: "table_step idm (mm_max_level env flags) (root_table t k) (k * esz (Suc (mm_max_level env flags))) s s1"
    and r: "ptable_ready env flags t attrs (mem s) b f"
  shows "ptable_ready env flags t attrs (mem s1) ((k + 1) * esz (Suc (mm_max_level env flags))) f"
  unfolding ptable_ready_def
proof (intro ballI impI)
  let ?E = "esz (Suc (mm_max_level env flags))"
  fix j
  assume j: "j \<in> set [0..<mm_root_table_count env flags]"
    and jr: "(k + 1) * ?E < f \<and> (k + 1) * ?E < (j + 1) * ?E \<and> j * ?E < f"
  have kj: "k + 1 \<le> j" using jr by auto
  then have le: "(k + 1) * ?E \<le> j * ?E" by (rule mult_le_mono1)
  have b: "b < f" "b < (j + 1) * ?E" "b \<le> j * ?E" using bg jr le by linarith+
  then have "table_ready (mm_max_level env flags) flags attrs (mem s) (j * ?E) b f (root_table t j)"
    using r j jr unfolding ptable_ready_def by blast
  then have "table_ready (mm_max_level env flags) flags attrs (mem s1) (j * ?E) b f (root_table t j)"
    using table_ready_frame [OF table_step_others [OF inv k st], of j] j kj by simp
  then show "table_ready (mm_max_level env flags) flags attrs (mem s1) (j * ?E) ((k + 1) * ?E) f (root_table t j)"
    using table_ready_begin [OF b(3) le] by blast
qed

lemma map_root_loop_spec:
  assumes g: "geom_ok env flags" and at: "has flags MM_FLAG_UNMAP \<or> pte_attrs_ok attrs"
    and fin: "unat fin \<le> space_end env flags" "4096 dvd unat fin"
  shows "ptable_inv idm env flags t s \<Longrightarrow> at_root env flags k bg fin \<Longrightarrow>
    \<exists>ok s'. map_root_loop env t attrs (mm_max_level env flags + 1) flags [k..<mm_root_table_count env flags] bg fin s = Ret (ok, s') \<and>
      ptable_result idm env flags t attrs (unat bg) (unat fin) s ok s' \<and>
      (\<forall>j<k. j < mm_root_table_count env flags \<longrightarrow>
        (\<forall>p \<in> set (root_pages (mm_max_level env flags) t (mem s) j). mem s' p = mem s p))"
proof (induction "mm_root_table_count env flags - k" arbitrary: k bg s)
  case 0
  then have nb: "\<not> bg < fin" and nil: "[k..<mm_root_table_count env flags] = []" by (auto simp: at_root_def)
  then show ?case
    using ptable_result_empty [OF 0(2), of "unat bg" "unat fin" attrs] unfolding nil by (auto simp: word_less_nat_alt)
next
  case (Suc n)
  let ?l = "mm_max_level env flags" and ?E = "esz (Suc (mm_max_level env flags))"
  let ?c = "mm_root_table_count env flags"
  have k: "k < ?c" and up: "[k..<?c] = k # [k + 1..<?c]" using Suc.hyps(2) by (simp_all add: upt_conv_Cons)
  note inv = Suc.prems(1)
  show ?case
  proof (cases "bg < fin")
    case False
    then show ?thesis
      using ptable_result_empty [OF inv, of "unat bg" "unat fin" attrs] unfolding up by (auto simp: word_less_nat_alt)
  next
    case True
    have bg: "k * ?E \<le> unat bg" "unat bg < (k + 1) * ?E" "unat bg < k * ?E + ?E" "4096 dvd unat bg"
      using Suc.prems(2) True by (simp_all add: at_root_def add.commute)
    have l3: "?l \<le> 3" and f48: "unat fin \<le> 2 ^ 48" using g fin(1) by (simp_all add: geom_ok_def space_end_def)
    obtain ok1 s1 where e: "mm_map_level ?l env attrs flags (ptable_id t) bg fin bg (root_table t k) s = Ret (ok1, s1)"
      and er: "table_result idm ?l (root_table t k) (k * ?E) flags attrs (unat bg) (unat fin) s ok1 s1"
      using mm_map_level_spec [OF at l3 ptable_inv_table [OF inv k] dvd_triv_right bg(1,3) True bg(4) fin(2) f48]
      by blast
    have st: "table_step idm ?l (root_table t k) (k * ?E) s s1" using er by (simp add: table_result_def)
    note ts = table_step_ptable(1) [OF inv k st] and oth = table_step_others [OF inv k st]
    have kept: "\<forall>j<k. j < ?c \<longrightarrow> (\<forall>p \<in> set (root_pages ?l t (mem s) j). mem s1 p = mem s p)"
      using oth less_imp_neq by blast
    have lt: "unat bg < unat fin" using True by (simp add: word_less_nat_alt)
    have ready: ok1 if "ptable_ready env flags t attrs (mem s) (unat bg) (unat fin)"
    proof -
      have "k * ?E < unat fin" using bg(1) lt by linarith
      then have "table_ready ?l flags attrs (mem s) (k * ?E) (unat bg) (unat fin) (root_table t k)"
        using that k bg(2) lt unfolding ptable_ready_def by simp
      then show ?thesis using er by (simp add: table_result_def)
    qed
    show ?thesis
    proof (cases ok1)
      case False
      have "attr_claim (has flags MM_FLAG_COMMIT) (new_attr flags attrs) (unat bg) (unat fin)
          (ptable_attr env flags t (mem s)) (ptable_attr env flags t (mem s1)) False a"
        if "unat a < space_end env flags" for a
        using root_claim_first [OF g inv k bg(1) er that] False by simp
      then have "ptable_result idm env flags t attrs (unat bg) (unat fin) s False s1"
        unfolding ptable_result_def using ts ready False by blast
      moreover have "map_root_loop env t attrs (?l + 1) flags [k..<?c] bg fin s = Ret (False, s1)"
        unfolding up using e False True by simp
      ultimately show ?thesis using kept by blast
    next
      case ok1: True
      let ?n = "mm_start_of_next_block bg (mm_entry_size (Suc ?l))"
      note nx = at_root_next [OF g True Suc.prems(2) fin(1)]
      have "n = ?c - (k + 1)" using Suc.hyps(2) by simp
      from Suc.hyps(1) [OF this ptable_step_inv [OF inv ts] nx(2)]
      obtain ok s2 where r: "map_root_loop env t attrs (?l + 1) flags [k + 1..<?c] ?n fin s1 = Ret (ok, s2)"
        and tr: "ptable_result idm env flags t attrs ((k + 1) * ?E) (unat fin) s1 ok s2"
        and kp0: "\<forall>j<k + 1. j < ?c \<longrightarrow> (\<forall>p \<in> set (root_pages ?l t (mem s1) j). mem s2 p = mem s1 p)"
        unfolding nx(1) by blast
      have kp: "\<forall>j<Suc k. \<forall>p \<in> set (root_pages ?l t (mem s1) j). mem s2 p = mem s1 p"
      proof (intro allI impI)
        fix j
        assume "j < Suc k"
        then have "j < k + 1" "j < ?c" using k by simp_all
        then show "\<forall>p \<in> set (root_pages ?l t (mem s1) j). mem s2 p = mem s1 p" using kp0 by blast
      qed
      have er1: "table_result idm ?l (root_table t k) (k * ?E) flags attrs (unat bg) (unat fin) s True s1"
        using er ok1 by simp
      note claim = root_claim_rest [OF g inv k bg(1,2) er1 tr]
      have after: "ptable_ready env flags t attrs (mem s2) (unat bg) (unat fin)"
        if "\<not> has flags MM_FLAG_COMMIT \<and> ok"
        using root_ready_after [OF k bg(1,2) _ _ kp] er1 tr that by (simp add: table_result_def ptable_result_def)
      have before: ok if "ptable_ready env flags t attrs (mem s) (unat bg) (unat fin)"
        using root_ready_before [OF inv k bg(1,2) st that] tr by (simp add: ptable_result_def)
      have "ptable_result idm env flags t attrs (unat bg) (unat fin) s ok s2"
        using ptable_step_trans [OF ts] tr claim after before unfolding ptable_result_def [of _ _ _ _ _ "unat bg"]
        by (simp add: ptable_result_def)
      moreover have "map_root_loop env t attrs (?l + 1) flags [k..<?c] bg fin s = Ret (ok, s2)"
        unfolding up using True e ok1 r by simp
      moreover have "\<forall>j<k. j < ?c \<longrightarrow> (\<forall>p \<in> set (root_pages ?l t (mem s) j). mem s2 p = mem s p)"
      proof (intro allI impI ballI)
        fix j p
        assume j: "j < k" "j < ?c" and p: "p \<in> set (root_pages ?l t (mem s) j)"
        have "\<forall>p \<in> set (root_pages ?l t (mem s) j). mem s1 p = mem s p" using kept j by blast
        from root_frame(1) [OF this] p have "p \<in> set (root_pages ?l t (mem s1) j)" by simp
        then have "mem s2 p = mem s1 p" using kp j by (meson less_SucI)
        also have "\<dots> = mem s p" using kept j p by blast
        finally show "mem s2 p = mem s p" .
      qed
      ultimately show ?thesis by blast
    qed
  qed
qed

section \<open>The identity mapping\<close>

lemma ptable_result_log [simp]:
  "ptable_result idm env flags t attrs b f s ok (log_event e s') = ptable_result idm env flags t attrs b f s ok s'"
  by (simp add: ptable_result_def ptable_step_def ptable_pages_def)

lemma space_end_unat:
  assumes "geom_ok env flags"
  shows "unat (mm_ptable_addr_space_end env flags) = space_end env flags" "4096 dvd space_end env flags"
    "space_end env flags \<le> 2 ^ 48"
proof -
  let ?c = "mm_root_table_count env flags" and ?l = "mm_max_level env flags"
  show le: "space_end env flags \<le> 2 ^ 48" using assms by (simp add: geom_ok_def space_end_def)
  have c: "unat (of_nat ?c :: u64) = ?c"
    using assms by (intro unat_of_nat_less) (simp add: geom_ok_def)
  have e: "unat (mm_entry_size (?l + 1)) = esz (Suc ?l)" using assms by (simp add: geom_ok_def)
  have "?c * esz (Suc ?l) < 2 ^ LENGTH(64)" using le by (simp add: space_end_def)
  then show "unat (mm_ptable_addr_space_end env flags) = space_end env flags"
    unfolding mm_ptable_addr_space_end_def space_end_def
    using unat_mult_no_wrap [of "of_nat ?c :: u64" "mm_entry_size (?l + 1)"] unfolding c e by simp
  show "4096 dvd space_end env flags"
    unfolding space_end_def using esz_dvd [of 0 "Suc ?l"] by (simp add: esz_0)
qed

lemma mm_map_root_spec:
  assumes g: "geom_ok env flags" and at: "has flags MM_FLAG_UNMAP \<or> pte_attrs_ok attrs"
    and inv: "ptable_inv idm env flags t s"
    and fin: "unat fin \<le> space_end env flags" "4096 dvd unat fin" "4096 dvd unat begin"
  shows "\<exists>ok s'. mm_map_root env t begin fin attrs (mm_max_level env flags + 1) flags s = Ret (ok, s') \<and>
    ptable_result idm env flags t attrs (unat begin) (unat fin) s ok s'"
proof -
  let ?k = "mm_index begin (Suc (mm_max_level env flags))"
  have "at_root env flags ?k begin fin"
  proof (cases "begin < fin")
    case True
    then have "unat begin < space_end env flags" using fin(1) by (simp add: word_less_nat_alt)
    then show ?thesis using root_index [OF g, of "begin"] fin(3) by (auto simp: at_root_def)
  qed (use fin(3) in \<open>simp add: at_root_def\<close>)
  from map_root_loop_spec [OF g at fin(1,2) inv this] show ?thesis
    unfolding mm_map_root_def by auto
qed

text \<open>The range an identity mapping covers, in pages and cut off at the end of the address space.\<close>

definition range_begin :: "u64 \<Rightarrow> nat" where
  "range_begin pa = unat pa mod 2 ^ 48 div 4096 * 4096"

definition range_end :: "mm_env \<Rightarrow> u32 \<Rightarrow> u64 \<Rightarrow> nat" where
  "range_end env flags pa = min ((unat pa + 4095) div 4096 * 4096) (space_end env flags)"

lemma mm_ptable_identity_map_spec:
  assumes g: "geom_ok env flags" and at: "has flags MM_FLAG_UNMAP \<or> pte_attrs_ok attrs"
    and inv: "ptable_inv idm env flags t s" and e: "unat pa_end \<le> 2 ^ 64 - 4096"
  shows "\<exists>ok s'. mm_ptable_identity_map env t pa_begin pa_end attrs flags s = Ret (ok, s') \<and>
    ptable_result idm env flags t attrs (range_begin pa_begin) (range_end env flags pa_end) s ok s'"
proof -
  let ?e = "mm_ptable_addr_space_end env flags" and ?f = "mm_round_up_to_page pa_end"
  let ?fin = "if ?f > ?e then ?e else ?f"
  note se = space_end_unat [OF g]
  have f: "unat ?fin = range_end env flags pa_end"
    using round_up_unat [OF e] se(1) by (simp add: range_end_def word_less_nat_alt min_def)
  have b: "unat (arch_mm_clear_pa pa_begin) = range_begin pa_begin"
    by (simp only: clear_pa_unat range_begin_def)
  have d: "unat ?fin \<le> space_end env flags" "4096 dvd unat ?fin" "4096 dvd unat (arch_mm_clear_pa pa_begin)"
    unfolding f b using se(2) by (auto simp: range_end_def range_begin_def min_def)
  obtain ok s' where r: "mm_map_root env t (arch_mm_clear_pa pa_begin) ?fin attrs (mm_max_level env flags + 1) flags s = Ret (ok, s')"
    and pr: "ptable_result idm env flags t attrs (range_begin pa_begin) (range_end env flags pa_end) s ok s'"
    using mm_map_root_spec [OF g at inv d] unfolding f b by blast
  have "2 \<le> mm_max_level env flags + 1" using g by (simp add: geom_ok_def)
  then have "mm_ptable_identity_map env t pa_begin pa_end attrs flags s =
    Ret (ok, if ok then log_event Sync_writes s' else s')"
    using r by (simp add: mm_ptable_identity_map_def Let_def)
  then show ?thesis using pr by (cases ok) auto
qed

section \<open>Flags\<close>

text \<open>The view of a page table does not depend on the commit flag.\<close>

lemma flag_bits:
  "has flags MM_FLAG_COMMIT \<longleftrightarrow> bit flags 0" "has flags MM_FLAG_UNMAP \<longleftrightarrow> bit flags 1"
  "has flags MM_FLAG_STAGE1 \<longleftrightarrow> bit flags 2"
  using has_bit [of flags 0] has_bit [of flags 1] has_bit [of flags 2]
  by (simp_all add: MM_FLAG_COMMIT_def MM_FLAG_UNMAP_def MM_FLAG_STAGE1_def)

lemma bit_flag_commit [simp]: "bit MM_FLAG_COMMIT n \<longleftrightarrow> n = 0"
  by (auto simp: MM_FLAG_COMMIT_def bit_1_iff)

lemma has_commit [simp]:
  "has (flags AND NOT MM_FLAG_COMMIT) MM_FLAG_UNMAP = has flags MM_FLAG_UNMAP"
  "has (flags AND NOT MM_FLAG_COMMIT) MM_FLAG_STAGE1 = has flags MM_FLAG_STAGE1"
  "has (flags AND NOT MM_FLAG_COMMIT) MM_FLAG_COMMIT \<longleftrightarrow> False"
  "has (flags OR MM_FLAG_COMMIT) MM_FLAG_UNMAP = has flags MM_FLAG_UNMAP"
  "has (flags OR MM_FLAG_COMMIT) MM_FLAG_STAGE1 = has flags MM_FLAG_STAGE1"
  "has (flags OR MM_FLAG_COMMIT) MM_FLAG_COMMIT \<longleftrightarrow> True"
  unfolding flag_bits bit_and_iff bit_or_iff bit_not_iff_eq bit_flag_commit by simp_all

definition same_view :: "u32 \<Rightarrow> u32 \<Rightarrow> bool" where
  "same_view f f' \<longleftrightarrow>
     has f MM_FLAG_UNMAP = has f' MM_FLAG_UNMAP \<and> has f MM_FLAG_STAGE1 = has f' MM_FLAG_STAGE1"

lemma same_view_commit [simp]:
  "same_view (flags AND NOT MM_FLAG_COMMIT) flags" "same_view (flags OR MM_FLAG_COMMIT) flags"
  by (simp_all add: same_view_def)

lemma same_view_geometry:
  assumes "same_view f f'"
  shows "mm_max_level env f = mm_max_level env f'" "mm_root_table_count env f = mm_root_table_count env f'"
    "new_attr f attrs = new_attr f' attrs"
  using assms by (simp_all add: same_view_def mm_max_level_def mm_root_table_count_def new_attr_def)

lemma same_view_entry_ready:
  assumes v: "same_view f f'"
  shows "entry_ready l f = entry_ready l f'"
proof -
  have d: "entry_done f = entry_done f'" "entry_whole f = entry_whole f'"
    using v by (simp_all add: same_view_def entry_done_def entry_whole_def fun_eq_iff)
  show ?thesis by (induction l) (simp_all only: entry_ready.simps d fun_eq_iff simp_thms)
qed

lemma same_view_ptable:
  assumes v: "same_view f f'"
  shows "geom_ok env f = geom_ok env f'" "space_end env f = space_end env f'"
    "range_end env f = range_end env f'"
    "ptable_inv idm env f t = ptable_inv idm env f' t" "ptable_step idm env f t = ptable_step idm env f' t"
    "ptable_attr env f t = ptable_attr env f' t" "ptable_ready env f t = ptable_ready env f' t"
  by (simp_all add: fun_eq_iff geom_ok_def space_end_def range_end_def ptable_inv_def ptable_step_def ptable_ok_def
      ptable_pages_def ptable_attr_def ptable_ready_def table_ready_def same_view_geometry [OF v]
      same_view_entry_ready [OF v])

section \<open>Prepare, commit and update\<close>

lemma identity_prepare_spec:
  assumes g: "geom_ok env flags" and at: "has flags MM_FLAG_UNMAP \<or> pte_attrs_ok attrs"
    and inv: "ptable_inv idm env flags t s" and e: "unat pa_end \<le> 2 ^ 64 - 4096"
  shows "\<exists>ok s'. mm_ptable_identity_prepare env t pa_begin pa_end attrs flags s = Ret (ok, s') \<and>
    ptable_step idm env flags t s s' \<and>
    (\<forall>a. unat a < space_end env flags \<longrightarrow>
      ptable_attr env flags t (mem s') a = ptable_attr env flags t (mem s) a) \<and>
    (ok \<longrightarrow> ptable_ready env flags t attrs (mem s') (range_begin pa_begin) (range_end env flags pa_end))"
proof -
  let ?f = "flags AND NOT MM_FLAG_COMMIT"
  note sv = same_view_ptable [OF same_view_commit(1) [of flags]]
  have g': "geom_ok env ?f" and inv': "ptable_inv idm env ?f t s"
    and at': "has ?f MM_FLAG_UNMAP \<or> pte_attrs_ok attrs" using g inv at sv by simp_all
  from mm_ptable_identity_map_spec [OF g' at' inv' e, of pa_begin] show ?thesis
    unfolding mm_ptable_identity_prepare_def ptable_result_def attr_claim_def sv has_commit by auto
qed

lemma identity_commit_spec:
  assumes g: "geom_ok env flags" and at: "has flags MM_FLAG_UNMAP \<or> pte_attrs_ok attrs"
    and inv: "ptable_inv idm env flags t s" and e: "unat pa_end \<le> 2 ^ 64 - 4096"
    and ready: "ptable_ready env flags t attrs (mem s) (range_begin pa_begin) (range_end env flags pa_end)"
  shows "\<exists>s'. mm_ptable_identity_commit env t pa_begin pa_end attrs flags s = Ret s' \<and>
    ptable_step idm env flags t s s' \<and>
    (\<forall>a. unat a < space_end env flags \<longrightarrow>
      ptable_attr env flags t (mem s') a =
        (if range_begin pa_begin \<le> unat a \<and> unat a < range_end env flags pa_end then new_attr flags attrs
         else ptable_attr env flags t (mem s) a))"
proof -
  let ?f = "flags OR MM_FLAG_COMMIT"
  note sv = same_view_ptable [OF same_view_commit(2) [of flags]] same_view_geometry(3) [OF same_view_commit(2) [of flags]]
  have g': "geom_ok env ?f" and inv': "ptable_inv idm env ?f t s"
    and at': "has ?f MM_FLAG_UNMAP \<or> pte_attrs_ok attrs" using g inv at sv by simp_all
  from mm_ptable_identity_map_spec [OF g' at' inv' e, of pa_begin] ready obtain s'
    where r: "mm_ptable_identity_map env t pa_begin pa_end attrs ?f s = Ret (True, s')"
      and "ptable_step idm env flags t s s'"
      and a: "\<And>a. unat a < space_end env flags \<Longrightarrow> attr_claim True (new_attr flags attrs)
        (range_begin pa_begin) (range_end env flags pa_end)
        (ptable_attr env flags t (mem s)) (ptable_attr env flags t (mem s')) True a"
    unfolding ptable_result_def sv has_commit by auto
  moreover have "mm_ptable_identity_commit env t pa_begin pa_end attrs flags s = Ret s'"
    unfolding mm_ptable_identity_commit_def r by (simp del: and_then_eq_Ret)
  moreover have "ptable_attr env flags t (mem s') x =
      (if range_begin pa_begin \<le> unat x \<and> unat x < range_end env flags pa_end then new_attr flags attrs
       else ptable_attr env flags t (mem s) x)" if "unat x < space_end env flags" for x
    using a [OF that] by (auto simp: attr_claim_def split: if_splits)
  ultimately show ?thesis by blast
qed

lemma identity_update_spec:
  assumes g: "geom_ok env flags" and at: "has flags MM_FLAG_UNMAP \<or> pte_attrs_ok attrs"
    and inv: "ptable_inv idm env flags t s" and e: "unat pa_end \<le> 2 ^ 64 - 4096"
  shows "\<exists>ok s'. mm_ptable_identity_update env t pa_begin pa_end attrs flags s = Ret (ok, s') \<and>
    ptable_step idm env flags t s s' \<and>
    (\<forall>a. unat a < space_end env flags \<longrightarrow>
      ptable_attr env flags t (mem s') a =
        (if ok \<and> range_begin pa_begin \<le> unat a \<and> unat a < range_end env flags pa_end then new_attr flags attrs
         else ptable_attr env flags t (mem s) a))"
proof -
  obtain ok s1 where p: "mm_ptable_identity_prepare env t pa_begin pa_end attrs flags s = Ret (ok, s1)"
    and st: "ptable_step idm env flags t s s1"
    and same: "\<And>a. unat a < space_end env flags \<Longrightarrow> ptable_attr env flags t (mem s1) a = ptable_attr env flags t (mem s) a"
    and ready: "ok \<Longrightarrow> ptable_ready env flags t attrs (mem s1) (range_begin pa_begin) (range_end env flags pa_end)"
    using identity_prepare_spec [OF g at inv e, of pa_begin] by blast
  show ?thesis
  proof (cases ok)
    case True
    from identity_commit_spec [OF g at ptable_step_inv [OF inv st] e ready [OF True]] obtain s2
      where "mm_ptable_identity_commit env t pa_begin pa_end attrs flags s1 = Ret s2"
        "ptable_step idm env flags t s1 s2"
        "\<forall>a. unat a < space_end env flags \<longrightarrow> ptable_attr env flags t (mem s2) a =
          (if range_begin pa_begin \<le> unat a \<and> unat a < range_end env flags pa_end then new_attr flags attrs
           else ptable_attr env flags t (mem s1) a)" by blast
    moreover have "mm_ptable_identity_update env t pa_begin pa_end attrs flags s = Ret (True, s2)"
      using True p calculation(1) by (simp add: mm_ptable_identity_update_def)
    ultimately show ?thesis using same ptable_step_trans [OF st, of s2]
      by (intro exI [of _ True] exI [of _ s2]) simp
  next
    case False
    then have "mm_ptable_identity_update env t pa_begin pa_end attrs flags s = Ret (False, s1)"
      using p by (simp add: mm_ptable_identity_update_def)
    then show ?thesis using st same by (intro exI [of _ False] exI [of _ s1]) simp
  qed
qed

end
