(* ===== verification/MM_Get.thy ===== *)
theory MM_Get
  imports MM_Root
begin

text \<open>
  Reading the attributes of a range: \<open>mm_get_attrs\<close> of \<^verbatim>\<open>src/mm.c\<close> against the attributes of
  the addresses of the range.
\<close>

section \<open>Reading attributes\<close>

text \<open>
  What a walk over the addresses from \<open>bg\<close> up to \<open>f\<close> returns, when \<open>F\<close> gives the attributes of
  each address: whether they all agree, with the attributes found before if there are any.
\<close>

definition get_result :: "(u64 \<Rightarrow> u64) \<Rightarrow> u64 \<Rightarrow> nat \<Rightarrow> bool \<Rightarrow> u64 \<Rightarrow> bool \<Rightarrow> u64 \<Rightarrow> bool" where
  "get_result F bg f got attrs ok x \<longleftrightarrow>
     (if unat bg < f
      then (ok \<longleftrightarrow> (\<forall>a. unat bg \<le> unat a \<and> unat a < f \<longrightarrow> F a = (if got then attrs else F bg))) \<and>
        (ok \<longrightarrow> x = (if got then attrs else F bg))
      else ok = got \<and> x = attrs)"

lemma get_result_same:
  assumes "\<And>a. unat bg \<le> unat a \<Longrightarrow> unat a < f \<Longrightarrow> F a = v" "unat bg < f"
  shows "get_result F bg f False attrs True v" "v = attrs \<Longrightarrow> get_result F bg f True attrs True attrs"
    "v \<noteq> attrs \<Longrightarrow> get_result F bg f True attrs False x"
  using assms by (auto simp: get_result_def)

lemma get_result_fail:
  assumes "get_result F bg g got attrs False x" "unat bg < g" "g \<le> f"
  shows "get_result F bg f got attrs False y"
proof -
  obtain a where "unat bg \<le> unat a" "unat a < g" "F a \<noteq> (if got then attrs else F bg)"
    using assms(1,2) unfolding get_result_def by auto
  moreover have "unat a < f" "unat bg < f" using calculation(2) assms(2,3) by simp_all
  ultimately show ?thesis unfolding get_result_def by auto
qed

lemma get_result_append:
  assumes 1: "get_result F bg (min f (unat n)) got attrs True x" and lt: "unat bg < f" "unat bg < unat n"
    and 2: "get_result F n f True x ok y"
  shows "get_result F bg f got attrs ok y"
proof -
  let ?r = "if got then attrs else F bg"
  have x: "x = ?r" "\<And>a. unat bg \<le> unat a \<Longrightarrow> unat a < f \<Longrightarrow> unat a < unat n \<Longrightarrow> F a = ?r"
    using 1 lt by (auto simp: get_result_def)
  have "ok \<longleftrightarrow> (\<forall>a. unat n \<le> unat a \<and> unat a < f \<longrightarrow> F a = ?r)" "ok \<longrightarrow> y = ?r"
    using 2 x(1) by (auto simp: get_result_def split: if_splits)
  moreover have "(\<forall>a. unat n \<le> unat a \<and> unat a < f \<longrightarrow> F a = ?r) \<longleftrightarrow>
    (\<forall>a. unat bg \<le> unat a \<and> unat a < f \<longrightarrow> F a = ?r)"
    using x(2) lt by (meson less_imp_le not_le order_trans)
  ultimately show ?thesis using lt by (simp add: get_result_def)
qed

lemma get_result_cong:
  assumes "\<And>a. unat bg \<le> unat a \<Longrightarrow> unat a < f \<Longrightarrow> F a = F' a"
  shows "get_result F bg f got attrs ok x = get_result F' bg f got attrs ok x"
  using assms by (auto simp: get_result_def)

lemma get_attrs_loop_spec:
  assumes l: "l \<le> 3" "esz (Suc l) dvd B"
    and fin: "unat fin \<le> B + esz (Suc l)" "unat fin \<le> 2 ^ 48"
    and IH: "\<And>k nt base bg got attrs. l = Suc k \<Longrightarrow> esz l dvd base \<Longrightarrow>
      base \<le> unat bg \<Longrightarrow> unat bg < base + esz l \<Longrightarrow> bg < fin \<Longrightarrow> 4096 dvd unat bg \<Longrightarrow>
      \<exists>ok x. below nt bg fin got attrs = Ret (ok, x) \<and>
        get_result (table_attr k m nt) bg (min (unat fin) (base + esz l)) got attrs ok x"
  shows "at_entry l B i bg fin \<Longrightarrow> i \<le> 512 \<Longrightarrow>
    \<exists>ok x. get_attrs_loop below m l t [i..<512] bg fin got attrs = Ret (ok, x) \<and>
      get_result (table_attr l m t) bg (unat fin) got attrs ok x"
proof (induction "512 - i" arbitrary: i bg got attrs)
  case 0
  then have "\<not> bg < fin" "i = 512" by (auto simp: at_entry_def)
  then show ?case by (simp add: get_result_def word_less_nat_alt)
next
  case (Suc n)
  then have i: "i < 512" and up: "[i..<512] = i # [i + 1..<512]" by (simp_all add: upt_conv_Cons)
  show ?case
  proof (cases "bg < fin")
    case False
    then show ?thesis unfolding up by (simp add: get_result_def word_less_nat_alt)
  next
    case True
    let ?n = "mm_start_of_next_block bg (mm_entry_size l)" and ?F = "table_attr l m t" and ?pte = "m t i"
    note nx = at_entry_next [OF l True Suc.prems(1) fin]
    have bg: "B + i * esz l \<le> unat bg" "unat bg < B + (i + 1) * esz l" "4096 dvd unat bg"
      using Suc.prems(1) True by (simp_all add: at_entry_def)
    have bd: "esz l dvd B + i * esz l" using dvd_trans [OF esz_dvd l(2), of l] by simp
    have lt: "unat bg < B + i * esz l + esz l" using bg(2) by (simp add: add_ac)
    have n: "unat bg < unat ?n" unfolding nx(1) by (rule bg(2))
    have f: "unat bg < unat fin" using True by (simp add: word_less_nat_alt)
    have F: "?F a = attr_at l m ?pte a" if "unat bg \<le> unat a" "unat a < min (unat fin) (unat ?n)" for a
      using that bg index_in_table [OF l(2), of i a] i unfolding table_attr_def nx(1) by simp
    have rest: "\<exists>ok x. get_attrs_loop below m l t [i + 1..<512] ?n fin got' attrs' = Ret (ok, x) \<and>
        get_result ?F ?n (unat fin) got' attrs' ok x" for got' attrs'
      using Suc.hyps(1) [OF _ nx(2)] Suc.hyps(2) i by simp
    show ?thesis
    proof (cases "arch_mm_pte_is_table ?pte l")
      case tab: True
      then obtain k where k: "l = Suc k" by (cases l) (simp_all add: pte_is_table_bit)
      let ?nt = "sub_table ?pte l"
      have "?F a = table_attr k m ?nt a" if "unat bg \<le> unat a" "unat a < min (unat fin) (unat ?n)" for a
        using F [OF that] tab unfolding k attr_at_table by simp
      note cong = get_result_cong [of bg "min (unat fin) (unat ?n)" ?F "table_attr k m ?nt", OF this]
      have e: "B + i * esz l + esz l = unat ?n" unfolding nx(1) by simp
      obtain ok1 x1 where b: "below ?nt bg fin got attrs = Ret (ok1, x1)"
        and r1: "get_result ?F bg (min (unat fin) (unat ?n)) got attrs ok1 x1"
        using IH [OF k bd bg(1) lt True bg(3), of ?nt got attrs] cong unfolding e by blast
      show ?thesis
      proof (cases ok1)
        case ok: True
        obtain ok x where "get_attrs_loop below m l t [i + 1..<512] ?n fin True x1 = Ret (ok, x)"
          and r: "get_result ?F ?n (unat fin) True x1 ok x" using rest by blast
        then have "get_attrs_loop below m l t [i..<512] bg fin got attrs = Ret (ok, x)"
          unfolding up using True tab b ok by (simp add: sub_table_def del: and_then_eq_Ret)
        then show ?thesis using get_result_append [OF _ f n r, of got attrs] r1 ok by auto
      next
        case False
        then have "get_attrs_loop below m l t [i..<512] bg fin got attrs = Ret (False, x1)"
          unfolding up using True tab b by (simp add: sub_table_def del: and_then_eq_Ret)
        then show ?thesis using get_result_fail [of ?F bg "min (unat fin) (unat ?n)"] r1 False f n by auto
      qed
    next
      case leaf: False
      let ?v = "arch_mm_pte_attrs ?pte l"
      have v: "?F a = ?v" if "unat bg \<le> unat a" "unat a < min (unat fin) (unat ?n)" for a
        using F [OF that] leaf by (cases l) simp_all
      have m: "unat bg < min (unat fin) (unat ?n)" using f n by simp
      note same = get_result_same [of bg "min (unat fin) (unat ?n)" ?F ?v, OF v m]
      show ?thesis
      proof (cases "got \<and> ?v \<noteq> attrs")
        case bad: True
        then have "get_attrs_loop below m l t [i..<512] bg fin got attrs = Ret (False, attrs)"
          unfolding up using True leaf by simp
        then show ?thesis using get_result_fail [OF same(3) m] bad by auto
      next
        case good: False
        obtain ok x where g: "get_attrs_loop below m l t [i + 1..<512] ?n fin True ?v = Ret (ok, x)"
          and r: "get_result ?F ?n (unat fin) True ?v ok x" using rest by blast
        have "get_attrs_loop below m l t [i..<512] bg fin got attrs = Ret (ok, x)"
          unfolding up using True leaf g good by (cases got) simp_all
        moreover have "get_result ?F bg (unat fin) got attrs ok x"
          using get_result_append [OF _ f n r] same good by (cases got) auto
        ultimately show ?thesis by blast
      qed
    qed
  qed
qed

lemma get_attrs_table_spec:
  assumes p: "l \<le> 3" "esz (Suc l) dvd B" "B \<le> unat bg" "unat bg < B + esz (Suc l)"
      "bg < fin" "4096 dvd unat bg" "unat fin \<le> 2 ^ 48"
    and IH: "\<And>k nt base bg' fin' got attrs. l = Suc k \<Longrightarrow> esz l dvd base \<Longrightarrow>
      base \<le> unat bg' \<Longrightarrow> unat bg' < base + esz l \<Longrightarrow> bg' < fin' \<Longrightarrow> 4096 dvd unat bg' \<Longrightarrow>
      unat fin' \<le> 2 ^ 48 \<Longrightarrow>
      \<exists>ok x. below nt bg' fin' got attrs = Ret (ok, x) \<and>
        get_result (table_attr k m nt) bg' (min (unat fin') (base + esz l)) got attrs ok x"
  shows "\<exists>ok x. get_attrs_loop below m l t [mm_index bg l..<MM_PTE_PER_PAGE] bg
      (min fin (mm_level_end bg l)) got attrs = Ret (ok, x) \<and>
    get_result (table_attr l m t) bg (min (unat fin) (B + esz (Suc l))) got attrs ok x"
proof -
  let ?f = "min fin (mm_level_end bg l)"
  have b48: "unat bg < 2 ^ 48" using p(5,7) by (simp add: word_less_nat_alt)
  have f: "unat ?f = min (unat fin) (B + esz (Suc l))"
    unfolding unat_min level_end_table [OF p(1-4) b48] ..
  have fin: "unat ?f \<le> B + esz (Suc l)" "unat ?f \<le> 2 ^ 48" using p(7) unfolding f by (auto simp: min_def)
  have lt: "bg < ?f" using p(4,5) f by (simp add: word_less_nat_alt)
  have ae: "at_entry l B (mm_index bg l) bg ?f"
    using table_position [OF p(2,3)] p(4,6) lt by (simp add: at_entry_def esz_Suc)
  note IH' = IH [where fin' = ?f, OF _ _ _ _ _ _ fin(2)]
  show ?thesis
    using get_attrs_loop_spec [where below = below and m = m, OF p(1,2) fin _ ae] IH'
    unfolding f by (auto simp: MM_PTE_PER_PAGE_def less_imp_le)
qed

lemma mm_ptable_get_attrs_level_spec:
  shows "l \<le> 3 \<Longrightarrow> esz (Suc l) dvd B \<Longrightarrow> B \<le> unat bg \<Longrightarrow>
    unat bg < B + esz (Suc l) \<Longrightarrow> bg < fin \<Longrightarrow> 4096 dvd unat bg \<Longrightarrow> unat fin \<le> 2 ^ 48 \<Longrightarrow>
    \<exists>ok x. mm_ptable_get_attrs_level l m t bg fin got attrs = Ret (ok, x) \<and>
      get_result (table_attr l m t) bg (min (unat fin) (B + esz (Suc l))) got attrs ok x"
proof (induction l arbitrary: t B bg fin got attrs)
  case 0
  show ?case unfolding mm_ptable_get_attrs_level.simps by (rule get_attrs_table_spec [OF 0]) simp
next
  case (Suc l)
  have IH: "\<exists>ok x. mm_ptable_get_attrs_level l m nt bg' fin' got attrs = Ret (ok, x) \<and>
      get_result (table_attr k m nt) bg' (min (unat fin') (base + esz (Suc l))) got attrs ok x"
    if "Suc l = Suc k" "esz (Suc l) dvd base" "base \<le> unat bg'"
      "unat bg' < base + esz (Suc l)" "bg' < fin'" "4096 dvd unat bg'"
      "unat fin' \<le> 2 ^ 48" for k nt base bg' fin' got attrs
    using that Suc.IH [of base bg' fin' nt got attrs] Suc.prems(1) by simp
  show ?case
    unfolding mm_ptable_get_attrs_level.simps
    by (rule get_attrs_table_spec [where below = "mm_ptable_get_attrs_level l m", OF Suc.prems IH])
qed

lemma get_attrs_root_loop_spec:
  assumes g: "geom_ok env flags" and fin: "unat fin \<le> space_end env flags"
  shows "at_root env flags k bg fin \<Longrightarrow>
    \<exists>ok x. get_attrs_root_loop m t (mm_max_level env flags) [k..<mm_root_table_count env flags]
        bg fin got attrs = Ret (ok, x) \<and>
      get_result (ptable_attr env flags t m) bg (unat fin) got attrs ok x"
proof (induction "mm_root_table_count env flags - k" arbitrary: k bg got attrs)
  case 0
  then have n: "\<not> bg < fin" and e: "[k..<mm_root_table_count env flags] = []" by (auto simp: at_root_def)
  show ?case unfolding e using n by (simp add: get_result_def word_less_nat_alt)
next
  case (Suc c)
  let ?l = "mm_max_level env flags" and ?c = "mm_root_table_count env flags"
  let ?E = "esz (Suc ?l)" and ?F = "ptable_attr env flags t m"
  have cn: "c = ?c - (k + 1)" using Suc.hyps(2) by linarith
  have up: "[k..<?c] = k # [k + 1..<?c]" using Suc.hyps(2) by (simp add: upt_conv_Cons)
  show ?case
  proof (cases "bg < fin")
    case False
    then show ?thesis unfolding up by (simp add: get_result_def word_less_nat_alt)
  next
    case True
    let ?n = "mm_start_of_next_block bg (mm_entry_size (Suc ?l))"
    note nx = at_root_next [OF g True Suc.prems fin]
    have bg: "k * ?E \<le> unat bg" "unat bg < k * ?E + ?E" "4096 dvd unat bg"
      using Suc.prems True by (simp_all add: at_root_def)
    have l: "?l \<le> 3" and f48: "unat fin \<le> 2 ^ 48" using g fin by (simp_all add: geom_ok_def space_end_def)
    have e: "k * ?E + ?E = unat ?n" unfolding nx(1) by simp
    have f: "unat bg < unat fin" "unat bg < unat ?n" using True bg e by (simp_all add: word_less_nat_alt)
    have F: "?F a = table_attr ?l m (root_table t k) a"
      if "unat bg \<le> unat a" "unat a < min (unat fin) (unat ?n)" for a
    proof -
      have "unat a < space_end env flags" using that fin by simp
      then obtain j where j: "mm_index a (Suc ?l) = j" "j * ?E \<le> unat a" "unat a < (j + 1) * ?E"
        using root_index [OF g] by blast
      have "k * ?E \<le> unat a" "unat a < (k + 1) * ?E" using that bg(1) e by simp_all
      then have "unat a div ?E = k" by (intro div_nat_eqI) (simp_all add: algebra_simps)
      moreover have "unat a div ?E = j" using j by (intro div_nat_eqI) (simp_all add: algebra_simps)
      ultimately show ?thesis unfolding ptable_attr_def j(1) by simp
    qed
    note cong = get_result_cong [of bg "min (unat fin) (unat ?n)" ?F "table_attr ?l m (root_table t k)", OF F]
    obtain ok1 x1 where b: "mm_ptable_get_attrs_level ?l m (root_table t k) bg fin got attrs = Ret (ok1, x1)"
      and r1: "get_result ?F bg (min (unat fin) (unat ?n)) got attrs ok1 x1"
      using mm_ptable_get_attrs_level_spec [OF l _ bg(1,2) True bg(3) f48, of m "root_table t k" got attrs] cong
      unfolding e by auto
    show ?thesis
    proof (cases ok1)
      case ok: True
      obtain ok x where "get_attrs_root_loop m t ?l [k + 1..<?c] ?n fin True x1 = Ret (ok, x)"
        and r: "get_result ?F ?n (unat fin) True x1 ok x"
        using Suc.hyps(1) [OF cn nx(2), of True x1] by blast
      then have "get_attrs_root_loop m t ?l [k..<?c] bg fin got attrs = Ret (ok, x)"
        unfolding up using True b ok by (simp del: and_then_eq_Ret)
      then show ?thesis using get_result_append [OF _ f r, of got attrs] r1 ok by auto
    next
      case False
      then have "get_attrs_root_loop m t ?l [k..<?c] bg fin got attrs = Ret (False, x1)"
        unfolding up using True b by (simp del: and_then_eq_Ret)
      then show ?thesis using get_result_fail [of ?F bg "min (unat fin) (unat ?n)"] r1 False f by auto
    qed
  qed
qed

text \<open>
  \<open>mm_get_attrs\<close> on a range that is not empty: it succeeds exactly when the range lies in the
  address space and all its addresses have the same attributes.
\<close>

lemma mm_get_attrs_spec:
  assumes g: "geom_ok env flags" and e: "unat end \<le> 2 ^ 64 - 4096" and lt: "b < f"
    and b: "b = unat bg div 4096 * 4096" and f: "f = (unat end + 4095) div 4096 * 4096"
  shows "\<exists>ok x. mm_get_attrs env t bg end u flags s = Ret (ok, x) \<and>
    (ok \<longleftrightarrow> f \<le> space_end env flags \<and>
      (\<forall>a. b \<le> unat a \<and> unat a < f \<longrightarrow>
        ptable_attr env flags t (mem s) a = ptable_attr env flags t (mem s) (mm_round_down_to_page bg))) \<and>
    (ok \<longrightarrow> x = ptable_attr env flags t (mem s) (mm_round_down_to_page bg))"
proof -
  let ?b = "mm_round_down_to_page bg" and ?f = "mm_round_up_to_page end"
  have ub: "unat ?b = b" unfolding b round_down_unat ..
  have uf: "unat ?f = f" unfolding f round_up_unat [OF e] ..
  have gt: "?f > of_nat (mm_root_table_count env flags) * mm_entry_size (mm_max_level env flags + 1) \<longleftrightarrow>
      \<not> f \<le> space_end env flags"
    using space_end_unat(1) [OF g] uf
    unfolding mm_ptable_addr_space_end_def word_less_nat_alt by (simp only: not_le)
  show ?thesis
  proof (cases "f \<le> space_end env flags")
    case True
    have d: "4096 dvd unat ?b" unfolding ub b by simp
    have "?b < ?f" using lt ub uf by (simp add: word_less_nat_alt)
    moreover have "unat ?b < space_end env flags" using lt True ub by simp
    ultimately have "at_root env flags (mm_index ?b (Suc (mm_max_level env flags))) ?b ?f"
      using root_index [OF g, of ?b] d by (auto simp: at_root_def)
    from get_attrs_root_loop_spec [OF g _ this, of "mem s" t False u] True uf
    obtain ok x where r: "get_attrs_root_loop (mem s) t (mm_max_level env flags)
        [mm_index ?b (Suc (mm_max_level env flags))..<mm_root_table_count env flags] ?b ?f False u = Ret (ok, x)"
      "get_result (ptable_attr env flags t (mem s)) ?b (unat ?f) False u ok x" by auto
    have "mm_get_attrs env t bg end u flags s = Ret (ok, x)"
      unfolding mm_get_attrs_def Let_def gt using r(1) True by simp
    moreover note r(2) [unfolded get_result_def ub uf if_P [OF lt] if_False]
    ultimately show ?thesis using True by blast
  next
    case False
    then have "mm_get_attrs env t bg end u flags s = Ret (False, u)"
      unfolding mm_get_attrs_def Let_def gt by simp
    then show ?thesis using False by auto
  qed
qed

end
