(* ===== verification/MM_Init.thy ===== *)
theory MM_Init
  imports MM_Root
begin

text \<open>
  Creating and destroying page tables, \<open>mm_ptable_init\<close> and \<open>mm_ptable_fini\<close> of
  \<^verbatim>\<open>src/mm.c\<close>: which pages they take from and give back to the pool.
\<close>

section \<open>Root tables in the pool\<close>

lemma root_entries:
  assumes "pte_addr_ok r" "c \<le> 16"
  shows "chunk_entries PAGE_SIZE (r, r + of_nat c * PAGE_SIZE) = map (\<lambda>k. r + of_nat k * PAGE_SIZE) [0..<c]"
    "unat (r + of_nat c * PAGE_SIZE) = unat r + c * 4096"
proof -
  have c: "unat (of_nat c :: u64) = c" using assms(2) by (intro unat_of_nat_less) simp
  have m: "unat (of_nat c * PAGE_SIZE) = c * 4096"
    using unat_mult_no_wrap [of "of_nat c :: u64" PAGE_SIZE] assms(2) by (simp add: c page_size_unat)
  have "unat r < 2 ^ 48" using assms(1) by (simp add: pte_addr_ok_unat)
  then show u: "unat (r + of_nat c * PAGE_SIZE) = unat r + c * 4096"
    using unat_add_no_wrap [of r "of_nat c * PAGE_SIZE"] m assms(2) by simp
  show "chunk_entries PAGE_SIZE (r, r + of_nat c * PAGE_SIZE) = map (\<lambda>k. r + of_nat k * PAGE_SIZE) [0..<c]"
    unfolding chunk_entries_def fst_conv snd_conv u page_size_unat by simp
qed

lemma ptable_pages_roots:
  assumes "\<And>k. k < mm_root_table_count env flags \<Longrightarrow> table_pages (mm_max_level env flags) (mem s) (root_table t k) = []"
  shows "ptable_pages env flags t s = mset (map (root_table t) [0..<mm_root_table_count env flags]) + free_pages s"
proof -
  have "map (root_pages (mm_max_level env flags) t (mem s)) [0..<mm_root_table_count env flags] =
    map (\<lambda>k. [root_table t k]) [0..<mm_root_table_count env flags]"
    using assms by (intro map_cong) (simp_all add: root_pages_def)
  then show ?thesis unfolding ptable_pages_def by (simp only: concat_map_singleton)
qed

lemma unat_add_ge:
  assumes "a \<le> a + b"
  shows "unat (a + b :: u64) = unat a + unat b"
  using assms no_olen_add_nat [of a b] by (intro unat_add_no_wrap) simp

section \<open>Creating a page table\<close>

definition empty_table :: "(nat \<Rightarrow> u64) \<Rightarrow> nat \<Rightarrow> u64" where
  "empty_table f j = (if j < 512 then 0 else f j)"

lemma fill_absent: "fill_entries 0 MM_PTE_PER_PAGE (arch_mm_absent_pte l) 0 f = empty_table f"
  by (rule ext) (simp add: fill_entries_closed empty_table_def MM_PTE_PER_PAGE_def arch_mm_absent_pte_def)

lemma empty_table_idem [simp]: "empty_table (empty_table f) = empty_table f"
  by (rule ext) (simp add: empty_table_def)

lemma init_root_tables_Suc:
  "init_root_tables r (Suc c) l s =
    init_table (r + of_nat c * PAGE_SIZE) (empty_table (mem (init_root_tables r c l s) (r + of_nat c * PAGE_SIZE)))
      (init_root_tables r c l s)"
  unfolding init_root_tables_def by (simp add: fill_absent Let_def)

lemma init_root_tables_pool [simp]: "pool (init_root_tables r c l s) = pool s"
  by (induction c) (simp_all add: init_root_tables_Suc, simp add: init_root_tables_def)

lemma init_root_tables_mem:
  "mem (init_root_tables r c l s) p =
     (if p \<in> (\<lambda>k. r + of_nat k * PAGE_SIZE) ` {0..<c} then empty_table (mem s p) else mem s p)"
proof (induction c arbitrary: p)
  case 0
  show ?case by (simp add: init_root_tables_def)
next
  case (Suc c)
  then show ?case by (auto simp: init_root_tables_Suc atLeast0_lessThan_Suc)
qed

lemma empty_root:
  assumes "\<And>j. j < 512 \<Longrightarrow> m r j = 0"
  shows "table_pages l m r = []" "table_ok idm l m base r" "table_attr l m r a = 0"
proof -
  have z: "leaf_ok idm l b 0" for idm l b using leaf_absent by (simp add: arch_mm_absent_pte_def)
  show "table_pages l m r = []" using assms leaf_simps(1) [OF z] by (simp add: table_pages_def)
  show "table_ok idm l m base r" using assms leaf_simps(3) [OF z] by (simp add: table_ok_def)
  show "table_attr l m r a = 0"
    using assms [OF mm_index_less] leaf_simps(2) [OF z] by (simp add: table_attr_def arch_mm_pte_attrs_def)
qed

lemma mm_alloc_page_tables_spec:
  assumes p: "page_pool_ok p" "own_ok (mpool_avail p)" "\<forall>ch \<in> set (all_chunks p). unat (snd ch) \<le> 2 ^ 48"
    and c: "1 \<le> c" "c \<le> 16" "pow2 (of_nat c)"
  shows "case mm_alloc_page_tables c p of
      (p', None) \<Rightarrow> p' = p
    | (p', Some r) \<Rightarrow> page_pool_ok p' \<and> pte_addr_ok r \<and>
        mpool_avail p = mset (map (\<lambda>k. r + of_nat k * PAGE_SIZE) [0..<c]) + mpool_avail p'"
proof (cases "c = 1")
  case True
  obtain p' x where px: "mpool_alloc p = (p', x)" by fastforce
  show ?thesis
  proof (cases x)
    case None
    then show ?thesis using px mpool_alloc_None True by (auto simp: mm_alloc_page_tables_def)
  next
    case (Some r)
    with px have "mpool_wf p' \<and> entry_size p' = entry_size p \<and> mpool_avail p = add_mset r (mpool_avail p')"
      using mpool_alloc_Some p(1) unfolding page_pool_ok_def by blast
    then show ?thesis using px True Some p by (simp add: mm_alloc_page_tables_def page_pool_ok_def own_ok_def)
  qed
next
  case False
  have u: "unat (of_nat c :: u64) = c" using c(2) by (intro unat_of_nat_less) simp
  have b: "0 < (of_nat c :: u64)" "unat (of_nat c :: u64) * unat PAGE_SIZE < 2 ^ 64"
    using c u by (simp_all add: word_less_nat_alt page_size_unat)
  have m: "unat (of_nat c * PAGE_SIZE) \<le> 65536"
    using unat_mult_no_wrap [of "of_nat c :: u64" PAGE_SIZE] c(2) by (simp add: u page_size_unat)
  have ch: "\<forall>ch \<in> set (all_chunks p). unat (snd ch) + unat (of_nat c * PAGE_SIZE) + unat (of_nat c * PAGE_SIZE) \<le> 2 ^ 64"
    using p(3) m by fastforce
  have wf: "mpool_wf p" "entry_size p = PAGE_SIZE" using p(1) by (simp_all add: page_pool_ok_def)
  obtain p' x where px: "mpool_alloc_contiguous p (of_nat c) (of_nat c) = (p', x)" by fastforce
  note sp = mpool_alloc_contiguous_spec [OF c(3) b(1) b(2) b(2) wf ch, unfolded px]
  show ?thesis
  proof (cases x)
    case None
    then show ?thesis using sp px False by (simp add: mm_alloc_page_tables_def)
  next
    case (Some r)
    have av: "mpool_avail p = mset (chunk_entries PAGE_SIZE (r, r + of_nat c * PAGE_SIZE)) + mpool_avail p'"
      and wf': "mpool_wf p'" "entry_size p' = PAGE_SIZE" using sp Some by simp_all
    have r: "r < r + of_nat c * PAGE_SIZE" using sp Some by simp
    have um: "unat (of_nat c * PAGE_SIZE) = c * 4096"
      using unat_mult_no_wrap [of "of_nat c :: u64" PAGE_SIZE] c(2) by (simp add: u page_size_unat)
    have "unat (r + of_nat c * PAGE_SIZE) = unat r + c * 4096"
      using unat_add_ge [OF less_imp_le [OF r]] um by simp
    then have "r \<in> set (chunk_entries PAGE_SIZE (r, r + of_nat c * PAGE_SIZE))"
      using c(1) by (auto simp: chunk_entries_def page_size_unat intro!: image_eqI [of _ _ 0])
    then have "r \<in># mpool_avail p" unfolding av by simp
    then have ra: "pte_addr_ok r" using p(2) by (simp add: own_ok_def)
    show ?thesis
      using px Some False wf' ra av unfolding root_entries(1) [OF ra c(2)]
      by (simp add: mm_alloc_page_tables_def page_pool_ok_def)
  qed
qed

text \<open>
  \<open>mm_ptable_init\<close> takes exactly the root tables from the pool and makes a well-formed page
  table of them that maps nothing; when it fails nothing has changed.
\<close>

lemma mm_ptable_init_spec:
  assumes g: "geom_ok env flags" "pow2 (of_nat (mm_root_table_count env flags))"
    and p: "page_pool_ok (pool s)" "own_ok (free_pages s)" "\<forall>ch \<in> set (all_chunks (pool s)). unat (snd ch) \<le> 2 ^ 48"
  shows "case mm_ptable_init env vid flags s of
      (None, s') \<Rightarrow> s' = s
    | (Some t, s') \<Rightarrow> ptable_id t = vid \<and> ptable_inv True env flags t s' \<and>
        ptable_pages env flags t s' = free_pages s \<and>
        (\<forall>a. unat a < space_end env flags \<longrightarrow> ptable_attr env flags t (mem s') a = 0)"
proof -
  let ?c = "mm_root_table_count env flags" and ?l = "mm_max_level env flags"
  obtain p' x where px: "mm_alloc_page_tables ?c (pool s) = (p', x)" by fastforce
  have c: "1 \<le> ?c" "?c \<le> 16" using g(1) by (simp_all add: geom_ok_def)
  note al = mm_alloc_page_tables_spec [OF p c g(2), unfolded px]
  show ?thesis
  proof (cases x)
    case None
    then show ?thesis using al px by (simp add: mm_ptable_init_def Let_def)
  next
    case (Some r)
    define t where "t = \<lparr>ptable_id = vid, ptable_root = r\<rparr>"
    define s' where "s' = init_root_tables r ?c ?l (s\<lparr>pool := p'\<rparr>)"
    have i: "mm_ptable_init env vid flags s = (Some t, s')"
      using px Some by (simp add: mm_ptable_init_def Let_def t_def s'_def)
    have rt: "root_table t = (\<lambda>k. r + of_nat k * PAGE_SIZE)"
      by (rule ext) (simp add: root_table_def t_def mm_page_table_from_pa_def)
    have z: "mem s' (root_table t k) j = 0" if "k < ?c" "j < 512" for k j
      using that by (simp add: s'_def init_root_tables_mem rt empty_table_def)
    have pp: "ptable_pages env flags t s' = free_pages s"
    proof -
      have "ptable_pages env flags t s' = mset (map (root_table t) [0..<?c]) + free_pages s'"
        using z by (intro ptable_pages_roots empty_root(1)) simp
      also have "\<dots> = free_pages s" using al Some by (simp add: rt s'_def)
      finally show ?thesis .
    qed
    moreover have "ptable_ok True env flags t (mem s')"
      unfolding ptable_ok_def using z by (intro ballI empty_root(2)) simp
    moreover have "page_pool_ok (pool s')" using al Some by (simp add: s'_def)
    moreover have "ptable_attr env flags t (mem s') a = 0" if sp: "unat a < space_end env flags" for a
    proof -
      obtain k where k: "k < ?c" "mm_index a (Suc ?l) = k" using root_index [OF g(1) sp] by blast
      then show ?thesis unfolding ptable_attr_def k(2) using z by (intro empty_root(3)) simp
    qed
    ultimately show ?thesis using p(2) unfolding i by (simp add: t_def ptable_inv_def)
  qed
qed

section \<open>Destroying a page table\<close>

lemma mm_ptable_fini_spec:
  assumes g: "geom_ok env flags" and inv: "ptable_inv idm env flags t s"
  shows "page_pool_ok (pool (mm_ptable_fini env t flags s))"
    "free_pages (mm_ptable_fini env t flags s) = ptable_pages env flags t s"
    "mem (mm_ptable_fini env t flags s) = mem s"
proof -
  let ?l = "mm_max_level env flags" and ?c = "mm_root_table_count env flags" and ?r = "ptable_root t"
  have c: "1 \<le> ?c" "?c \<le> 16" using g by (simp_all add: geom_ok_def)
  have own: "own_ok (ptable_pages env flags t s)" using inv by (simp add: ptable_inv_def)
  have pok: "pte_addr_ok x \<and> 0 < x" if "k < ?c" "x \<in> set (root_pages ?l t (mem s) k)" for k x
  proof -
    have "x \<in># ptable_pages env flags t s" using that by (auto simp: ptable_pages_def)
    then show ?thesis using own by (simp add: own_ok_def)
  qed
  have fr: "page_pool_ok (fold (\<lambda>j p. mm_free_page_pte ?l (mem s (root_table t k) j) (mem s) p) [0..<512] q) \<and>
      mpool_avail (fold (\<lambda>j p. mm_free_page_pte ?l (mem s (root_table t k) j) (mem s) p) [0..<512] q) =
        mpool_avail q + mset (table_pages ?l (mem s) (root_table t k))"
    if k: "k < ?c" and q: "page_pool_ok q" for k q
    unfolding table_pages_def
  proof (rule fold_free [OF _ q])
    fix j q'
    assume "j \<in> set [0..<512]" "page_pool_ok q'"
    moreover have "set (pages ?l (mem s) (mem s (root_table t k) j)) \<subseteq> set (root_pages ?l t (mem s) k)"
      using calculation(1) by (auto simp: root_pages_def table_pages_def)
    then have "\<forall>x \<in> set (pages ?l (mem s) (mem s (root_table t k) j)). pte_addr_ok x \<and> 0 < x"
      using pok [OF k] by blast
    ultimately show "page_pool_ok (mm_free_page_pte ?l (mem s (root_table t k) j) (mem s) q') \<and>
      mpool_avail (mm_free_page_pte ?l (mem s (root_table t k) j) (mem s) q') =
        mpool_avail q' + mset (pages ?l (mem s) (mem s (root_table t k) j))"
      by (intro mm_free_page_pte_spec)
  qed
  define p where "p = fold (\<lambda>k p. fold (\<lambda>j p. mm_free_page_pte ?l (mem s (root_table t k) j) (mem s) p)
    [0..<512] p) [0..<?c] (pool s)"
  have "page_pool_ok p \<and> mpool_avail p = free_pages s +
      mset (concat (map (\<lambda>k. table_pages ?l (mem s) (root_table t k)) [0..<?c]))"
    unfolding p_def using fr inv by (intro fold_free) (simp_all add: ptable_inv_def)
  then have pk: "mpool_wf p" "entry_size p = PAGE_SIZE" and pa: "mpool_avail p = free_pages s +
      mset (concat (map (\<lambda>k. table_pages ?l (mem s) (root_table t k)) [0..<?c]))"
    by (simp_all add: page_pool_ok_def)
  have rt: "root_table t = (\<lambda>k. ?r + of_nat k * PAGE_SIZE)"
    by (rule ext) (simp add: root_table_def mm_page_table_from_pa_def)
  have r: "pte_addr_ok ?r" "0 < ?r" using pok [of 0 "root_table t 0"] c by (simp_all add: root_pages_def rt)
  note re = root_entries [OF r(1) c(2)]
  have ru: "unat ?r < 2 ^ 48" "4096 dvd unat ?r" using r(1) by (simp_all add: pte_addr_ok_unat)
  have sz: "PAGE_SIZE * of_nat ?c = of_nat ?c * PAGE_SIZE" by (rule mult.commute)
  have usz: "unat (of_nat ?c * PAGE_SIZE) = ?c * 4096"
    using unat_mult_no_wrap [of "of_nat ?c :: u64" PAGE_SIZE] c(2) unat_of_nat_less [of ?c, where 'a = 64]
    by (simp add: page_size_unat)
  have bnd: "unat ?r + unat (of_nat ?c * PAGE_SIZE) + unat (entry_size p) \<le> 2 ^ 64"
    using ru c(2) by (simp add: usz pk page_size_unat)
  have ps: "PAGE_SIZE = 2 ^ 12" by (simp add: PAGE_SIZE_def PAGE_BITS_def)
  have al: "align_up ?r PAGE_SIZE = ?r" "align_down (?r + of_nat ?c * PAGE_SIZE) PAGE_SIZE = ?r + of_nat ?c * PAGE_SIZE"
  proof -
    have p2: "pow2 PAGE_SIZE" using pk by (cases p) simp
    show "align_up ?r PAGE_SIZE = ?r"
      using ru align_up_unat [OF p2, of ?r] by (intro word_eq_unatI) (auto simp: page_size_unat elim!: dvdE)
    have "4096 dvd unat (?r + of_nat ?c * PAGE_SIZE)" unfolding re(2) using ru(2) by simp
    then show "align_down (?r + of_nat ?c * PAGE_SIZE) PAGE_SIZE = ?r + of_nat ?c * PAGE_SIZE"
      by (intro word_eq_unatI) (simp add: align_down_unat [OF p2] page_size_unat)
  qed
  have f: "mm_ptable_fini env t flags s = s\<lparr>pool := fst (mpool_add_chunk p ?r (of_nat ?c * PAGE_SIZE))\<rparr>"
    unfolding mm_ptable_fini_def Let_def MM_PTE_PER_PAGE_def p_def sz by (simp add: mm_page_table_from_pa_def)
  note ac = mpool_add_chunk_spec [OF pk(1) r(2) bnd, unfolded pk(2) al re(1)]
  show "page_pool_ok (pool (mm_ptable_fini env t flags s))" using ac by (simp add: f page_pool_ok_def)
  have "mset (concat (map (root_pages ?l t (mem s)) ks)) =
      mset (map (root_table t) ks) + mset (concat (map (\<lambda>k. table_pages ?l (mem s) (root_table t k)) ks))" for ks
    by (induction ks) (simp_all add: root_pages_def)
  then show "free_pages (mm_ptable_fini env t flags s) = ptable_pages env flags t s"
    using ac pa unfolding f ptable_pages_def by (simp add: rt ac_simps del: map_map)
  show "mem (mm_ptable_fini env t flags s) = mem s" by (simp add: f)
qed

end
