(* ===== verification/MM_Defrag.thy ===== *)
theory MM_Defrag
  imports MM_Root
begin

text \<open>
  Defragmentation, \<open>mm_ptable_defrag\<close> of \<^verbatim>\<open>src/mm.c\<close>: merging tables into blocks keeps the
  attributes of every address, the form of the page table and the ownership of its pages.
\<close>

section \<open>Merging a table into an entry\<close>

text \<open>
  \<open>plain\<close>: no address of the entry has the attributes that a reference to a table shows, which
  are the valid bit alone. Without it \<open>mm_ptable_defrag_entry\<close> could take a table in the first
  entry for a block.
\<close>

definition plain :: "nat \<Rightarrow> nat \<Rightarrow> (u64 \<Rightarrow> u64) \<Rightarrow> bool" where
  "plain l base F \<longleftrightarrow> (\<forall>a. base \<le> unat a \<and> unat a < base + esz l \<longrightarrow> F a \<noteq> PTE_VALID)"

lemma table_pte_attrs: "pte_addr_ok pa \<Longrightarrow> arch_mm_pte_attrs (arch_mm_table_pte l pa) l = PTE_VALID"
proof -
  assume pa: "pte_addr_ok pa"
  have b: "bit pa n \<Longrightarrow> 12 \<le> n \<and> n < 48" for n
    using pa bit_pte_addr [of pa n] unfolding pte_addr_ok_def by simp
  have "bit (arch_mm_table_pte l pa) n \<longleftrightarrow> bit pa n \<or> n = 0 \<or> n = 1" for n
    unfolding arch_mm_table_pte_def PTE_TABLE_def PTE_VALID_def bit_or_iff bit_push_bit_iff bit_1_iff by auto
  then show ?thesis
    by (intro bit_eqI) (auto simp: bit_pte_attrs PTE_VALID_def bit_1_iff dest: b)
qed

lemma combine_valid [simp]: "arch_mm_combine_table_entry_attrs cfg PTE_VALID a = a"
  by (simp add: arch_mm_combine_table_entry_attrs_def PTE_VALID_def TABLE_NSTABLE_def TABLE_APTABLE1_def
     TABLE_APTABLE0_def TABLE_XNTABLE_def TABLE_PXNTABLE_def Let_def)

text \<open>What the loop of \<open>mm_ptable_defrag_entry\<close> checks of an entry against the first one.\<close>

definition mergeable_with :: "nat \<Rightarrow> bool \<Rightarrow> u64 \<Rightarrow> u64 \<Rightarrow> bool" where
  "mergeable_with l base_present base_attrs e \<longleftrightarrow>
     arch_mm_pte_is_present e l = base_present \<and>
     (base_present \<longrightarrow> arch_mm_pte_is_block e l \<and> arch_mm_pte_attrs e l = base_attrs)"

lemma table_entry_ok:
  assumes "table_ok idm l m base t" "i < 512"
  shows "pte_ok idm l m (base + i * esz l) (m t i)"
  using assms by (simp add: table_ok_def)

lemma pte_ok_leaf: "pte_ok idm l m base e \<Longrightarrow> \<not> arch_mm_pte_is_table e l \<Longrightarrow> leaf_ok idm l base e"
  by (simp add: not_table_simps(3))

lemma first_entry_leaf:
  assumes ok: "table_ok True l m base nt" and d: "esz (Suc l) dvd base" and le: "base + esz (Suc l) \<le> 2 ^ 48"
    and pl: "plain (Suc l) base (table_attr l m nt)" and p: "arch_mm_pte_is_present (m nt 0) l"
    and mw: "mergeable_with l True (arch_mm_pte_attrs (m nt 0) l) (m nt 1)"
  shows "leaf_ok True l base (m nt 0)"
proof -
  have "\<not> arch_mm_pte_is_table (m nt 0) l"
  proof
    assume t: "arch_mm_pte_is_table (m nt 0) l"
    then obtain k where k: "l = Suc k" by (cases l) (simp_all add: arch.no_table_at_0)
    have "m nt 0 = arch_mm_table_pte l (sub_table (m nt 0) l)"
      using table_entry_ok [OF ok, of 0] t unfolding k pte_ok_table by simp
    then have "arch_mm_pte_attrs (m nt 0) l = PTE_VALID"
      using table_pte_attrs [OF sub_table_ok [of "m nt 0" l], of l] by simp
    with mw have one: "arch_mm_pte_attrs (m nt 1) l = PTE_VALID" "arch_mm_pte_is_block (m nt 1) l"
      by (simp_all add: mergeable_with_def)
    define a :: u64 where "a = of_nat (base + esz l)"
    have s: "base + esz l < base + esz (Suc l)" by (simp add: esz_Suc)
    then have a: "unat a = base + esz l" unfolding a_def using le by (intro unat_of_nat_less) simp
    then have "mm_index a l = 1" by (intro index_in_table [OF d]) simp_all
    then have "table_attr l m nt a = PTE_VALID"
      using one not_table_simps(2) [of "m nt 1" l] arch.kinds_disjoint [of "m nt 1" l] by (simp add: table_attr_def)
    then show False using pl a s by (simp add: plain_def)
  qed
  then show ?thesis using table_entry_ok [OF ok, of 0] pte_ok_leaf by simp
qed

lemma merge_spec:
  assumes ok: "table_ok True l m base (sub_table v (Suc l))" and v: "v = arch_mm_table_pte (Suc l) (sub_table v (Suc l))"
    and d: "esz (Suc l) dvd base" and le: "base + esz (Suc l) \<le> 2 ^ 48"
    and pl: "plain (Suc l) base (table_attr l m (sub_table v (Suc l)))"
    and mw: "\<And>i. 1 \<le> i \<Longrightarrow> i < 512 \<Longrightarrow> mergeable_with l (arch_mm_pte_is_present (m (sub_table v (Suc l)) 0) l)
      (arch_mm_pte_attrs (m (sub_table v (Suc l)) 0) l) (m (sub_table v (Suc l)) i)"
    and n: "mm_merge_table_pte env v (Suc l) m \<noteq> v"
  shows "leaf_ok True (Suc l) base (mm_merge_table_pte env v (Suc l) m)"
    "arch_mm_pte_attrs (mm_merge_table_pte env v (Suc l) m) (Suc l) = table_attr l m (sub_table v (Suc l)) a"
proof -
  let ?t = "sub_table v (Suc l)" and ?n = "mm_merge_table_pte env v (Suc l) m"
  let ?i = "mm_index a l"
  have ta: "table_attr l m ?t a = attr_at l m (m ?t ?i) a" by (simp add: table_attr_def)
  have "leaf_ok True (Suc l) base ?n \<and> arch_mm_pte_attrs ?n (Suc l) = attr_at l m (m ?t ?i) a"
  proof (cases "arch_mm_pte_is_present (m ?t 0) l")
    case False
    then have "?n = arch_mm_absent_pte (Suc l)" by (simp add: mm_merge_table_pte_def sub_table_def Let_def)
    moreover have "\<not> arch_mm_pte_is_present (m ?t ?i) l"
      using mw [of ?i] False by (cases "?i = 0") (simp_all add: mergeable_with_def)
    then have "m ?t ?i = arch_mm_absent_pte l"
      using pte_ok_leaf [OF table_entry_ok [OF ok mm_index_less]] arch.table_present
      by (blast intro: leaf_absent_attrs)
    ultimately show ?thesis
      using leaf_absent leaf_simps(2) [OF leaf_absent] by (simp add: arch.absent_attrs)
  next
    case True
    have "mergeable_with l True (arch_mm_pte_attrs (m ?t 0) l) (m ?t 1)" using mw [of 1] True by simp
    from first_entry_leaf [OF ok d le pl True this] have "leaf_ok True l base (m ?t 0)" .
    then obtain pa at where e: "m ?t 0 = arch_mm_block_pte l pa at" "pte_addr_ok pa" "pte_attrs_ok at" "unat pa = base"
      using True by (elim leaf_cases) (auto simp: arch.absent_kind)
    have al: "arch_mm_is_block_allowed (Suc l)"
      using n True unfolding mm_merge_table_pte_def sub_table_def [symmetric]
      by (auto simp: Let_def split: if_splits)
    have va: "arch_mm_pte_attrs v (Suc l) = PTE_VALID"
      by (subst v) (rule table_pte_attrs [OF sub_table_ok])
    have "?n = arch_mm_block_pte (Suc l) pa at"
      using True al va e unfolding mm_merge_table_pte_def sub_table_def [symmetric]
      by (simp add: Let_def arch.block_roundtrip)
    moreover have "attr_at l m (m ?t ?i) a = at"
    proof (cases "?i = 0")
      case True
      then show ?thesis using leaf_simps(2) [OF \<open>leaf_ok True l base (m ?t 0)\<close>] e by (simp add: arch.block_roundtrip)
    next
      case False
      then have "mergeable_with l True at (m ?t ?i)" using mw [of ?i] True e by (simp add: arch.block_roundtrip)
      then show ?thesis
        using not_table_simps(2) [of "m ?t ?i" l] arch.kinds_disjoint by (auto simp: mergeable_with_def)
    qed
    ultimately show ?thesis
      using e d al leaf_blockI [of pa at "Suc l" True base] by (simp add: arch.block_roundtrip)
  qed
  then show "leaf_ok True (Suc l) base ?n" "arch_mm_pte_attrs ?n (Suc l) = table_attr l m ?t a"
    unfolding ta by simp_all
qed

section \<open>The loop over the entries of a table\<close>

definition defrag_result :: "nat \<Rightarrow> u64 \<Rightarrow> nat \<Rightarrow> nat \<Rightarrow> mm_state \<Rightarrow> mm_state \<Rightarrow> bool" where
  "defrag_result l t i base s s' \<longleftrightarrow>
     entry_step True l t i base s s' \<and>
     (\<forall>a. attr_at l (mem s') (mem s' t i) a = attr_at l (mem s) (mem s t i) a)"

lemma defrag_table_attr:
  assumes "table_inv True l t base s" "i < 512" "defrag_result l t i (base + i * esz l) s s'"
  shows "table_attr l (mem s') t = table_attr l (mem s) t"
proof
  fix a
  show "table_attr l (mem s') t a = table_attr l (mem s) t a"
    using assms entry_step_table(2) [OF assms(1,2), of s' "mm_index a l" a]
    by (cases "mm_index a l = i") (simp_all add: table_attr_def defrag_result_def)
qed

lemma plain_entry:
  assumes "plain (Suc l) base (table_attr l m t)" "esz (Suc l) dvd base" "i < 512"
  shows "plain l (base + i * esz l) (attr_at l m (m t i))"
  unfolding plain_def
proof (intro allI impI)
  fix a :: u64
  assume "base + i * esz l \<le> unat a \<and> unat a < base + i * esz l + esz l"
  then have a: "base + i * esz l \<le> unat a" "unat a < base + (i + 1) * esz l" by auto
  have "(i + 1) * esz l \<le> 512 * esz l" using assms(3) by (intro mult_le_mono1) simp
  then have "base \<le> unat a" "unat a < base + esz (Suc l)" using a unfolding esz_Suc by linarith+
  moreover have "mm_index a l = i" by (rule index_in_table [OF assms(2) a assms(3)])
  ultimately show "attr_at l m (m t i) a \<noteq> PTE_VALID"
    using assms(1) by (auto simp: plain_def table_attr_def)
qed

lemma defrag_loop_spec:
  assumes l: "l \<le> 3" "esz (Suc l) dvd base" "base + esz (Suc l) \<le> 2 ^ 48" "unat base_addr = base"
    and IH: "\<And>i s addr. i < 512 \<Longrightarrow> entry_inv True l t i (base + i * esz l) s \<Longrightarrow> unat addr = base + i * esz l \<Longrightarrow>
      plain l (base + i * esz l) (attr_at l (mem s) (mem s t i)) \<Longrightarrow>
      \<exists>s'. below addr (t, i) s = Ret s' \<and> defrag_result l t i (base + i * esz l) s s'"
  shows "table_inv True l t base s \<Longrightarrow> plain (Suc l) base (table_attr l (mem s) t) \<Longrightarrow> j \<le> 512 \<Longrightarrow>
    \<exists>mg' s'. defrag_loop below l t base_addr bp ba [j..<512] mg s = Ret (mg', s') \<and>
      table_step True l t base s s' \<and> table_attr l (mem s') t = table_attr l (mem s) t \<and>
      entries_kept l t j s s' \<and>
      (mg' \<longrightarrow> mg \<and> (\<forall>i. j \<le> i \<and> i < 512 \<longrightarrow> mergeable_with l bp ba (mem s' t i)))"
proof (induction "512 - j" arbitrary: j mg s)
  case 0
  then show ?case using table_step_refl [OF 0(2)] by (auto simp: entries_kept_def)
next
  case (Suc n)
  note inv = Suc.prems(1)
  have j: "j < 512" and up: "[j..<512] = j # [j + 1..<512]" and n: "n = 512 - (j + 1)" "j + 1 \<le> 512"
    using Suc.hyps(2) by (simp_all add: upt_conv_Cons)
  have jl: "(j + 1) * esz l \<le> 512 * esz l" using j by (intro mult_le_mono1) simp
  let ?addr = "base_addr + of_nat j * mm_entry_size l"
  have addr: "unat ?addr = base + j * esz l"
  proof -
    have jb: "j * esz l < 2 ^ 48" "base + j * esz l < 2 ^ 48"
      using jl l(3) esz_pos [of l] unfolding esz_Suc add_mult_distrib by linarith+
    note jb' = less_trans [OF jb(2), of "2 ^ 64"]
    have j': "unat (of_nat j :: u64) = j" using j by (intro unat_of_nat_less) simp
    have "unat (of_nat j * mm_entry_size l) = j * esz l"
      using unat_mult_no_wrap [of "of_nat j :: u64" "mm_entry_size l"] l(1) jb(1) unfolding j' by simp
    then show ?thesis using unat_add_no_wrap [of base_addr "of_nat j * mm_entry_size l"] l(4) jb' by simp
  qed
  obtain s1 where b: "below ?addr (t, j) s = Ret s1" and dr: "defrag_result l t j (base + j * esz l) s s1"
    using IH [OF j table_inv_entry [OF inv j] addr plain_entry [OF Suc.prems(2) l(2) j]] by blast
  have st: "entry_step True l t j (base + j * esz l) s s1" using dr by (simp add: defrag_result_def)
  note ts = entry_step_table(1) [OF inv j st] and at = defrag_table_attr [OF inv j dr]
  let ?e = "mem s1 t j"
  define mg1 where "mg1 = (if arch_mm_pte_is_present ?e l \<noteq> bp then False
                              else if \<not> arch_mm_pte_is_present ?e l then mg
                              else if \<not> arch_mm_pte_is_block ?e l then False
                              else if arch_mm_pte_attrs ?e l \<noteq> ba then False
                              else mg)"
  have mg1: "mg1 \<Longrightarrow> mg \<and> mergeable_with l bp ba ?e"
    by (auto simp: mg1_def mergeable_with_def split: if_splits)
  have "plain (Suc l) base (table_attr l (mem s1) t)" using Suc.prems(2) at by simp
  from Suc.hyps(1) [OF n(1) table_step_inv [OF inv ts] this n(2), of mg1]
  obtain mg' s2 where r: "defrag_loop below l t base_addr bp ba [j + 1..<512] mg1 s1 = Ret (mg', s2)"
    and ts2: "table_step True l t base s1 s2" and at2: "table_attr l (mem s2) t = table_attr l (mem s1) t"
    and k: "entries_kept l t (j + 1) s1 s2"
    and m: "mg' \<longrightarrow> mg1 \<and> (\<forall>i. j + 1 \<le> i \<and> i < 512 \<longrightarrow> mergeable_with l bp ba (mem s2 t i))" by blast
  have "defrag_loop below l t base_addr bp ba [j..<512] mg s = Ret (mg', s2)"
    unfolding up defrag_loop.simps b mg1_def [symmetric] Let_def and_then.simps using r by (simp add: mg1_def)
  moreover have "mem s2 t j = ?e" using k by (simp add: entries_kept_def)
  then have "mg' \<longrightarrow> mg \<and> (\<forall>i. j \<le> i \<and> i < 512 \<longrightarrow> mergeable_with l bp ba (mem s2 t i))"
    using m mg1 by (metis Suc_eq_plus1 le_eq_less_or_eq Suc_leI)
  moreover have "entries_kept l t j s s2"
    using entries_kept_trans [OF entries_kept_step [OF inv j st]] entries_kept_less k by simp
  ultimately show ?case using table_step_trans [OF ts ts2] at at2 by auto
qed

section \<open>Defragmenting an entry\<close>

lemma defrag_entry_unfold:
  assumes "arch_mm_pte_is_table (mem s t i) (Suc l)"
    "mm_ptable_defrag_entry l env flags vid base_addr (sub_table (mem s t i) (Suc l), 0) s = Ret s1"
    "defrag_loop (mm_ptable_defrag_entry l env flags vid) l (sub_table (mem s t i) (Suc l)) base_addr
      (arch_mm_pte_is_present (mem s1 (sub_table (mem s t i) (Suc l)) 0) l)
      (arch_mm_pte_attrs (mem s1 (sub_table (mem s t i) (Suc l)) 0) l) [1..<MM_PTE_PER_PAGE] True s1 = Ret (mg, s2)"
  shows "mm_ptable_defrag_entry (Suc l) env flags vid base_addr (t, i) s =
    (if mg \<and> mem s2 t i \<noteq> mm_merge_table_pte env (mem s2 t i) (Suc l) (mem s2)
     then mm_replace_entry env base_addr (t, i) (mm_merge_table_pte env (mem s2 t i) (Suc l) (mem s2)) (Suc l) flags vid s2
     else Ret s2)"
  using assms unfolding mm_ptable_defrag_entry.simps sub_table_def [symmetric] Let_def
  by (simp del: and_then_eq_Ret)

lemma mm_ptable_defrag_entry_spec:
  "l \<le> 3 \<Longrightarrow> esz l dvd base \<Longrightarrow> base + esz l \<le> 2 ^ 48 \<Longrightarrow> unat base_addr = base \<Longrightarrow>
    entry_inv True l t i base s \<Longrightarrow> plain l base (attr_at l (mem s) (mem s t i)) \<Longrightarrow>
    \<exists>s'. mm_ptable_defrag_entry l env flags vid base_addr (t, i) s = Ret s' \<and> defrag_result l t i base s s'"
proof (induction l arbitrary: t i base base_addr s)
  case 0
  then show ?case using entry_step_refl by (simp add: defrag_result_def)
next
  case (Suc l)
  note inv = Suc.prems(5)
  show ?case
  proof (cases "arch_mm_pte_is_table (mem s t i) (Suc l)")
    case False
    then show ?thesis using entry_step_refl [OF inv] by (simp add: defrag_result_def)
  next
    case True
    let ?v = "mem s t i" and ?n = "sub_table (mem s t i) (Suc l)"
    note tab = entry_inv_table [OF inv True]
    have l: "l \<le> 3" "esz (Suc l) dvd base" "base + esz (Suc l) \<le> 2 ^ 48" "unat base_addr = base"
      using Suc.prems by simp_all
    have pl: "plain (Suc l) base (table_attr l (mem s) ?n)"
      using Suc.prems(6) True by (simp only: plain_def attr_at_table if_True)
    have IH: "\<exists>s'. mm_ptable_defrag_entry l env flags vid addr (?n, j) s1 = Ret s' \<and>
        defrag_result l ?n j (base + j * esz l) s1 s'"
      if "j < 512" "entry_inv True l ?n j (base + j * esz l) s1" "unat addr = base + j * esz l"
        "plain l (base + j * esz l) (attr_at l (mem s1) (mem s1 ?n j))" for j s1 addr
    proof (rule Suc.IH [OF l(1) _ _ that(3,2,4)])
      show "esz l dvd base + j * esz l" using dvd_trans [OF esz_dvd l(2), of l] by simp
      have "(j + 1) * esz l \<le> 512 * esz l" using that(1) by (intro mult_le_mono1) simp
      then show "base + j * esz l + esz l \<le> 2 ^ 48" using l(3) unfolding esz_Suc add_mult_distrib by linarith
    qed
    have one: "(1 :: nat) \<le> 512" by simp
    have z: "(0 :: nat) < 512" "base + 0 * esz l = base" by simp_all
    obtain s1 where b: "mm_ptable_defrag_entry l env flags vid base_addr (?n, 0) s = Ret s1"
      and dr: "defrag_result l ?n 0 (base + 0 * esz l) s s1"
      using IH [OF z(1) table_inv_entry [OF tab(1) z(1)] _ plain_entry [OF pl l(2) z(1)]] l(4) by auto
    have "entry_step True l ?n 0 (base + 0 * esz l) s s1" using dr by (simp only: defrag_result_def)
    note ts1 = entry_step_table(1) [OF tab(1) z(1) this] and at1 = defrag_table_attr [OF tab(1) z(1) dr]
    let ?bp = "arch_mm_pte_is_present (mem s1 ?n 0) l" and ?ba = "arch_mm_pte_attrs (mem s1 ?n 0) l"
    have pl1: "plain (Suc l) base (table_attr l (mem s1) ?n)" using pl at1 by simp
    obtain mg s2 where lp: "defrag_loop (mm_ptable_defrag_entry l env flags vid) l ?n base_addr ?bp ?ba [1..<512] True s1 =
        Ret (mg, s2)" and ts2: "table_step True l ?n base s1 s2"
      and at2: "table_attr l (mem s2) ?n = table_attr l (mem s1) ?n" and k: "entries_kept l ?n 1 s1 s2"
      and m: "mg \<longrightarrow> (\<forall>i. 1 \<le> i \<and> i < 512 \<longrightarrow> mergeable_with l ?bp ?ba (mem s2 ?n i))"
      using defrag_loop_spec [where below = "mm_ptable_defrag_entry l env flags vid", OF l IH table_step_inv [OF tab(1) ts1] pl1 one, of ?bp ?ba True]
      by blast
    note du = defrag_entry_unfold [OF True b lp [folded MM_PTE_PER_PAGE_def]]
    note ts = table_step_trans [OF ts1 ts2]
    note st = table_step_entry [OF inv True ts]
    have v: "mem s2 t i = ?v" using st(2) by simp
    have a2: "attr_at (Suc l) (mem s2) (mem s2 t i) a = attr_at (Suc l) (mem s) ?v a" for a
      unfolding v attr_at_table at2 at1 ..
    have z2: "mem s2 ?n 0 = mem s1 ?n 0" using k by (simp add: entries_kept_def)
    let ?new = "mm_merge_table_pte env ?v (Suc l) (mem s2)"
    show ?thesis
    proof (cases "mg \<and> ?v \<noteq> ?new")
      case False
      then have "mm_ptable_defrag_entry (Suc l) env flags vid base_addr (t, i) s = Ret s2"
        unfolding du v by (rule if_not_P)
      then show ?thesis using st(1) a2 unfolding defrag_result_def by blast
    next
      case mg: True
      have ok2: "table_ok True l (mem s2) base ?n" and vt: "?v = arch_mm_table_pte (Suc l) ?n"
        and pl2: "plain (Suc l) base (table_attr l (mem s2) ?n)"
        using ts inv True pl at1 at2 by (simp_all add: table_step_def entry_inv_def)
      have mw: "mergeable_with l (arch_mm_pte_is_present (mem s2 ?n 0) l) (arch_mm_pte_attrs (mem s2 ?n 0) l) (mem s2 ?n j)"
        if "1 \<le> j" "j < 512" for j using m mg that unfolding z2 by blast
      have "?new \<noteq> ?v" using mg by auto
      note ms = merge_spec [OF ok2 vt l(2,3) pl2 mw this]
      from replace_entry_step [OF entry_step_inv [OF inv st(1)] ms(1), of env base_addr flags vid]
      obtain s3 where r: "mm_replace_entry env base_addr (t, i) ?new (Suc l) flags vid s2 = Ret s3"
        and st3: "entry_step True (Suc l) t i base s2 s3" and n3: "mem s3 t i = ?new" by blast
      have "mm_ptable_defrag_entry (Suc l) env flags vid base_addr (t, i) s = Ret s3"
        unfolding du v using mg r by simp
      moreover have "attr_at (Suc l) (mem s3) (mem s3 t i) a = attr_at (Suc l) (mem s) ?v a" for a
        using leaf_simps(2) [OF ms(1), of "mem s3" a] ms(2) [of a] True
        unfolding n3 attr_at_table at2 at1 by simp
      ultimately show ?thesis using entry_step_trans [OF st(1) st3] unfolding defrag_result_def by blast
    qed
  qed
qed

section \<open>Defragmenting a page table\<close>

lemma product_upt:
  "List.product [0..<c] [0..<512] = map (\<lambda>n. (n div 512, n mod 512)) [0..<c * 512]"
proof (induction c)
  case (Suc c)
  have "[0..<Suc c * 512] = [0..<c * 512] @ [c * 512..<c * 512 + 512]"
    using upt_add_eq_append [of 0 "c * 512" 512] by (simp add: add.commute)
  moreover have "map (\<lambda>n. (n div 512, n mod 512)) [c * 512..<c * 512 + 512] = map (Pair c) [0..<512]"
    by (rule nth_equalityI) (auto simp del: upt_Suc)
  ultimately show ?case 
    using Suc.IH by (simp only: product_concat_map upt_Suc_append le0 map_append concat_append) simp
qed simp

definition ptable_plain :: "mm_env \<Rightarrow> u32 \<Rightarrow> mm_ptable \<Rightarrow> table_mem \<Rightarrow> bool" where
  "ptable_plain env flags t m \<longleftrightarrow>
     (\<forall>a. unat a < space_end env flags \<longrightarrow> ptable_attr env flags t m a \<noteq> PTE_VALID)"

definition same_attrs :: "mm_env \<Rightarrow> u32 \<Rightarrow> mm_ptable \<Rightarrow> table_mem \<Rightarrow> table_mem \<Rightarrow> bool" where
  "same_attrs env flags t m m' \<longleftrightarrow>
     (\<forall>a. unat a < space_end env flags \<longrightarrow> ptable_attr env flags t m' a = ptable_attr env flags t m a)"

lemma same_attrs_plain: "same_attrs env flags t m m' \<Longrightarrow> ptable_plain env flags t m \<Longrightarrow> ptable_plain env flags t m'"
  by (simp add: same_attrs_def ptable_plain_def)

lemma root_slot_plain:
  assumes g: "geom_ok env flags" and pl: "ptable_plain env flags t m" and k: "k < mm_root_table_count env flags"
  shows "plain (Suc (mm_max_level env flags)) (k * esz (Suc (mm_max_level env flags)))
    (table_attr (mm_max_level env flags) m (root_table t k))"
  unfolding plain_def
proof (intro allI impI)
  fix a :: u64
  let ?E = "esz (Suc (mm_max_level env flags))"
  assume a: "k * ?E \<le> unat a \<and> unat a < k * ?E + ?E"
  have "(k + 1) * ?E \<le> mm_root_table_count env flags * ?E" using k by (intro mult_le_mono1) simp
  then have s: "unat a < space_end env flags" using a unfolding space_end_def add_mult_distrib by linarith
  then obtain j where j: "mm_index a (Suc (mm_max_level env flags)) = j" "j * ?E \<le> unat a" "unat a < (j + 1) * ?E"
    using root_index [OF g] by blast
  have "unat a div ?E = k" using a by (intro div_nat_eqI) (simp_all add: algebra_simps)
  moreover have "unat a div ?E = j" using j by (intro div_nat_eqI) (simp_all add: algebra_simps)
  ultimately show "table_attr (mm_max_level env flags) m (root_table t k) a \<noteq> PTE_VALID"
    using pl s j(1) by (auto simp: ptable_plain_def ptable_attr_def)
qed

lemma defrag_slot_spec:
  assumes g: "geom_ok env flags" and inv: "ptable_inv True env flags t s"
    and pl: "ptable_plain env flags t (mem s)"
    and n: "n < mm_root_table_count env flags * 512" and addr: "unat addr = n * esz (mm_max_level env flags)"
  shows "\<exists>s'. mm_ptable_defrag_entry (mm_max_level env flags) env flags vid addr
      (root_table t (n div 512), n mod 512) s = Ret s' \<and>
    ptable_step True env flags t s s' \<and> same_attrs env flags t (mem s) (mem s')"
proof -
  let ?l = "mm_max_level env flags"
  let ?k = "n div 512" and ?j = "n mod 512"
  let ?B = "?k * esz (Suc ?l)"
  have k: "?k < mm_root_table_count env flags" using n by (simp add: less_mult_imp_div_less)
  have j: "?j < 512" by simp
  have nb: "n * esz ?l = ?B + ?j * esz ?l"
    unfolding esz_Suc using div_mult_mod_eq [of n 512]
    by (metis add_mult_distrib mult.assoc)
  have l: "?l \<le> 3" using g by (simp add: geom_ok_def)
  have le: "n * esz ?l + esz ?l \<le> 2 ^ 48"
  proof -
    have "(n + 1) * esz ?l \<le> (mm_root_table_count env flags * 512) * esz ?l" using n by (intro mult_le_mono1) simp
    then show ?thesis using g by (simp add: geom_ok_def esz_Suc mult.assoc)
  qed
  note ti = ptable_inv_table [OF inv k]
  have d: "esz ?l dvd n * esz ?l" by simp
  have p: "plain ?l (n * esz ?l) (attr_at ?l (mem s) (mem s (root_table t ?k) ?j))"
    unfolding nb by (rule plain_entry [OF root_slot_plain [OF g pl k] _ j]) simp
  have ei: "entry_inv True ?l (root_table t ?k) ?j (n * esz ?l) s"
    unfolding nb by (rule table_inv_entry [OF ti j])
  obtain s' where r: "mm_ptable_defrag_entry ?l env flags vid addr (root_table t ?k, ?j) s = Ret s'"
    and dr: "defrag_result ?l (root_table t ?k) ?j (n * esz ?l) s s'"
    using mm_ptable_defrag_entry_spec [OF l d le addr ei p] by blast
  note at = defrag_table_attr [OF ti j dr [unfolded nb]]
  have "entry_step True ?l (root_table t ?k) ?j (?B + ?j * esz ?l) s s'"
    using dr unfolding defrag_result_def nb ..
  note ts = entry_step_table(1) [OF ti j this]
  have "ptable_attr env flags t (mem s') a = ptable_attr env flags t (mem s) a" if sp: "unat a < space_end env flags" for a
  proof -
    obtain i where i: "i < mm_root_table_count env flags" "mm_index a (Suc ?l) = i" using root_index [OF g sp] by blast
    show ?thesis unfolding ptable_attr_def i(2)
      using at table_step_ptable(2) [OF inv k ts i(1)] by (cases "i = ?k") simp_all
  qed
  then show ?thesis using r table_step_ptable(1) [OF inv k ts] unfolding same_attrs_def by blast
qed

lemma defrag_root_loop_spec:
  assumes g: "geom_ok env flags"
  shows "ptable_inv True env flags t s \<Longrightarrow> ptable_plain env flags t (mem s) \<Longrightarrow>
    n \<le> mm_root_table_count env flags * 512 \<Longrightarrow> unat addr = n * esz (mm_max_level env flags) \<Longrightarrow>
    \<exists>s'. defrag_root_loop env t (mm_max_level env flags) flags
        (map (\<lambda>n. (n div 512, n mod 512)) [n..<mm_root_table_count env flags * 512]) addr s = Ret s' \<and>
      ptable_step True env flags t s s' \<and> same_attrs env flags t (mem s) (mem s')"
proof (induction "mm_root_table_count env flags * 512 - n" arbitrary: n addr s)
  case 0
  then show ?case using ptable_step_refl [OF 0(2)] by (simp add: same_attrs_def)
next
  case (Suc m)
  let ?l = "mm_max_level env flags" and ?c = "mm_root_table_count env flags * 512"
  have n: "n < ?c" and up: "[n..<?c] = n # [n + 1..<?c]" and m: "m = ?c - (n + 1)" "n + 1 \<le> ?c"
    using Suc.hyps(2) by (simp_all add: upt_conv_Cons)
  obtain s1 where r1: "mm_ptable_defrag_entry ?l env flags (ptable_id t) addr (root_table t (n div 512), n mod 512) s = Ret s1"
    and st1: "ptable_step True env flags t s s1" and sa1: "same_attrs env flags t (mem s) (mem s1)"
    using defrag_slot_spec [OF g Suc.prems(1,2) n Suc.prems(4)] by blast
  have l: "?l \<le> 3" using g by (simp add: geom_ok_def)
  have "(n + 1) * esz ?l \<le> ?c * esz ?l" using n by (intro mult_le_mono1) simp
  then have "unat addr + esz ?l \<le> 2 ^ 48" using g Suc.prems(4) by (simp add: geom_ok_def esz_Suc mult.assoc)
  also have "\<dots> < 2 ^ 64" by simp
  finally have "unat (mm_start_of_next_block addr (mm_entry_size ?l)) = (unat addr div esz ?l + 1) * esz ?l"
    using l by (intro next_block_unat) simp_all
  then have "unat (mm_start_of_next_block addr (mm_entry_size ?l)) = (n + 1) * esz ?l"
    unfolding Suc.prems(4) by simp
  from Suc.hyps(1) [OF m(1) ptable_step_inv [OF Suc.prems(1) st1] same_attrs_plain [OF sa1 Suc.prems(2)] m(2) this]
  obtain s2 where "defrag_root_loop env t ?l flags (map (\<lambda>n. (n div 512, n mod 512)) [n + 1..<?c])
      (mm_start_of_next_block addr (mm_entry_size ?l)) s1 = Ret s2"
    "ptable_step True env flags t s1 s2" "same_attrs env flags t (mem s1) (mem s2)" by blast
  moreover have "same_attrs env flags t (mem s) (mem s2)" using sa1 calculation(3) by (simp add: same_attrs_def)
  moreover note ptable_step_trans [OF st1 calculation(2)]
  ultimately show ?case unfolding up using r1 by (simp del: and_then_eq_Ret)
qed

lemma ptable_step_log [simp]: "ptable_step idm env flags t s (log_event e s') = ptable_step idm env flags t s s'"
  by (simp add: ptable_step_def ptable_pages_def)

lemma mm_ptable_defrag_spec:
  assumes "geom_ok env flags" "ptable_inv True env flags t s" "ptable_plain env flags t (mem s)"
  shows "\<exists>s'. mm_ptable_defrag env t flags s = Ret s' \<and>
    ptable_step True env flags t s s' \<and> same_attrs env flags t (mem s) (mem s')"
proof -
  from defrag_root_loop_spec [OF assms, of 0 0] obtain s'
    where "defrag_root_loop env t (mm_max_level env flags) flags
        (List.product [0..<mm_root_table_count env flags] [0..<MM_PTE_PER_PAGE]) 0 s = Ret s'"
      "ptable_step True env flags t s s'" "same_attrs env flags t (mem s) (mem s')"
    unfolding MM_PTE_PER_PAGE_def product_upt by auto
  then show ?thesis unfolding mm_ptable_defrag_def by (simp del: and_then_eq_Ret)
qed

end
