(* ===== verification/MM_Trace.thy ===== *)
theory MM_Trace
  imports MM_Defrag
begin

text \<open>
  What is true of the sequence of writes and TLB invalidations that the operations of
  \<^verbatim>\<open>src/mm.c\<close> perform: a contract that every composed edit inherits from the elementary ones, and
  the break-before-make discipline as an instance of it.
\<close>

section \<open>Relations every edit respects\<close>

text \<open>
  A relation between the states before and after that holds for the elementary edits holds for
  every operation built from them. \<open>R env flags\<close> is the relation for a table kind, which the
  commit flag does not change.
\<close>

locale edit_relation =
  fixes R :: "mm_env \<Rightarrow> u32 \<Rightarrow> mm_state \<Rightarrow> mm_state \<Rightarrow> bool"
  assumes refl: "R env flags s s"
    and trans: "R env flags s s' \<Longrightarrow> R env flags s' s'' \<Longrightarrow> R env flags s s''"
    and set_pool: "R env flags s (s\<lparr>pool := p\<rparr>)"
    and sync: "R env flags s (log_event Sync_writes s)"
    and init: "R env flags s (init_table t f s)"
    and replace: "mm_replace_entry env b (t, i) new l flags vid s = Ret s' \<Longrightarrow> R env flags s s'"
    and prepare: "R env (flags AND NOT MM_FLAG_COMMIT) = R env flags"
    and commit: "R env (flags OR MM_FLAG_COMMIT) = R env flags"
begin

lemma populate:
  assumes "mm_populate_table_pte env b (t, i) l flags vid s = Ret (nt, s')"
  shows "R env flags s s'"
proof (cases "arch_mm_pte_is_table (mem s t i) l")
  case True
  then show ?thesis using assms refl by (simp add: mm_populate_table_pte_def Let_def)
next
  case False
  obtain p x where px: "mm_alloc_page_tables 1 (pool s) = (p, x)" by fastforce
  show ?thesis
  proof (cases x)
    case None
    then show ?thesis using assms px False set_pool by (auto simp: mm_populate_table_pte_def Let_def)
  next
    case (Some n)
    then obtain f where "mm_replace_entry env b (t, i) (arch_mm_table_pte l n) l flags vid (init_table n f (s\<lparr>pool := p\<rparr>)) = Ret s'"
      using assms px False by (auto simp: mm_populate_table_pte_def Let_def split: prod.splits)
    from replace [OF this] show ?thesis using trans set_pool init by blast
  qed
qed

lemma descend:
  assumes "and_then (mm_populate_table_pte env b (t, i) l flags vid s)
      (\<lambda>(nt, s). case nt of None \<Rightarrow> Ret (False, s) | Some nt \<Rightarrow> g nt s) = Ret (ok, s')"
    and "\<forall>nt s ok s'. g nt s = Ret (ok, s') \<longrightarrow> R env flags s s'"
  shows "R env flags s s'"
proof -
  obtain nt s1 where p: "mm_populate_table_pte env b (t, i) l flags vid s = Ret (nt, s1)"
    and k: "(case nt of None \<Rightarrow> Ret (False, s1) | Some nt \<Rightarrow> g nt s1) = Ret (ok, s')"
    using assms(1) by auto
  note r = populate [OF p]
  show ?thesis
  proof (cases nt)
    case None
    then show ?thesis using r k by simp
  next
    case (Some n)
    then have "R env flags s1 s'" using k assms(2) by simp
    then show ?thesis by (rule trans [OF r])
  qed
qed

lemma write_leaf:
  assumes "(if commit then and_then (mm_replace_entry env b (t, i) new l flags vid s) (\<lambda>s. Ret (True, s))
      else Ret (True, s)) = Ret (ok, s')"
  shows "R env flags s s'"
  using assms refl replace by (cases commit) auto

lemma map_entry:
  assumes "map_entry below env attrs l flags vid t i b f pa s = Ret (ok, s')"
    and "\<forall>b f pa nt s ok s'. below b f pa nt s = Ret (ok, s') \<longrightarrow> R env flags s s'"
  shows "R env flags s s'"
proof -
  have d: "\<forall>nt s ok s'. below b f pa nt s = Ret (ok, s') \<longrightarrow> R env flags s s'" using assms(2) by blast
  note a = assms(1) [unfolded map_entry_def Let_def]
  show ?thesis
    using a refl write_leaf descend [OF _ d] by (simp only: outcome.distinct split: if_split_asm) (simp | blast)+
qed

lemma map_loop:
  assumes below: "\<forall>b f pa nt s ok s'. below b f pa nt s = Ret (ok, s') \<longrightarrow> R env flags s s'"
  shows "map_loop below env attrs l flags vid t is b f pa s = Ret (ok, s') \<Longrightarrow> R env flags s s'"
proof (induction "is" arbitrary: b pa s)
  case Nil
  then show ?case using refl by (simp split: if_splits)
next
  case (Cons i "is")
  show ?case
  proof (cases "b < f")
    case True
    then obtain ok1 s1 where e: "map_entry below env attrs l flags vid t i b f pa s = Ret (ok1, s1)"
      using Cons.prems by auto
    note 1 = map_entry [OF e below]
    show ?thesis
    proof (cases ok1)
      case ok: True
      from Cons.prems e True ok have "R env flags s1 s'" by (intro Cons.IH) (auto simp del: One_nat_def)
      then show ?thesis by (rule trans [OF 1])
    next
      case False
      then show ?thesis using Cons.prems True e 1 by auto
    qed
  qed (use Cons.prems refl in simp)
qed

lemma map_level:
  "mm_map_level l env attrs flags vid b f pa t s = Ret (ok, s') \<Longrightarrow> R env flags s s'"
proof (induction l arbitrary: b f pa t s ok s')
  case 0
  show ?case by (rule map_loop [OF _ 0 [unfolded mm_map_level.simps]]) simp
next
  case (Suc l)
  show ?case by (rule map_loop [OF _ Suc.prems [unfolded mm_map_level.simps]]) (use Suc.IH in blast)
qed

lemma map_one_page_entry:
  assumes "map_one_page_entry below env attrs l flags vid va pa t s = Ret (ok, s')"
    and "\<forall>nt s ok s'. below nt s = Ret (ok, s') \<longrightarrow> R env flags s s'"
  shows "R env flags s s'"
proof -
  note a = assms(1) [unfolded map_one_page_entry_def Let_def check_def]
  show ?thesis
    using a refl write_leaf descend [OF _ assms(2)]
    by (simp only: outcome.distinct split: if_split_asm) (simp | blast)+
qed

lemma map_level_one_page:
  "mm_map_level_one_page l env attrs flags vid va pa t s = Ret (ok, s') \<Longrightarrow> R env flags s s'"
proof (induction l arbitrary: t s ok s')
  case 0
  show ?case by (rule map_one_page_entry [OF 0 [unfolded mm_map_level_one_page.simps]]) simp
next
  case (Suc l)
  show ?case
    by (rule map_one_page_entry [OF Suc.prems [unfolded mm_map_level_one_page.simps]]) (use Suc.IH in blast)
qed

lemma map_root_loop:
  "map_root_loop env t attrs lv flags ks b f s = Ret (ok, s') \<Longrightarrow> R env flags s s'"
proof (induction ks arbitrary: b s)
  case Nil
  then show ?case using refl by (auto split: if_splits)
next
  case (Cons k ks)
  show ?case
  proof (cases "b < f")
    case True
    then obtain ok1 s1 where e: "mm_map_level (lv - 1) env attrs flags (ptable_id t) b f b (root_table t k) s = Ret (ok1, s1)"
      using Cons.prems by auto
    note 1 = map_level [OF e]
    show ?thesis
    proof (cases ok1)
      case ok: True
      from Cons.prems e True ok have "R env flags s1 s'" by (intro Cons.IH) (auto simp del: One_nat_def)
      then show ?thesis by (rule trans [OF 1])
    next
      case False
      then show ?thesis using Cons.prems True e 1 by auto
    qed
  qed (use Cons.prems refl in simp)
qed

lemma synced:
  assumes "and_then r (\<lambda>(ok, s). if \<not> ok then Ret (False, s) else Ret (True, log_event Sync_writes s)) = Ret (ok, s')"
    and "\<And>ok s'. r = Ret (ok, s') \<Longrightarrow> R env flags s s'"
  shows "R env flags s s'"
proof -
  obtain ok1 s1 where r: "r = Ret (ok1, s1)"
    and k: "(if \<not> ok1 then Ret (False, s1) else Ret (True, log_event Sync_writes s1)) = Ret (ok, s')"
    using assms(1) by auto
  note 1 = assms(2) [OF r]
  show ?thesis using k 1 trans [OF 1 sync] by (cases ok1) simp_all
qed

lemma identity_map:
  "mm_ptable_identity_map env t pb pe attrs flags s = Ret (ok, s') \<Longrightarrow> R env flags s s'"
  unfolding mm_ptable_identity_map_def mm_map_root_def Let_def check_eq_Ret
  by (elim conjE, erule synced) (rule map_root_loop)

lemma identity_update:
  assumes "mm_ptable_identity_update env t pb pe attrs flags s = Ret (ok, s')"
  shows "R env flags s s'"
proof -
  obtain ok1 s1 where 1: "mm_ptable_identity_map env t pb pe attrs (flags AND NOT MM_FLAG_COMMIT) s = Ret (ok1, s1)"
    using assms by (auto simp: mm_ptable_identity_update_def mm_ptable_identity_prepare_def)
  note r1 = identity_map [OF 1, unfolded prepare]
  show ?thesis
  proof (cases ok1)
    case True
    then obtain ok2 where "mm_ptable_identity_map env t pb pe attrs (flags OR MM_FLAG_COMMIT) s1 = Ret (ok2, s')"
      using assms 1 by (auto simp: mm_ptable_identity_update_def mm_ptable_identity_prepare_def mm_ptable_identity_commit_def)
    from trans [OF r1 identity_map [OF this, unfolded commit]] show ?thesis .
  next
    case False
    then show ?thesis using assms 1 r1 by (simp add: mm_ptable_identity_update_def mm_ptable_identity_prepare_def)
  qed
qed

lemma map_one_page:
  "mm_ptable_map_one_page env t va pa attrs flags s = Ret (ok, s') \<Longrightarrow> R env flags s s'"
proof -
  assume "mm_ptable_map_one_page env t va pa attrs flags s = Ret (ok, s')"
  then have a: "(if arch_mm_clear_pa va + PAGE_SIZE > mm_ptable_addr_space_end env flags then Ret (False, s)
         else and_then (mm_map_root_one_page env t (arch_mm_clear_pa va) (arch_mm_clear_pa pa) attrs (mm_max_level env flags + 1) flags s)
           (\<lambda>(ok, s). if \<not> ok then Ret (False, s) else Ret (True, log_event Sync_writes s))) = Ret (ok, s')"
    unfolding mm_ptable_map_one_page_def Let_def check_eq_Ret by (rule conjunct2)
  have "R env flags s s'"
    if "mm_map_root_one_page env t va pa attrs lv flags s = Ret (ok, s')" for va pa lv ok s'
    using that map_level_one_page unfolding mm_map_root_one_page_def by (simp split: if_splits)
  then show ?thesis using a refl synced by (cases "arch_mm_clear_pa va + PAGE_SIZE > mm_ptable_addr_space_end env flags") auto
qed

lemma defrag_loop:
  assumes "\<And>a e s s'. below a e s = Ret s' \<Longrightarrow> R env flags s s'"
  shows "defrag_loop below l t ba bp bt is mg s = Ret (mg', s') \<Longrightarrow> R env flags s s'"
proof (induction "is" arbitrary: mg s)
  case (Cons i "is")
  then obtain s1 where "below (ba + of_nat i * mm_entry_size l) (t, i) s = Ret s1" by auto
  moreover from this Cons.prems have "R env flags s1 s'" by (auto simp: Let_def intro: Cons.IH)
  ultimately show ?case using assms trans by blast
qed (use refl in simp)

lemma defrag_entry:
  "mm_ptable_defrag_entry l env flags vid ba e s = Ret s' \<Longrightarrow> R env flags s s'"
proof (induction l arbitrary: ba e s s')
  case 0
  then show ?case using refl by simp
next
  case (Suc l)
  obtain t i where e: "e = (t, i)" by (cases e)
  show ?case
  proof (cases "arch_mm_pte_is_table (mem s t i) (Suc l)")
    case False
    then show ?thesis using Suc.prems refl by (simp add: e)
  next
    case True
    let ?n = "sub_table (mem s t i) (Suc l)"
    obtain s1 mg s2 where 1: "mm_ptable_defrag_entry l env flags vid ba (?n, 0) s = Ret s1"
      and 2: "defrag_loop (mm_ptable_defrag_entry l env flags vid) l ?n ba
        (arch_mm_pte_is_present (mem s1 ?n 0) l) (arch_mm_pte_attrs (mem s1 ?n 0) l) [1..<MM_PTE_PER_PAGE] True s1 = Ret (mg, s2)"
      using Suc.prems True unfolding e mm_ptable_defrag_entry.simps sub_table_def [symmetric] Let_def by auto
    have "R env flags s s2" using trans [OF Suc.IH [OF 1] defrag_loop [OF _ 2]] Suc.IH by blast
    then show ?thesis
      using Suc.prems [unfolded e defrag_entry_unfold [OF True 1 2]] replace trans by (auto split: if_splits)
  qed
qed

lemma defrag_root_loop:
  "defrag_root_loop env t lv flags ks b s = Ret s' \<Longrightarrow> R env flags s s'"
proof (induction ks arbitrary: b s)
  case (Cons k ks)
  then show ?case using defrag_entry trans by (cases k) (auto, blast)
qed (use refl in simp)

lemma defrag: "mm_ptable_defrag env t flags s = Ret s' \<Longrightarrow> R env flags s s'"
proof -
  assume "mm_ptable_defrag env t flags s = Ret s'"
  then obtain s1 where "defrag_root_loop env t (mm_max_level env flags) flags
      (List.product [0..<mm_root_table_count env flags] [0..<MM_PTE_PER_PAGE]) 0 s = Ret s1"
    and s': "s' = log_event Sync_writes s1" by (auto simp: mm_ptable_defrag_def)
  from defrag_root_loop [OF this(1)] show ?thesis unfolding s' by (rule trans) (rule sync)
qed

end

section \<open>Break before make\<close>

text \<open>
  Replaying the recorded writes on the memory before. A valid entry is only ever written over an entry
  that is not valid.
\<close>

fun replay :: "table_mem \<Rightarrow> mm_event list \<Rightarrow> table_mem" where
  "replay m [] = m"
| "replay m (Pte_write t i v # es) = replay (m(t := (m t)(i := v))) es"
| "replay m (Table_init t f # es) = replay (m(t := f)) es"
| "replay m (Tlb_range b e ops # es) = replay m es"
| "replay m (Sync_writes # es) = replay m es"

fun break_before_make :: "table_mem \<Rightarrow> mm_event list \<Rightarrow> bool" where
  "break_before_make m [] \<longleftrightarrow> True"
| "break_before_make m (Pte_write t i v # es) \<longleftrightarrow>
     (bit v 0 \<longrightarrow> \<not> bit (m t i) 0) \<and> break_before_make (m(t := (m t)(i := v))) es"
| "break_before_make m (Table_init t f # es) \<longleftrightarrow> break_before_make (m(t := f)) es"
| "break_before_make m (Tlb_range b e ops # es) \<longleftrightarrow> break_before_make m es"
| "break_before_make m (Sync_writes # es) \<longleftrightarrow> break_before_make m es"

lemma replay_append [simp]: "replay m (es @ es') = replay (replay m es) es'"
  by (induction m es rule: replay.induct) (simp_all add: fun_upd_def)

lemma break_before_make_append:
  "break_before_make m (es @ es') \<longleftrightarrow> break_before_make m es \<and> break_before_make (replay m es) es'"
  by (induction m es rule: break_before_make.induct) (simp_all add: fun_upd_def)

text \<open>The tables of stage 1 always need it, those of stage 2 once invalidation is enabled.\<close>

definition bbm_step :: "mm_env \<Rightarrow> u32 \<Rightarrow> mm_state \<Rightarrow> mm_state \<Rightarrow> bool" where
  "bbm_step env flags s s' \<longleftrightarrow>
     (has flags MM_FLAG_STAGE1 \<or> mm_stage2_invalidate env \<longrightarrow>
       (\<exists>es. trace s' = trace s @ es \<and> mem s' = replay (mem s) es \<and> break_before_make (mem s) es))"

lemma bbm_stepI:
  "trace s' = trace s @ es \<Longrightarrow> mem s' = replay (mem s) es \<Longrightarrow> break_before_make (mem s) es \<Longrightarrow>
    bbm_step env flags s s'"
  by (auto simp: bbm_step_def)

interpretation bbm: edit_relation bbm_step
proof unfold_locales
  fix env flags s s' s''
  show "bbm_step env flags s s" by (rule bbm_stepI [of _ _ "[]"]) simp_all
  assume "bbm_step env flags s s'" "bbm_step env flags s' s''"
  then show "bbm_step env flags s s''"
    unfolding bbm_step_def by (metis append.assoc replay_append break_before_make_append)
next
  fix env flags s p
  show "bbm_step env flags s (s\<lparr>pool := p\<rparr>)" by (rule bbm_stepI [of _ _ "[]"]) simp_all
next
  fix env flags s
  show "bbm_step env flags s (log_event Sync_writes s)"
    by (rule bbm_stepI [of _ _ "[Sync_writes]"]) (simp_all add: log_event_def)
next
  fix env flags s t f
  show "bbm_step env flags s (init_table t f s)"
    by (rule bbm_stepI [of _ _ "[Table_init t f]"]) (simp_all add: init_table_def log_event_def)
next
  fix env b t i new l flags vid s s'
  assume "mm_replace_entry env b (t, i) new l flags vid s = Ret s'"
  moreover have "\<not> bit (arch_mm_absent_pte l) 0" by (simp add: arch_mm_absent_pte_def)
  ultimately show "bbm_step env flags s s'"
    using mm_replace_entry_returns [of env b t i new l flags vid s]
    by (auto simp: bbm_step_def pte_is_valid_bit split: if_splits)
next
  fix env flags
  show "bbm_step env (flags AND NOT MM_FLAG_COMMIT) = bbm_step env flags"
    "bbm_step env (flags OR MM_FLAG_COMMIT) = bbm_step env flags"
    by (simp_all add: bbm_step_def fun_eq_iff)
qed

end
