(* ===== verification/MM_TLB.thy ===== *)
theory MM_TLB
  imports MM_Trace
begin

text \<open>
  What the TLB may hold while the tables of \<^verbatim>\<open>src/mm.c\<close> are edited. The hardware may cache the
  translation of an address whenever the tables have a valid one, and keeps it until an invalidation
  removes it. The recorded writes and maintenance operations of an edit are checked against this:
  at no moment may two different translations of one address be reachable, and at the end nothing
  that the tables no longer say may be left.
\<close>

section \<open>Coherence of one address\<close>

text \<open>
  \<open>V\<close> is the translation that a memory gives to the address, valid when bit 0 is set. \<open>c\<close> is what the TLB
  may hold of it, and \<open>rm\<close> tells which maintenance sequences remove it.
\<close>

definition tlb_fill :: "u64 \<Rightarrow> u64 option" where
  "tlb_fill x = (if bit x 0 then Some x else None)"

fun tlb_coherent ::
  "(tlb_op list \<Rightarrow> bool) \<Rightarrow> (table_mem \<Rightarrow> u64) \<Rightarrow> u64 option \<Rightarrow> table_mem \<Rightarrow> mm_event list \<Rightarrow> bool" where
  "tlb_coherent rm V c m [] \<longleftrightarrow> c = tlb_fill (V m)"
| "tlb_coherent rm V c m (Pte_write t i v # es) \<longleftrightarrow>
     (let m' = m(t := (m t)(i := v)); x = V m'
      in (bit x 0 \<longrightarrow> c = None \<or> c = Some x) \<and> tlb_coherent rm V (if bit x 0 then Some x else c) m' es)"
| "tlb_coherent rm V c m (Table_init t f # es) \<longleftrightarrow>
     (let m' = m(t := f); x = V m'
      in (bit x 0 \<longrightarrow> c = None \<or> c = Some x) \<and> tlb_coherent rm V (if bit x 0 then Some x else c) m' es)"
| "tlb_coherent rm V c m (Tlb_range b e ops # es) \<longleftrightarrow>
     tlb_coherent rm V (if rm ops then tlb_fill (V m) else c) m es"
| "tlb_coherent rm V c m (Sync_writes # es) \<longleftrightarrow> tlb_coherent rm V c m es"

lemma tlb_coherent_append:
  "tlb_coherent rm V c m es \<Longrightarrow> tlb_coherent rm V (tlb_fill (V (replay m es))) (replay m es) es' \<Longrightarrow>
    tlb_coherent rm V c m (es @ es')"
  by (induction rm V c m es rule: tlb_coherent.induct) (simp_all add: Let_def)

lemma tlb_coherent_const: "tlb_coherent rm (\<lambda>_. x) (tlb_fill x) m es"
proof (induction es arbitrary: m)
  case (Cons e es)
  then show ?case by (cases e; cases "bit x 0") (simp_all add: tlb_fill_def Let_def)
qed simp

text \<open>The places a sequence of events writes to, and memories that agree elsewhere.\<close>

type_synonym places = "(u64 \<times> nat) set"

fun event_in :: "places \<Rightarrow> mm_event \<Rightarrow> bool" where
  "event_in P (Pte_write t i v) \<longleftrightarrow> (t, i) \<in> P"
| "event_in P (Table_init t f) \<longleftrightarrow> (\<forall>i. (t, i) \<in> P)"
| "event_in P (Tlb_range b e ops) \<longleftrightarrow> True"
| "event_in P Sync_writes \<longleftrightarrow> True"

definition agrees :: "places \<Rightarrow> table_mem \<Rightarrow> table_mem \<Rightarrow> bool" where
  "agrees P m m' \<longleftrightarrow> (\<forall>t i. (t, i) \<notin> P \<longrightarrow> m' t i = m t i)"

lemma agrees_refl: "agrees P m m"
  by (simp add: agrees_def)

lemma agrees_write: "agrees P m0 m \<Longrightarrow> (t, i) \<in> P \<Longrightarrow> agrees P m0 (m(t := (m t)(i := v)))"
  by (auto simp: agrees_def)

lemma agrees_init: "agrees P m0 m \<Longrightarrow> \<forall>i. (t, i) \<in> P \<Longrightarrow> agrees P m0 (m(t := f))"
  by (auto simp: agrees_def)

lemma agrees_page: "agrees P m m' \<Longrightarrow> \<forall>i. (p, i) \<notin> P \<Longrightarrow> m' p = m p"
  by (auto simp: agrees_def)

text \<open>Only what a view says of the memories that can occur matters.\<close>

lemma tlb_coherent_view:
  assumes "\<forall>m. agrees P m0 m \<longrightarrow> V' m = V m" "\<forall>e \<in> set es. event_in P e" "agrees P m0 m"
  shows "tlb_coherent rm V' c m es = tlb_coherent rm V c m es"
  using assms
proof (induction es arbitrary: c m)
  case (Cons e es)
  note IH = Cons.IH [OF Cons.prems(1)] and v = spec [OF Cons.prems(1), THEN mp]
  show ?case
  proof (cases e)
    case (Pte_write t i x)
    have "agrees P m0 (m(t := (m t)(i := x)))" using Cons.prems Pte_write by (intro agrees_write) simp_all
    then show ?thesis using Cons.prems Pte_write IH v by (simp add: Let_def)
  next
    case (Table_init t f)
    have "agrees P m0 (m(t := f))" using Cons.prems Table_init by (intro agrees_init) simp_all
    then show ?thesis using Cons.prems Table_init IH v by (simp add: Let_def)
  qed (use Cons.prems IH v in simp_all)
qed simp

section \<open>Steps that keep the TLB coherent\<close>

definition tlb_step :: "(tlb_op list \<Rightarrow> bool) \<Rightarrow> places \<Rightarrow> (table_mem \<Rightarrow> u64) \<Rightarrow> mm_state \<Rightarrow> mm_state \<Rightarrow> bool" where
  "tlb_step rm P V s s' \<longleftrightarrow>
     (\<exists>es. trace s' = trace s @ es \<and> mem s' = replay (mem s) es \<and> (\<forall>e \<in> set es. event_in P e) \<and>
        tlb_coherent rm V (tlb_fill (V (mem s))) (mem s) es)"

lemma tlb_stepI:
  "trace s' = trace s @ es \<Longrightarrow> mem s' = replay (mem s) es \<Longrightarrow> \<forall>e \<in> set es. event_in P e \<Longrightarrow>
    tlb_coherent rm V (tlb_fill (V (mem s))) (mem s) es \<Longrightarrow> tlb_step rm P V s s'"
  by (auto simp: tlb_step_def)

lemma tlb_step_refl: "tlb_step rm P V s s"
  by (rule tlb_stepI [of _ _ "[]"]) simp_all

lemma tlb_step_trans: "tlb_step rm P V s s' \<Longrightarrow> tlb_step rm P V s' s'' \<Longrightarrow> tlb_step rm P V s s''"
  unfolding tlb_step_def
  by (elim exE conjE) (rule exI [of _ "_ @ _"], auto intro: tlb_coherent_append)

lemma event_in_mono: "event_in P e \<Longrightarrow> P \<subseteq> P' \<Longrightarrow> event_in P' e"
  by (cases e) auto

lemma tlb_step_mono: "tlb_step rm P V s s' \<Longrightarrow> P \<subseteq> P' \<Longrightarrow> tlb_step rm P' V s s'"
  unfolding tlb_step_def using event_in_mono by blast

lemma tlb_step_view:
  assumes "tlb_step rm P V s s'" "\<And>m. agrees P (mem s) m \<Longrightarrow> V' m = V m"
  shows "tlb_step rm P V' s s'"
  using assms(1) tlb_coherent_view [of P "mem s" V' V _ "mem s" rm] assms(2) agrees_refl
  unfolding tlb_step_def by metis

lemma tlb_step_frame:
  assumes "tlb_step rm P V s s'" "\<And>m. agrees P (mem s) m \<Longrightarrow> V' m = V' (mem s)"
  shows "tlb_step rm' P V' s s'"
proof -
  obtain es where "trace s' = trace s @ es" "mem s' = replay (mem s) es" "\<forall>e \<in> set es. event_in P e"
    using assms(1) by (auto simp: tlb_step_def)
  then have "tlb_step rm' P (\<lambda>_. V' (mem s)) s s'" by (rule tlb_stepI) (rule tlb_coherent_const)
  then show ?thesis by (rule tlb_step_view) (rule assms(2))
qed

lemma tlb_step_pool: "tlb_step rm P V s (s'\<lparr>pool := p\<rparr>) = tlb_step rm P V s s'"
  "tlb_step rm P V (s\<lparr>pool := p\<rparr>) s' = tlb_step rm P V s s'"
  by (simp_all add: tlb_step_def)

lemma tlb_step_sync: "tlb_step rm P V s (log_event Sync_writes s)"
  by (rule tlb_stepI [of _ _ "[Sync_writes]"]) simp_all

lemma tlb_step_init:
  assumes "\<And>m. agrees ({t} \<times> UNIV) (mem s) m \<Longrightarrow> V m = V (mem s)"
  shows "tlb_step rm ({t} \<times> UNIV) V s (init_table t f s)"
proof -
  have "tlb_step rm ({t} \<times> UNIV) (\<lambda>_. V (mem s)) s (init_table t f s)"
    by (rule tlb_stepI [of _ _ "[Table_init t f]"]) (simp_all add: tlb_fill_def Let_def)
  then show ?thesis by (rule tlb_step_view) (rule assms)
qed

section \<open>Replacing an entry\<close>

text \<open>
  The kinds of tables whose invalidation removes what it should: those of stage 2 once invalidation is
  enabled, and those of stage 1 whose address space identifier is zero.
\<close>

definition tlb_flushed :: "mm_env \<Rightarrow> u32 \<Rightarrow> u16 \<Rightarrow> bool" where
  "tlb_flushed env flags vid \<longleftrightarrow> (if has flags MM_FLAG_STAGE1 then vid AND 0xff = 0 else mm_stage2_invalidate env)"

definition tlb_removes :: "mm_env \<Rightarrow> u32 \<Rightarrow> u16 \<Rightarrow> u64 \<Rightarrow> tlb_op list \<Rightarrow> bool" where
  "tlb_removes env flags vid a ops \<longleftrightarrow>
     (if has flags MM_FLAG_STAGE1 then stage1_removed (env_cfg env) vid (drop_bit 12 a) ops
      else stage2_removed (env_cfg env) (drop_bit 12 a) ops)"

lemma page_in_range:
  assumes "l \<le> 3" "4096 dvd unat b" "unat b + esz l < 2 ^ 64" "unat b \<le> unat a" "unat a < unat b + esz l"
  shows "drop_bit 12 b \<le> drop_bit 12 a" "drop_bit 12 a < drop_bit 12 (b + mm_entry_size l)"
proof -
  have u: "unat (b + mm_entry_size l) = unat b + esz l"
    using assms(1,3) by (subst unat_add_no_wrap) simp_all
  have "4096 dvd unat b + esz l" using assms(2) esz_dvd [of 0 l] by (simp add: esz_0)
  then obtain k where k: "unat b + esz l = 4096 * k" by (auto elim: dvdE)
  show "drop_bit 12 b \<le> drop_bit 12 a"
    unfolding word_le_nat_alt unat_drop_bit_div by (rule div_le_mono [OF assms(4)])
  have "unat a div 4096 < k" using assms(5) k by (intro less_mult_imp_div_less) (simp add: mult.commute)
  then show "drop_bit 12 a < drop_bit 12 (b + mm_entry_size l)"
    unfolding word_less_nat_alt unat_drop_bit_div u k by simp
qed

lemma invalidate_removes:
  assumes "tlb_flushed env flags vid"
  shows "\<exists>ops. mm_invalidate_tlb env b (b + mm_entry_size l) flags vid s =
      Ret (log_event (Tlb_range b (b + mm_entry_size l) ops) s) \<and>
    (\<forall>a. l \<le> 3 \<and> 4096 dvd unat b \<and> unat b + esz l < 2 ^ 64 \<and> unat b \<le> unat a \<and> unat a < unat b + esz l \<longrightarrow>
      tlb_removes env flags vid a ops)"
proof (cases "has flags MM_FLAG_STAGE1")
  case True
  then have "vid AND 0xff = 0" using assms by (simp add: tlb_flushed_def)
  from stage1_range_removes_asid0 [OF this, of "env_cfg env" b "b + mm_entry_size l"] True page_in_range
  show ?thesis by (auto simp: mm_invalidate_tlb_def tlb_removes_def)
next
  case False
  from stage2_range_removes [of "env_cfg env" vid b "b + mm_entry_size l"] False page_in_range
  show ?thesis by (auto simp: mm_invalidate_tlb_def tlb_removes_def)
qed

lemma replace_events:
  assumes f: "tlb_flushed env flags vid" and r: "mm_replace_entry env b (t, i) new l flags vid s = Ret s'"
  shows "mem s' = (mem s)(t := (mem s t)(i := new))"
    "\<exists>es. trace s' = trace s @ es \<and> (if bit (mem s t i) 0
      then \<exists>ops. es = [Pte_write t i (arch_mm_absent_pte l), Tlb_range b (b + mm_entry_size l) ops, Pte_write t i new] \<and>
        (\<forall>a. l \<le> 3 \<and> 4096 dvd unat b \<and> unat b + esz l < 2 ^ 64 \<and> unat b \<le> unat a \<and> unat a < unat b + esz l \<longrightarrow>
          tlb_removes env flags vid a ops)
      else es = [Pte_write t i new])"
proof -
  have fl: "has flags MM_FLAG_STAGE1 \<or> mm_stage2_invalidate env" using f by (auto simp: tlb_flushed_def split: if_splits)
  show "mem s' = (mem s)(t := (mem s t)(i := new))"
    using mm_replace_entry_returns [of env b t i new l flags vid s] r by auto
  show "\<exists>es. trace s' = trace s @ es \<and> (if bit (mem s t i) 0
      then \<exists>ops. es = [Pte_write t i (arch_mm_absent_pte l), Tlb_range b (b + mm_entry_size l) ops, Pte_write t i new] \<and>
        (\<forall>a. l \<le> 3 \<and> 4096 dvd unat b \<and> unat b + esz l < 2 ^ 64 \<and> unat b \<le> unat a \<and> unat a < unat b + esz l \<longrightarrow>
          tlb_removes env flags vid a ops)
      else es = [Pte_write t i new])"
  proof (cases "bit (mem s t i) 0")
    case True
    from invalidate_removes [OF f, of b l "set_pte t i (arch_mm_absent_pte l) s"] r fl True show ?thesis
      by (auto simp: mm_replace_entry_def Let_def pte_is_valid_bit)
  next
    case False
    with r show ?thesis by (auto simp: mm_replace_entry_def Let_def pte_is_valid_bit)
  qed
qed

lemma replace_coherent:
  assumes f: "tlb_flushed env flags vid" and r: "mm_replace_entry env b (t, i) new l flags vid s = Ret s'"
    and absent: "\<not> bit (V ((mem s)(t := (mem s t)(i := arch_mm_absent_pte l)))) 0"
    and invalid: "\<not> bit (mem s t i) 0 \<Longrightarrow> \<not> bit (V (mem s)) 0"
    and new: "V (mem s') = V (mem s) \<or>
      l \<le> 3 \<and> 4096 dvd unat b \<and> unat b + esz l < 2 ^ 64 \<and> unat b \<le> unat a \<and> unat a < unat b + esz l"
  shows "tlb_step (tlb_removes env flags vid a) {(t, i)} V s s'"
proof -
  note m = replace_events(1) [OF f r]
  obtain es where t: "trace s' = trace s @ es" and e: "if bit (mem s t i) 0
      then \<exists>ops. es = [Pte_write t i (arch_mm_absent_pte l), Tlb_range b (b + mm_entry_size l) ops, Pte_write t i new] \<and>
        (\<forall>a. l \<le> 3 \<and> 4096 dvd unat b \<and> unat b + esz l < 2 ^ 64 \<and> unat b \<le> unat a \<and> unat a < unat b + esz l \<longrightarrow>
          tlb_removes env flags vid a ops)
      else es = [Pte_write t i new]"
    using replace_events(2) [OF f r] by blast
  show ?thesis
  proof (cases "bit (mem s t i) 0")
    case True
    then obtain ops where es: "es = [Pte_write t i (arch_mm_absent_pte l), Tlb_range b (b + mm_entry_size l) ops, Pte_write t i new]"
      and rm: "V (mem s') = V (mem s) \<or> tlb_removes env flags vid a ops"
      using e new by auto
    have "tlb_coherent (tlb_removes env flags vid a) V (tlb_fill (V (mem s))) (mem s) es"
      unfolding es using absent rm m by (auto simp: Let_def tlb_fill_def)
    then show ?thesis using t es m by (intro tlb_stepI [of _ _ es]) simp_all
  next
    case False
    then have es: "es = [Pte_write t i new]" using e by simp
    have "tlb_coherent (tlb_removes env flags vid a) V (tlb_fill (V (mem s))) (mem s) es"
      unfolding es using invalid [OF False] by (simp add: Let_def tlb_fill_def)
    then show ?thesis using t es m by (intro tlb_stepI [of _ _ es]) simp_all
  qed
qed

section \<open>Mapping in one entry\<close>

definition entry_places :: "nat \<Rightarrow> u64 \<Rightarrow> nat \<Rightarrow> mm_state \<Rightarrow> places" where
  "entry_places l t i s = insert (t, i) (set_mset (entry_pages l t i s) \<times> UNIV)"

definition table_places :: "nat \<Rightarrow> u64 \<Rightarrow> mm_state \<Rightarrow> places" where
  "table_places l t s = insert t (set_mset (all_pages l t s)) \<times> UNIV"

abbreviation entry_view :: "nat \<Rightarrow> u64 \<Rightarrow> nat \<Rightarrow> u64 \<Rightarrow> table_mem \<Rightarrow> u64" where
  "entry_view l t i a \<equiv> \<lambda>m. attr_at l m (m t i) a"

abbreviation table_view :: "nat \<Rightarrow> u64 \<Rightarrow> u64 \<Rightarrow> table_mem \<Rightarrow> u64" where
  "table_view l t a \<equiv> \<lambda>m. table_attr l m t a"

lemma absent_view: "attr_at l m (arch_mm_absent_pte l) a = 0"
  using not_table_simps(2) [of "arch_mm_absent_pte l" l] by (simp add: arch.absent_kind arch.absent_attrs)

lemma invalid_view: "\<not> bit pte 0 \<Longrightarrow> \<not> bit (attr_at l m pte a) 0"
proof -
  assume v: "\<not> bit pte 0"
  then have "\<not> arch_mm_pte_is_table pte l" by (simp add: arch_mm_pte_is_table_def pte_is_valid_bit)
  then show ?thesis using v by (simp add: not_table_simps(2) arch_mm_pte_attrs_def bit_and_iff)
qed

lemma replace_leaf_tlb:
  assumes "tlb_flushed env flags vid" "mm_replace_entry env b (t, i) new l flags vid s = Ret s'"
    and "l \<le> 3" "4096 dvd unat b" "unat b + esz l < 2 ^ 64" "unat b \<le> unat a" "unat a < unat b + esz l"
  shows "tlb_step (tlb_removes env flags vid a) {(t, i)} (entry_view l t i a) s s'"
  by (rule replace_coherent [OF assms(1,2)]) (use assms(3-) in \<open>simp_all add: absent_view invalid_view\<close>)

lemma populate_tlb:
  assumes inv: "entry_inv idm (Suc l) t i base s" and f: "tlb_flushed env flags vid"
    and r: "mm_populate_table_pte env b (t, i) (Suc l) flags vid s = Ret (nt, s')"
  shows "tlb_step (tlb_removes env flags vid a) (entry_places (Suc l) t i s) (entry_view (Suc l) t i a) s s'"
  using inv
proof (cases rule: populate_spec [of idm l t i base s env b flags vid])
  case existing
  then show ?thesis using r tlb_step_refl by simp
next
  case full
  then show ?thesis using r tlb_step_refl by simp
next
  case (new s2)
  then have s2: "s2 = s'" using r by simp
  obtain p x where al: "mpool_alloc (pool s) = (p, x)" by fastforce
  from new(1,2) populate_full [of s t i l p env b flags vid] al obtain n where x: "x = Some n" by (cases x) auto
  let ?s1 = "init_table n (split_entries (mem s t i) l (mem s n)) (s\<lparr>pool := p\<rparr>)"
  have rp: "mm_replace_entry env b (t, i) (arch_mm_table_pte (Suc l) n) (Suc l) flags vid ?s1 = Ret s'"
    using r populate_new [OF new(1) al [unfolded x], of env b flags vid] by auto
  have av: "n \<in># free_pages s"
    using pool.alloc_Some [of "pool s" p n] al inv x by (auto simp: entry_inv_def page_pool_ok_def)
  then have n: "n \<noteq> t" "n \<in># entry_pages (Suc l) t i s"
    using entry_pages_facts(2) [OF inv, of n] by (auto simp: entry_pages_def)
  have same: "entry_view (Suc l) t i a m = entry_view (Suc l) t i a (mem s)" if "agrees ({n} \<times> UNIV) (mem s) m" for m
  proof -
    have "m t i = mem s t i" using that n(1) by (simp add: agrees_def)
    then show ?thesis using new(1) by simp
  qed
  have "tlb_step (tlb_removes env flags vid a) ({n} \<times> UNIV) (entry_view (Suc l) t i a) s ?s1"
    using tlb_step_init [of n "s\<lparr>pool := p\<rparr>" "entry_view (Suc l) t i a"] same by (simp add: tlb_step_pool)
  moreover have "tlb_step (tlb_removes env flags vid a) {(t, i)} (entry_view (Suc l) t i a) ?s1 s'"
  proof (rule replace_coherent [OF f rp])
    have "entry_view (Suc l) t i a (mem ?s1) = entry_view (Suc l) t i a (mem s)"
      by (rule same) (simp add: agrees_def)
    then show "entry_view (Suc l) t i a (mem s') = entry_view (Suc l) t i a (mem ?s1) \<or>
      Suc l \<le> 3 \<and> 4096 dvd unat b \<and> unat b + esz (Suc l) < 2 ^ 64 \<and> unat b \<le> unat a \<and> unat a < unat b + esz (Suc l)"
      using new(5) unfolding s2 by (intro disjI1) simp
  qed (simp_all only: fun_upd_same absent_view bit_0_eq bot_fun_def bot_bool_def not_False_eq_True invalid_view)
  moreover have "{n} \<times> UNIV \<subseteq> entry_places (Suc l) t i s" "{(t, i)} \<subseteq> entry_places (Suc l) t i s"
    using n by (auto simp: entry_places_def)
  ultimately show ?thesis using tlb_step_mono tlb_step_trans by meson
qed

text \<open>A step inside the table that an entry refers to, seen from the entry.\<close>

lemma table_tlb_entry:
  assumes "entry_inv idm (Suc l) t i base s" "arch_mm_pte_is_table (mem s t i) (Suc l)"
    and "tlb_step rm (table_places l (sub_table (mem s t i) (Suc l)) s) (table_view l (sub_table (mem s t i) (Suc l)) a) s s'"
  shows "tlb_step rm (entry_places (Suc l) t i s) (entry_view (Suc l) t i a) s s'"
proof -
  let ?n = "sub_table (mem s t i) (Suc l)"
  note tab = entry_inv_table [OF assms(1,2)]
  have "tlb_step rm (table_places l ?n s) (entry_view (Suc l) t i a) s s'"
  proof (rule tlb_step_view [OF assms(3)])
    fix m
    assume "agrees (table_places l ?n s) (mem s) m"
    then have "m t i = mem s t i" using tab(2,3) by (auto simp: agrees_def table_places_def)
    then show "attr_at (Suc l) m (m t i) a = table_attr l m ?n a" using assms(2) by (simp add: table_attr_def)
  qed
  moreover have "table_places l ?n s \<subseteq> entry_places (Suc l) t i s"
    unfolding table_places_def entry_places_def entry_pages_table [OF assms(2)] by auto
  ultimately show ?thesis by (rule tlb_step_mono)
qed

lemma map_entry_tlb:
  assumes inv: "entry_inv idm l t i base s" and l: "l \<le> 3" "esz l dvd base" and f: "tlb_flushed env flags vid"
    and bg: "base \<le> unat begin" "unat begin < base + esz l" "begin < fin"
    and pg: "4096 dvd unat begin" "unat fin \<le> 2 ^ 48"
    and a: "base \<le> unat a" "unat a < base + esz l"
    and IH: "\<And>k nt s1 ok s'. l = Suc k \<Longrightarrow> table_inv idm k nt base s1 \<Longrightarrow> below begin fin begin nt s1 = Ret (ok, s') \<Longrightarrow>
      tlb_step (tlb_removes env flags vid a) (table_places k nt s1) (table_view k nt a) s1 s'"
    and r: "map_entry below env attrs l flags vid t i begin fin begin s = Ret (ok, s')"
  shows "tlb_step (tlb_removes env flags vid a) (entry_places l t i s) (entry_view l t i a) s s'"
proof -
  note wh = whole_iff [OF l bg, of flags]
  note r' = r [unfolded map_entry_def Let_def wh]
  consider (same) "s' = s"
    | (leaf) new where "entry_whole flags l base (unat begin) (unat fin)"
        "mm_replace_entry env begin (t, i) new l flags vid s = Ret s'"
    | (part) k nt s1 where "l = Suc k" "mm_populate_table_pte env begin (t, i) l flags vid s = Ret (nt, s1)"
        "(case nt of None \<Rightarrow> Ret (False, s1) | Some nt \<Rightarrow> below begin fin begin nt s1) = Ret (ok, s')"
    using r' by (cases l) (auto split: if_splits)
  then show ?thesis
  proof cases
    case same
    then show ?thesis using tlb_step_refl by simp
  next
    case leaf
    have b: "unat begin = base" and "base + esz l \<le> unat fin" using leaf(1) bg(1) by (simp_all add: entry_whole_def)
    then have "base + esz l < 2 ^ 64" using pg(2) by simp
    from replace_leaf_tlb [OF f leaf(2) l(1) pg(1)] this a
    have "tlb_step (tlb_removes env flags vid a) {(t, i)} (entry_view l t i a) s s'" unfolding b by blast
    then show ?thesis by (rule tlb_step_mono) (simp add: entry_places_def)
  next
    case (part k nt s1)
    note inv' = inv [unfolded part(1)]
    have first: "tlb_step (tlb_removes env flags vid a) (entry_places (Suc k) t i s) (entry_view (Suc k) t i a) s s1"
      using populate_tlb [OF inv' f] part(2) unfolding part(1) by blast
    show ?thesis
    proof (cases nt)
      case None
      then show ?thesis using part first by simp
    next
      case (Some n)
      have st: "entry_step idm (Suc k) t i base s s1 \<and> arch_mm_pte_is_table (mem s1 t i) (Suc k) \<and> n = sub_table (mem s1 t i) (Suc k)"
        using inv' by (cases rule: populate_spec [of idm k t i base s env "begin" flags vid])
          (use part(1,2) Some entry_step_refl [OF inv'] in auto)
      then have inv1: "entry_inv idm (Suc k) t i base s1" using entry_step_inv [OF inv'] by blast
      have eq: "entry_places (Suc k) t i s1 = entry_places (Suc k) t i s"
        using st by (simp add: entry_step_def entry_places_def)
      have "below begin fin begin n s1 = Ret (ok, s')" using part(3) Some by simp
      then have "tlb_step (tlb_removes env flags vid a) (entry_places (Suc k) t i s1) (entry_view (Suc k) t i a) s1 s'"
        using table_tlb_entry [OF inv1] IH [OF part(1)] entry_inv_table(1) [OF inv1] st by blast
      with first show ?thesis unfolding eq part(1) by (rule tlb_step_trans)
    qed
  qed
qed

section \<open>Mapping in one table\<close>

text \<open>A step in one entry, seen from the table.\<close>

lemma entry_tlb_table:
  assumes inv: "table_inv idm l t B s" and i: "i < 512"
    and st: "mm_index a l = i \<Longrightarrow> tlb_step rm (entry_places l t i s) (entry_view l t i a) s s'"
    and any: "tlb_step rm' (entry_places l t i s) V s s'"
  shows "tlb_step rm (table_places l t s) (table_view l t a) s s'"
proof -
  have "tlb_step rm (entry_places l t i s) (table_view l t a) s s'"
  proof (cases "mm_index a l = i")
    case True
    then show ?thesis using st by (simp add: table_attr_def)
  next
    case False
    let ?j = "mm_index a l"
    show ?thesis
    proof (rule tlb_step_frame [OF any])
      fix m
      assume ag: "agrees (entry_places l t i s) (mem s) m"
      have own: "own_ok (other_pages l t i (mem s) + (entry_pages l t i s + {#t#}))"
        using inv by (simp add: table_inv_def all_pages_split [OF i] ac_simps)
      then have "t \<notin># entry_pages l t i s"
        using own_ok_disjoint [of "{#t#}" "other_pages l t i (mem s) + entry_pages l t i s" t] by (simp add: ac_simps)
      then have mt: "m t ?j = mem s t ?j" using ag False by (simp add: agrees_def entry_places_def)
      have "m p = mem s p" if "p \<in> set (pages l (mem s) (mem s t ?j))" for p
      proof -
        have "p \<in># other_pages l t i (mem s)" using in_other_pages [of ?j i p] that False by simp
        from own_ok_disjoint [OF own this] show ?thesis
          using agrees_page [OF ag] by (simp add: entry_places_def)
      qed
      then show "table_attr l m t a = table_attr l (mem s) t a"
        using entry_frame(2) [of l "mem s" "mem s t ?j" m] unfolding table_attr_def mt by simp
    qed
  qed
  moreover have "entry_places l t i s \<subseteq> table_places l t s"
    unfolding entry_places_def table_places_def all_pages_split [OF i] by auto
  ultimately show ?thesis by (rule tlb_step_mono)
qed

lemma map_loop_tlb:
  assumes l: "l \<le> 3" "esz (Suc l) dvd B" and fl: "tlb_flushed env flags vid"
    and fin: "unat fin \<le> B + esz (Suc l)" "unat fin \<le> 2 ^ 48" "4096 dvd unat fin"
    and at: "has flags MM_FLAG_UNMAP \<or> pte_attrs_ok attrs"
    and spec: "\<And>k nt s1 base bg. l = Suc k \<Longrightarrow> table_inv idm k nt base s1 \<Longrightarrow> esz l dvd base \<Longrightarrow>
      base \<le> unat bg \<Longrightarrow> unat bg < base + esz l \<Longrightarrow> bg < fin \<Longrightarrow> 4096 dvd unat bg \<Longrightarrow>
      \<exists>ok s'. below bg fin bg nt s1 = Ret (ok, s') \<and>
        table_result idm k nt base flags attrs (unat bg) (unat fin) s1 ok s'"
    and IH: "\<And>k nt s1 base bg a ok s'. l = Suc k \<Longrightarrow> table_inv idm k nt base s1 \<Longrightarrow> esz l dvd base \<Longrightarrow>
      base \<le> unat bg \<Longrightarrow> unat bg < base + esz l \<Longrightarrow> bg < fin \<Longrightarrow> 4096 dvd unat bg \<Longrightarrow>
      base \<le> unat a \<Longrightarrow> unat a < base + esz l \<Longrightarrow> below bg fin bg nt s1 = Ret (ok, s') \<Longrightarrow>
      tlb_step (tlb_removes env flags vid a) (table_places k nt s1) (table_view k nt a) s1 s'"
    and a: "B \<le> unat a" "unat a < B + esz (Suc l)"
  shows "table_inv idm l t B s \<Longrightarrow> at_entry l B i bg fin \<Longrightarrow> i \<le> 512 \<Longrightarrow>
    map_loop below env attrs l flags vid t [i..<512] bg fin bg s = Ret (ok, s') \<Longrightarrow>
    tlb_step (tlb_removes env flags vid a) (table_places l t s) (table_view l t a) s s'"
proof (induction "512 - i" arbitrary: i bg s)
  case 0
  then have "s' = s" by (auto simp: at_entry_def split: if_splits)
  then show ?case using tlb_step_refl by simp
next
  case (Suc n)
  then have i: "i < 512" and up: "[i..<512] = i # [i + 1..<512]" by (simp_all add: upt_conv_Cons)
  show ?case
  proof (cases "bg < fin")
    case False
    then have "s' = s" using Suc.prems(4) unfolding up by simp
    then show ?thesis using tlb_step_refl by simp
  next
    case True
    note inv = Suc.prems(1)
    have bg: "B + i * esz l \<le> unat bg" "unat bg < B + (i + 1) * esz l" "4096 dvd unat bg"
      using Suc.prems(2) True by (simp_all add: at_entry_def)
    have bd: "esz l dvd B + i * esz l" using dvd_trans [OF esz_dvd l(2), of l] by simp
    have lt: "unat bg < B + i * esz l + esz l" using bg(2) by (simp add: add_ac)
    note ei = table_inv_entry [OF inv i]
    obtain ok1 s1 where e: "map_entry below env attrs l flags vid t i bg fin bg s = Ret (ok1, s1)"
      and er: "entry_result idm l t i (B + i * esz l) flags attrs (unat bg) (unat fin) s ok1 s1"
      using map_entry_spec [OF ei l(1) bd bg(1) lt True bg(3) fin(3,2) at, of below env vid]
        spec [OF _ _ bd bg(1) lt True bg(3)] by blast
    have tl: "tlb_step (tlb_removes env flags vid x) (entry_places l t i s) (entry_view l t i x) s s1"
      if "B + i * esz l \<le> unat x" "unat x < B + i * esz l + esz l" for x :: u64
      by (rule map_entry_tlb [OF ei l(1) bd fl bg(1) lt True bg(3) fin(2) that _ e])
        (rule IH [OF _ _ bd bg(1) lt True bg(3) that])
    have "tlb_step (tlb_removes env flags vid a) (entry_places l t i s) (entry_view l t i a) s s1" if "mm_index a l = i"
    proof -
      have "unat a < B + 512 * esz l" using a(2) by (simp add: esz_Suc)
      from table_position [OF l(2) a(1) this] show ?thesis unfolding that by (intro tl) (simp_all add: add_ac)
    qed
    from entry_tlb_table [OF inv i this tl [OF bg(1) lt]]
    have first: "tlb_step (tlb_removes env flags vid a) (table_places l t s) (table_view l t a) s s1" .
    have st: "entry_step idm l t i (B + i * esz l) s s1" using er by (simp add: entry_result_def)
    note ts = entry_step_table(1) [OF inv i st]
    show ?thesis
    proof (cases ok1)
      case False
      then have "s' = s1" using Suc.prems(4) True e unfolding up by simp
      then show ?thesis using first by simp
    next
      case ok1: True
      let ?n = "mm_start_of_next_block bg (mm_entry_size l)"
      note nx = at_entry_next [OF l True Suc.prems(2) fin(1,2)]
      have "n = 512 - (i + 1)" "i + 1 \<le> 512" using Suc.hyps(2) i by simp_all
      moreover have "map_loop below env attrs l flags vid t [i + 1..<512] ?n fin ?n s1 = Ret (ok, s')"
        using Suc.prems(4) True e ok1 unfolding up by (simp add: pa_next)
      ultimately have "tlb_step (tlb_removes env flags vid a) (table_places l t s1) (table_view l t a) s1 s'"
        using Suc.hyps(1) [OF _ table_step_inv [OF inv ts] nx(2)] by blast
      moreover have "table_places l t s1 = table_places l t s" using ts by (simp add: table_step_def table_places_def)
      ultimately show ?thesis using tlb_step_trans [OF first] by simp
    qed
  qed
qed

lemma map_level_tlb:
  assumes at: "has flags MM_FLAG_UNMAP \<or> pte_attrs_ok attrs" and fl: "tlb_flushed env flags vid"
  shows "l \<le> 3 \<Longrightarrow> table_inv idm l t B s \<Longrightarrow> esz (Suc l) dvd B \<Longrightarrow> B \<le> unat bg \<Longrightarrow>
    unat bg < B + esz (Suc l) \<Longrightarrow> bg < fin \<Longrightarrow> 4096 dvd unat bg \<Longrightarrow> 4096 dvd unat fin \<Longrightarrow>
    unat fin \<le> 2 ^ 48 \<Longrightarrow> B \<le> unat a \<Longrightarrow> unat a < B + esz (Suc l) \<Longrightarrow>
    mm_map_level l env attrs flags vid bg fin bg t s = Ret (ok, s') \<Longrightarrow>
    tlb_step (tlb_removes env flags vid a) (table_places l t s) (table_view l t a) s s'"
proof (induction l arbitrary: t B s bg fin ok s' a)
  case 0
  note p = 0
  let ?f = "min fin (mm_level_end bg 0)"
  have f: "bg < ?f" "unat ?f \<le> B + esz (Suc 0)" "unat ?f \<le> 2 ^ 48" "4096 dvd unat ?f" "at_entry 0 B (mm_index bg 0) bg ?f"
    using level_loop [OF p(1,3-9)] by blast+
  show ?case
    by (rule map_loop_tlb [OF p(1,3) fl f(2-4) at _ _ p(10,11,2) f(5) _ p(12) [unfolded mm_map_level.simps MM_PTE_PER_PAGE_def]])
      (simp_all add: less_imp_le)
next
  case (Suc l)
  note p = Suc.prems
  let ?f = "min fin (mm_level_end bg (Suc l))"
  have f: "bg < ?f" "unat ?f \<le> B + esz (Suc (Suc l))" "unat ?f \<le> 2 ^ 48" "4096 dvd unat ?f"
    "at_entry (Suc l) B (mm_index bg (Suc l)) bg ?f"
    using level_loop [OF p(1,3-9)] by blast+
  have l3: "l \<le> 3" using p(1) by simp
  show ?case
  proof (rule map_loop_tlb [OF p(1,3) fl f(2-4) at _ _ p(10,11,2) f(5) _ p(12) [unfolded mm_map_level.simps MM_PTE_PER_PAGE_def]])
    fix k nt s1 base and b :: u64
    assume "Suc l = Suc k" "table_inv idm k nt base s1" "esz (Suc l) dvd base" "base \<le> unat b"
      "unat b < base + esz (Suc l)" "b < ?f" "4096 dvd unat b"
    then show "\<exists>ok s'. mm_map_level l env attrs flags vid b ?f b nt s1 = Ret (ok, s') \<and>
        table_result idm k nt base flags attrs (unat b) (unat ?f) s1 ok s'"
      using mm_map_level_spec [OF at l3 _ _ _ _ _ _ f(4,3)] by simp
  next
    fix k nt s1 base ok s' and b x :: u64
    assume "Suc l = Suc k" "table_inv idm k nt base s1" "esz (Suc l) dvd base" "base \<le> unat b"
      "unat b < base + esz (Suc l)" "b < ?f" "4096 dvd unat b" "base \<le> unat x" "unat x < base + esz (Suc l)"
      "mm_map_level l env attrs flags vid b ?f b nt s1 = Ret (ok, s')"
    then show "tlb_step (tlb_removes env flags vid x) (table_places k nt s1) (table_view k nt x) s1 s'"
      using Suc.IH [OF l3 _ _ _ _ _ _ f(4,3)] by simp
  qed (simp add: less_imp_le)
qed

section \<open>Whole page tables\<close>

definition ptable_places :: "mm_env \<Rightarrow> u32 \<Rightarrow> mm_ptable \<Rightarrow> mm_state \<Rightarrow> places" where
  "ptable_places env flags t s = set_mset (ptable_pages env flags t s) \<times> UNIV"

abbreviation ptable_view :: "mm_env \<Rightarrow> u32 \<Rightarrow> mm_ptable \<Rightarrow> u64 \<Rightarrow> table_mem \<Rightarrow> u64" where
  "ptable_view env flags t a \<equiv> \<lambda>m. ptable_attr env flags t m a"

lemma table_tlb_ptable:
  assumes inv: "ptable_inv idm env flags t s" and k: "k < mm_root_table_count env flags"
    and j: "mm_index a (Suc (mm_max_level env flags)) = j" "j < mm_root_table_count env flags"
    and st: "j = k \<Longrightarrow> tlb_step rm (table_places (mm_max_level env flags) (root_table t k) s)
      (table_view (mm_max_level env flags) (root_table t k) a) s s'"
    and any: "tlb_step rm' (table_places (mm_max_level env flags) (root_table t k) s) V s s'"
  shows "tlb_step rm (ptable_places env flags t s) (ptable_view env flags t a) s s'"
proof -
  let ?l = "mm_max_level env flags"
  have "tlb_step rm (table_places ?l (root_table t k) s) (ptable_view env flags t a) s s'"
  proof (cases "j = k")
    case True
    then show ?thesis using st j(1) by (simp add: ptable_attr_def)
  next
    case False
    show ?thesis
    proof (rule tlb_step_frame [OF any])
      fix m
      assume ag: "agrees (table_places ?l (root_table t k) s) (mem s) m"
      have own: "own_ok (other_roots env flags t k (mem s) + (all_pages ?l (root_table t k) s + {#root_table t k#}))"
        using inv ptable_pages_split [OF k] by (simp add: ptable_inv_def ac_simps)
      have "m p = mem s p" if "p \<in> set (root_pages ?l t (mem s) j)" for p
      proof -
        have "p \<in># other_roots env flags t k (mem s)" using in_other_roots [OF j(2) False that] .
        from own_ok_disjoint [OF own this] show ?thesis
          using agrees_page [OF ag] by (simp add: table_places_def)
      qed
      then show "ptable_attr env flags t m a = ptable_attr env flags t (mem s) a"
        using root_frame(2) [of ?l t "mem s" j m] unfolding ptable_attr_def j(1) by simp
    qed
  qed
  moreover have "table_places ?l (root_table t k) s \<subseteq> ptable_places env flags t s"
    unfolding table_places_def ptable_places_def ptable_pages_split [OF k] by auto
  ultimately show ?thesis by (rule tlb_step_mono)
qed

lemma map_root_loop_tlb:
  assumes g: "geom_ok env flags" and at: "has flags MM_FLAG_UNMAP \<or> pte_attrs_ok attrs"
    and fl: "tlb_flushed env flags (ptable_id t)"
    and fin: "unat fin \<le> space_end env flags" "4096 dvd unat fin" and a: "unat a < space_end env flags"
  shows "ptable_inv idm env flags t s \<Longrightarrow> at_root env flags k bg fin \<Longrightarrow>
    map_root_loop env t attrs (mm_max_level env flags + 1) flags [k..<mm_root_table_count env flags] bg fin s = Ret (ok, s') \<Longrightarrow>
    tlb_step (tlb_removes env flags (ptable_id t) a) (ptable_places env flags t s) (ptable_view env flags t a) s s'"
proof (induction "mm_root_table_count env flags - k" arbitrary: k bg s)
  case 0
  then have "s' = s" by (auto simp: at_root_def split: if_splits)
  then show ?case using tlb_step_refl by simp
next
  case (Suc n)
  let ?l = "mm_max_level env flags" and ?E = "esz (Suc (mm_max_level env flags))"
  let ?c = "mm_root_table_count env flags"
  have k: "k < ?c" and up: "[k..<?c] = k # [k + 1..<?c]" using Suc.hyps(2) by (simp_all add: upt_conv_Cons)
  note inv = Suc.prems(1)
  show ?case
  proof (cases "bg < fin")
    case False
    then have "s' = s" using Suc.prems(3) unfolding up by simp
    then show ?thesis using tlb_step_refl by simp
  next
    case True
    have bg: "k * ?E \<le> unat bg" "unat bg < k * ?E + ?E" "4096 dvd unat bg"
      using Suc.prems(2) True by (simp_all add: at_root_def add.commute)
    have l3: "?l \<le> 3" and f48: "unat fin \<le> 2 ^ 48" using g fin(1) by (simp_all add: geom_ok_def space_end_def)
    note ti = ptable_inv_table [OF inv k]
    obtain ok1 s1 where e: "mm_map_level ?l env attrs flags (ptable_id t) bg fin bg (root_table t k) s = Ret (ok1, s1)"
      and er: "table_result idm ?l (root_table t k) (k * ?E) flags attrs (unat bg) (unat fin) s ok1 s1"
      using mm_map_level_spec [OF at l3 ti dvd_triv_right bg(1,2) True bg(3) fin(2) f48] by blast
    note tl = map_level_tlb [OF at fl l3 ti dvd_triv_right bg(1,2) True bg(3) fin(2) f48 _ _ e]
    obtain j where j: "j < ?c" "mm_index a (Suc ?l) = j" "j * ?E \<le> unat a" "unat a < (j + 1) * ?E"
      using root_index [OF g a] by blast
    have "tlb_step (tlb_removes env flags (ptable_id t) a) (table_places ?l (root_table t k) s)
      (table_view ?l (root_table t k) a) s s1" if "j = k"
      using j(3,4) that by (intro tl) (simp_all add: add.commute)
    from table_tlb_ptable [OF inv k j(2,1) this tl [OF bg(1,2)]]
    have first: "tlb_step (tlb_removes env flags (ptable_id t) a) (ptable_places env flags t s) (ptable_view env flags t a) s s1" .
    have st: "table_step idm ?l (root_table t k) (k * ?E) s s1" using er by (simp add: table_result_def)
    note ts = table_step_ptable(1) [OF inv k st]
    show ?thesis
    proof (cases ok1)
      case False
      then have "s' = s1" using Suc.prems(3) True e unfolding up by simp
      then show ?thesis using first by simp
    next
      case ok1: True
      let ?n = "mm_start_of_next_block bg (mm_entry_size (Suc ?l))"
      note nx = at_root_next [OF g True Suc.prems(2) fin(1)]
      have "n = ?c - (k + 1)" using Suc.hyps(2) by simp
      moreover have "map_root_loop env t attrs (?l + 1) flags [k + 1..<?c] ?n fin s1 = Ret (ok, s')"
        using Suc.prems(3) True e ok1 unfolding up by simp
      ultimately have "tlb_step (tlb_removes env flags (ptable_id t) a) (ptable_places env flags t s1) (ptable_view env flags t a) s1 s'"
        using Suc.hyps(1) [OF _ ptable_step_inv [OF inv ts] nx(2)] by blast
      moreover have "ptable_places env flags t s1 = ptable_places env flags t s"
        using ts by (simp add: ptable_step_def ptable_places_def)
      ultimately show ?thesis using tlb_step_trans [OF first] by simp
    qed
  qed
qed

lemma identity_map_tlb:
  assumes g: "geom_ok env flags" and at: "has flags MM_FLAG_UNMAP \<or> pte_attrs_ok attrs"
    and fl: "tlb_flushed env flags (ptable_id t)" and inv: "ptable_inv idm env flags t s"
    and e: "unat pa_end \<le> 2 ^ 64 - 4096" and a: "unat a < space_end env flags"
    and r: "mm_ptable_identity_map env t pa_begin pa_end attrs flags s = Ret (ok, s')"
  shows "tlb_step (tlb_removes env flags (ptable_id t) a) (ptable_places env flags t s) (ptable_view env flags t a) s s'"
proof -
  let ?e = "mm_ptable_addr_space_end env flags" and ?f = "mm_round_up_to_page pa_end" and ?b = "arch_mm_clear_pa pa_begin"
  let ?fin = "if ?f > ?e then ?e else ?f" and ?k = "mm_index (arch_mm_clear_pa pa_begin) (Suc (mm_max_level env flags))"
  note se = space_end_unat [OF g]
  have f: "unat ?fin = range_end env flags pa_end"
    using round_up_unat [OF e] se(1) by (simp add: range_end_def word_less_nat_alt min_def)
  have b: "unat ?b = range_begin pa_begin" by (simp only: clear_pa_unat range_begin_def)
  have d: "unat ?fin \<le> space_end env flags" "4096 dvd unat ?fin" "4096 dvd unat ?b"
    unfolding f b using se(2) by (auto simp: range_end_def range_begin_def min_def)
  have ar: "at_root env flags ?k ?b ?fin"
  proof (cases "?b < ?fin")
    case True
    then have "unat ?b < space_end env flags" using d(1) by (simp add: word_less_nat_alt)
    then show ?thesis using root_index [OF g, of ?b] d(3) by (auto simp: at_root_def)
  qed (use d(3) in \<open>simp add: at_root_def\<close>)
  obtain ok1 s1 where m: "mm_map_root env t ?b ?fin attrs (mm_max_level env flags + 1) flags s = Ret (ok1, s1)"
    using mm_map_root_spec [OF g at inv d] by blast
  then have 1: "map_root_loop env t attrs (mm_max_level env flags + 1) flags [?k..<mm_root_table_count env flags] ?b ?fin s = Ret (ok1, s1)"
    by (simp add: mm_map_root_def)
  have s': "s' = (if ok1 then log_event Sync_writes s1 else s1)"
    using r m by (cases ok1) (auto simp: mm_ptable_identity_map_def Let_def)
  from map_root_loop_tlb [OF g at fl d(1,2) a inv ar 1] show ?thesis
    unfolding s' by (cases ok1) (auto intro: tlb_step_trans tlb_step_sync)
qed

lemma commit_view:
  "tlb_removes env (flags AND NOT MM_FLAG_COMMIT) = tlb_removes env flags"
  "tlb_removes env (flags OR MM_FLAG_COMMIT) = tlb_removes env flags"
  "tlb_flushed env (flags AND NOT MM_FLAG_COMMIT) = tlb_flushed env flags"
  "tlb_flushed env (flags OR MM_FLAG_COMMIT) = tlb_flushed env flags"
  by (simp_all add: tlb_removes_def tlb_flushed_def fun_eq_iff)

lemma identity_update_tlb:
  assumes g: "geom_ok env flags" and at: "has flags MM_FLAG_UNMAP \<or> pte_attrs_ok attrs"
    and fl: "tlb_flushed env flags (ptable_id t)" and inv: "ptable_inv idm env flags t s"
    and e: "unat pa_end \<le> 2 ^ 64 - 4096" and a: "unat a < space_end env flags"
    and r: "mm_ptable_identity_update env t pa_begin pa_end attrs flags s = Ret (ok, s')"
  shows "\<exists>P. tlb_step (tlb_removes env flags (ptable_id t) a) P (ptable_view env flags t a) s s'"
proof -
  let ?c = "flags AND NOT MM_FLAG_COMMIT" and ?d = "flags OR MM_FLAG_COMMIT"
  note sv = same_view_ptable [OF same_view_commit(1) [of flags]] same_view_ptable [OF same_view_commit(2) [of flags]] commit_view
  obtain ok1 s1 where 1: "mm_ptable_identity_map env t pa_begin pa_end attrs ?c s = Ret (ok1, s1)"
    and k: "(if ok1 then and_then (mm_ptable_identity_commit env t pa_begin pa_end attrs flags s1) (\<lambda>s. Ret (True, s))
      else Ret (False, s1)) = Ret (ok, s')"
    using r by (auto simp: mm_ptable_identity_update_def mm_ptable_identity_prepare_def split: if_splits)
  have "tlb_step (tlb_removes env ?c (ptable_id t) a) (ptable_places env ?c t s) (ptable_view env ?c t a) s s1"
    by (rule identity_map_tlb [OF _ _ _ _ e _ 1]) (use g at fl inv a sv in simp_all)
  then have first: "tlb_step (tlb_removes env flags (ptable_id t) a) UNIV (ptable_view env flags t a) s s1"
    unfolding sv by (rule tlb_step_mono) simp
  have inv1: "ptable_inv idm env flags t s1"
    using identity_prepare_spec [OF g at inv e, of pa_begin] 1 ptable_step_inv [OF inv]
    by (auto simp: mm_ptable_identity_prepare_def)
  show ?thesis
  proof (cases ok1)
    case True
    then obtain ok2 where 2: "mm_ptable_identity_map env t pa_begin pa_end attrs ?d s1 = Ret (ok2, s')"
      using k by (auto simp: mm_ptable_identity_commit_def)
    have "tlb_step (tlb_removes env ?d (ptable_id t) a) (ptable_places env ?d t s1) (ptable_view env ?d t a) s1 s'"
      by (rule identity_map_tlb [OF _ _ _ _ e _ 2]) (use g at fl inv1 a sv in simp_all)
    then have "tlb_step (tlb_removes env flags (ptable_id t) a) UNIV (ptable_view env flags t a) s1 s'"
      unfolding sv by (rule tlb_step_mono) simp
    with first show ?thesis using tlb_step_trans by blast
  next
    case False
    then show ?thesis using k first by auto
  qed
qed

end
