(* ===== verification/MM_Props.thy ===== *)
theory MM_Props
  imports MM_Get MM_Init MM_TLB
begin

text \<open>
  The properties of the page table management of \<^verbatim>\<open>src/mm.c\<close>, for a partition's table and for
  the hypervisor's own, with a sample page table on which each of them applies.
\<close>

section \<open>The attributes of a mode\<close>

definition attrs_only :: "u64 \<Rightarrow> bool" where
  "attrs_only a \<longleftrightarrow> a AND PTE_ATTR_MASK = a"

lemma attrs_only_or: "attrs_only a \<Longrightarrow> attrs_only b \<Longrightarrow> attrs_only (a OR b)"
  unfolding attrs_only_def by (metis bit.conj_disj_distrib2)

lemma attrs_only_if: "attrs_only a \<Longrightarrow> attrs_only b \<Longrightarrow> attrs_only (if c then a else b)"
  by simp

lemma attrs_only_const:
  "attrs_only 0" "attrs_only STAGE1_AF" "attrs_only (STAGE1_SH INNER_SHAREABLE)" "attrs_only STAGE1_NS"
  "attrs_only STAGE1_PXN" "attrs_only STAGE1_UXN" "attrs_only STAGE1_GP" "attrs_only STAGE1_XN"
  "attrs_only (STAGE1_AP STAGE1_READWRITE)" "attrs_only (STAGE1_AP STAGE1_READONLY)"
  "attrs_only (STAGE1_AP STAGE1_AP_USER_RW)" "attrs_only STAGE1_NG"
  "attrs_only (STAGE1_ATTRINDX STAGE1_DEVICEINDX)" "attrs_only (STAGE1_ATTRINDX STAGE1_STACKINDX)"
  "attrs_only (STAGE1_ATTRINDX STAGE1_NORMALINDX)" "attrs_only STAGE1_SW_OWNED" "attrs_only STAGE1_SW_EXCLUSIVE"
  "attrs_only PTE_VALID"
  "attrs_only STAGE2_AF" "attrs_only (STAGE2_SH INNER_SHAREABLE)"
  "attrs_only (STAGE2_S2AP 0)" "attrs_only (STAGE2_S2AP STAGE2_ACCESS_READ)" "attrs_only (STAGE2_S2AP STAGE2_ACCESS_WRITE)"
  "attrs_only (STAGE2_S2AP (STAGE2_ACCESS_READ OR STAGE2_ACCESS_WRITE))"
  "attrs_only (STAGE2_XN STAGE2_EXECUTE_ALL)" "attrs_only (STAGE2_XN STAGE2_EXECUTE_NONE)"
  "attrs_only (STAGE2_MEMATTR STAGE2_DEVICE_MEMORY STAGE2_MEMATTR_DEVICE_GRE)"
  "attrs_only (STAGE2_MEMATTR STAGE2_WRITEBACK STAGE2_WRITEBACK)"
  "attrs_only STAGE2_SW_OWNED" "attrs_only STAGE2_SW_EXCLUSIVE"
  by (simp_all add: attrs_only_def PTE_ATTR_MASK_def PTE_ADDR_MASK_def PAGE_BITS_def STAGE1_AF_def STAGE1_SH_def
      INNER_SHAREABLE_def STAGE1_NS_def STAGE1_PXN_def STAGE1_UXN_def STAGE1_GP_def STAGE1_XN_def STAGE1_AP_def
      STAGE1_READWRITE_def STAGE1_READONLY_def STAGE1_AP_USER_RW_def STAGE1_NG_def STAGE1_ATTRINDX_def
      STAGE1_DEVICEINDX_def STAGE1_STACKINDX_def STAGE1_NORMALINDX_def STAGE1_SW_OWNED_def STAGE1_SW_EXCLUSIVE_def
      PTE_VALID_def STAGE2_AF_def STAGE2_SH_def STAGE2_S2AP_def STAGE2_ACCESS_READ_def STAGE2_ACCESS_WRITE_def
      STAGE2_XN_def STAGE2_EXECUTE_ALL_def STAGE2_EXECUTE_NONE_def STAGE2_MEMATTR_def STAGE2_DEVICE_MEMORY_def
      STAGE2_MEMATTR_DEVICE_GRE_def STAGE2_WRITEBACK_def STAGE2_SW_OWNED_def STAGE2_SW_EXCLUSIVE_def)

lemma stage2_attrs_only: "attrs_only (arch_mm_mode_to_stage2_attrs mode)"
  unfolding arch_mm_mode_to_stage2_attrs_def Let_def
  by (intro attrs_only_or attrs_only_if attrs_only_const) (auto intro: attrs_only_const)

lemma stage1_attrs_only: "attrs_only (arch_mm_mode_to_stage1_attrs cfg mode)"
  unfolding arch_mm_mode_to_stage1_attrs_def
  by (intro attrs_only_or attrs_only_if attrs_only_const)

lemma unmapped_bits: "mode AND MM_MODE_UNMAPPED_MASK = MM_MODE_UNMAPPED_MASK \<longleftrightarrow> bit mode 4 \<and> bit mode 5"
proof -
  have m: "bit MM_MODE_UNMAPPED_MASK n \<longleftrightarrow> n = 4 \<or> n = 5" for n
  proof -
    have e: "MM_MODE_UNMAPPED_MASK = push_bit 4 (mask 2)"
      by (simp add: MM_MODE_UNMAPPED_MASK_def mode_consts mask_eq_exp_minus_1)
    show ?thesis unfolding e bit_push_bit_iff bit_mask_iff by auto
  qed
  show ?thesis unfolding word_eq_bits bit_and_iff m by auto
qed

lemma mode_flags_unmap:
  "has (mm_mode_to_flags mode) MM_FLAG_UNMAP \<longleftrightarrow> bit mode 4 \<and> bit mode 5"
  "\<not> has (mm_mode_to_flags mode) MM_FLAG_STAGE1"
  "has (MM_FLAG_STAGE1 OR mm_mode_to_flags mode) MM_FLAG_UNMAP \<longleftrightarrow> bit mode 4 \<and> bit mode 5"
  "has (MM_FLAG_STAGE1 OR mm_mode_to_flags mode) MM_FLAG_STAGE1"
  unfolding mm_mode_to_flags_def unmapped_bits
  by (simp_all add: has_def MM_FLAG_UNMAP_def MM_FLAG_STAGE1_def)

lemma stage2_attrs_ok:
  "has (mm_mode_to_flags mode) MM_FLAG_UNMAP \<or> pte_attrs_ok (arch_mm_mode_to_stage2_attrs mode)"
proof -
  have "bit (arch_mm_mode_to_stage2_attrs mode) 0 \<or> bit (arch_mm_mode_to_stage2_attrs mode) 55"
    if "\<not> (bit mode 4 \<and> bit mode 5)" using that stage2_attr_bits by auto
  then show ?thesis
    using stage2_attrs_only [of mode] unfolding mode_flags_unmap pte_attrs_ok_def attrs_only_def PTE_VALID_def STAGE2_SW_OWNED_def
      bit.conj_disj_distrib or_eq_0_iff and_bit_zero by auto
qed

lemma stage1_attrs_ok:
  "has (MM_FLAG_STAGE1 OR mm_mode_to_flags mode) MM_FLAG_UNMAP \<or> pte_attrs_ok (arch_mm_mode_to_stage1_attrs cfg mode)"
proof -
  have "bit (arch_mm_mode_to_stage1_attrs cfg mode) 0 \<or> bit (arch_mm_mode_to_stage1_attrs cfg mode) 55"
    if "\<not> (bit mode 4 \<and> bit mode 5)" using that stage1_attr_bits by auto
  then show ?thesis
    using stage1_attrs_only [of cfg mode] unfolding mode_flags_unmap pte_attrs_ok_def attrs_only_def PTE_VALID_def STAGE2_SW_OWNED_def
      bit.conj_disj_distrib or_eq_0_iff and_bit_zero by auto
qed

lemma attrs_not_valid_alone:
  "arch_mm_mode_to_stage2_attrs mode \<noteq> PTE_VALID" "arch_mm_mode_to_stage1_attrs cfg mode \<noteq> PTE_VALID"
proof -
  have "bit (arch_mm_mode_to_stage2_attrs mode) 10" "bit (arch_mm_mode_to_stage1_attrs cfg mode) 10" "\<not> bit PTE_VALID 10"
    unfolding arch_mm_mode_to_stage2_attrs_def arch_mm_mode_to_stage1_attrs_def Let_def
    by (simp_all only: bit_or_iff STAGE2_AF_def STAGE1_AF_def PTE_VALID_def bit_push_bit_iff bit_1_iff) simp_all
  then show "arch_mm_mode_to_stage2_attrs mode \<noteq> PTE_VALID" "arch_mm_mode_to_stage1_attrs cfg mode \<noteq> PTE_VALID"
    by metis+
qed

lemma new_attr_plain:
  "new_attr (mm_mode_to_flags mode) (arch_mm_mode_to_stage2_attrs mode) \<noteq> PTE_VALID"
  using attrs_not_valid_alone by (simp add: new_attr_def PTE_VALID_def)

lemma stage2_geometry:
  "geom_ok env (mm_mode_to_flags mode) = geom_ok env 0" "space_end env (mm_mode_to_flags mode) = space_end env 0"
  "range_end env (mm_mode_to_flags mode) = range_end env 0"
  "ptable_inv idm env (mm_mode_to_flags mode) t = ptable_inv idm env 0 t"
  "ptable_step idm env (mm_mode_to_flags mode) t = ptable_step idm env 0 t"
  "ptable_attr env (mm_mode_to_flags mode) t = ptable_attr env 0 t"
proof -
  have g: "mm_max_level env (mm_mode_to_flags mode) = mm_max_level env 0"
    "mm_root_table_count env (mm_mode_to_flags mode) = mm_root_table_count env 0"
    using mode_flags_unmap(2) by (simp_all add: mm_max_level_def mm_root_table_count_def has_def)
  show "geom_ok env (mm_mode_to_flags mode) = geom_ok env 0" "space_end env (mm_mode_to_flags mode) = space_end env 0"
    "range_end env (mm_mode_to_flags mode) = range_end env 0"
    "ptable_inv idm env (mm_mode_to_flags mode) t = ptable_inv idm env 0 t"
    "ptable_step idm env (mm_mode_to_flags mode) t = ptable_step idm env 0 t"
    "ptable_attr env (mm_mode_to_flags mode) t = ptable_attr env 0 t"
    by (simp_all add: fun_eq_iff geom_ok_def space_end_def range_end_def ptable_inv_def ptable_step_def ptable_ok_def
      ptable_pages_def ptable_attr_def g)
qed

lemmas stage2_update_spec = identity_update_spec [of _ "mm_mode_to_flags mode"
    "arch_mm_mode_to_stage2_attrs mode" for mode, OF _ stage2_attrs_ok, unfolded stage2_geometry]

section \<open>A partition's page table as an abstract map\<close>

text \<open>
  The operations on the page table of a partition, and what each of them does to the map from
  addresses to attributes: \<open>ok\<close> is the result the operation reported.
\<close>

datatype vm_op = Vm_map u64 u64 u32 | Vm_unmap u64 u64 | Vm_defrag

fun vm_exec :: "mm_env \<Rightarrow> mm_ptable \<Rightarrow> vm_op \<Rightarrow> mm_state \<Rightarrow> (bool \<times> mm_state) outcome" where
  "vm_exec env t (Vm_map b e mode) s = mm_vm_identity_map env t b e mode s"
| "vm_exec env t (Vm_unmap b e) s = mm_vm_unmap env t b e s"
| "vm_exec env t Vm_defrag s = and_then (mm_vm_defrag env t s) (\<lambda>s. Ret (True, s))"

definition map_range :: "mm_env \<Rightarrow> u64 \<Rightarrow> u64 \<Rightarrow> u64 \<Rightarrow> (u64 \<Rightarrow> u64) \<Rightarrow> u64 \<Rightarrow> u64" where
  "map_range env b e v F a = (if range_begin b \<le> unat a \<and> unat a < range_end env 0 e then v else F a)"

definition mode_attrs :: "u32 \<Rightarrow> u64" where
  "mode_attrs mode =
     (if has mode MM_MODE_INVALID \<and> has mode MM_MODE_UNOWNED then 0 else arch_mm_mode_to_stage2_attrs mode)"

fun vm_effect :: "mm_env \<Rightarrow> vm_op \<Rightarrow> bool \<Rightarrow> (u64 \<Rightarrow> u64) \<Rightarrow> u64 \<Rightarrow> u64" where
  "vm_effect env (Vm_map b e mode) ok F = (if ok then map_range env b e (mode_attrs mode) F else F)"
| "vm_effect env (Vm_unmap b e) ok F = (if ok then map_range env b e 0 F else F)"
| "vm_effect env Vm_defrag ok F = F"

fun vm_op_fits :: "vm_op \<Rightarrow> bool" where
  "vm_op_fits (Vm_map b e mode) \<longleftrightarrow> unat e \<le> 2 ^ 64 - 4096"
| "vm_op_fits (Vm_unmap b e) \<longleftrightarrow> unat e \<le> 2 ^ 64 - 4096"
| "vm_op_fits Vm_defrag \<longleftrightarrow> True"

text \<open>The invariant of the page table of a partition.\<close>

definition vm_ptable_inv :: "mm_env \<Rightarrow> mm_ptable \<Rightarrow> mm_state \<Rightarrow> bool" where
  "vm_ptable_inv env t s \<longleftrightarrow> ptable_inv True env 0 t s \<and> ptable_plain env 0 t (mem s)"

definition vm_simulates :: "mm_env \<Rightarrow> mm_ptable \<Rightarrow> mm_state \<Rightarrow> (u64 \<Rightarrow> u64) \<Rightarrow> bool" where
  "vm_simulates env t s F \<longleftrightarrow> (\<forall>a. unat a < space_end env 0 \<longrightarrow> ptable_attr env 0 t (mem s) a = F a)"

definition vm_done :: "mm_env \<Rightarrow> mm_ptable \<Rightarrow> mm_state \<Rightarrow> (u64 \<Rightarrow> u64) \<Rightarrow> mm_state \<Rightarrow> bool" where
  "vm_done env t s F s' \<longleftrightarrow> vm_ptable_inv env t s' \<and> vm_simulates env t s' F \<and>
     ptable_pages env 0 t s' = ptable_pages env 0 t s"

lemma mode_attrs_new: "new_attr (mm_mode_to_flags mode) (arch_mm_mode_to_stage2_attrs mode) = mode_attrs mode"
  unfolding new_attr_def mode_attrs_def mode_flags_unmap by simp

lemma mode_attrs_plain: "mode_attrs mode \<noteq> PTE_VALID"
  using new_attr_plain [of mode] by (simp add: mode_attrs_new)

lemma vm_update_spec:
  assumes g: "geom_ok env 0" and inv: "vm_ptable_inv env t s" and F: "vm_simulates env t s F"
    and e: "unat pa_end \<le> 2 ^ 64 - 4096"
  shows "\<exists>ok s'. mm_vm_identity_map env t pa_begin pa_end mode s = Ret (ok, s') \<and>
    vm_done env t s (if ok then map_range env pa_begin pa_end (mode_attrs mode) F else F) s'"
proof -
  have i: "ptable_inv True env 0 t s" using inv by (simp add: vm_ptable_inv_def)
  obtain ok s' where r: "mm_vm_identity_map env t pa_begin pa_end mode s = Ret (ok, s')"
    and st: "ptable_step True env 0 t s s'"
    and at: "\<And>a. unat a < space_end env 0 \<Longrightarrow> ptable_attr env 0 t (mem s') a =
      (if ok \<and> range_begin pa_begin \<le> unat a \<and> unat a < range_end env 0 pa_end then mode_attrs mode
       else ptable_attr env 0 t (mem s) a)"
    using stage2_update_spec [OF g i e, of pa_begin mode] unfolding mm_vm_identity_map_def mode_attrs_new by blast
  have "ptable_plain env 0 t (mem s')"
    using inv mode_attrs_plain by (simp add: vm_ptable_inv_def ptable_plain_def at)
  moreover have "vm_simulates env t s' (if ok then map_range env pa_begin pa_end (mode_attrs mode) F else F)"
    using F by (simp add: vm_simulates_def map_range_def at)
  ultimately show ?thesis
    using r ptable_step_inv [OF i st] st by (auto simp: vm_done_def vm_ptable_inv_def ptable_step_def)
qed

lemma unmapped_attrs: "mode_attrs MM_MODE_UNMAPPED_MASK = 0"
  by (simp add: mode_attrs_def MM_MODE_UNMAPPED_MASK_def mode_consts has_def)

lemma vm_exec_spec:
  assumes g: "geom_ok env 0" and inv: "vm_ptable_inv env t s" and F: "vm_simulates env t s F"
    and e: "vm_op_fits op"
  shows "\<exists>ok s'. vm_exec env t op s = Ret (ok, s') \<and> vm_done env t s (vm_effect env op ok F) s'"
proof (cases op)
  case (Vm_map b e mode)
  then show ?thesis
    using vm_update_spec [OF g inv F, of e b mode] assms(4)
    by (simp only: vm_exec.simps vm_effect.simps vm_op_fits.simps)
next
  case (Vm_unmap b e)
  then show ?thesis
    using vm_update_spec [OF g inv F, of e b MM_MODE_UNMAPPED_MASK, unfolded unmapped_attrs] assms(4)
    by (simp only: vm_exec.simps vm_effect.simps vm_op_fits.simps mm_vm_unmap_def)
next
  case Vm_defrag
  have "ptable_inv True env 0 t s" "ptable_plain env 0 t (mem s)" using inv by (simp_all add: vm_ptable_inv_def)
  from mm_ptable_defrag_spec [OF g this] obtain s' where r: "mm_ptable_defrag env t 0 s = Ret s'"
    and st: "ptable_step True env 0 t s s'" and sa: "same_attrs env 0 t (mem s) (mem s')" by blast
  have "vm_exec env t op s = Ret (True, s')" using r Vm_defrag by (simp add: mm_vm_defrag_def)
  moreover have "vm_done env t s F s'"
    using inv F sa ptable_step_inv [OF _ st] st same_attrs_plain [OF sa]
    by (auto simp: vm_done_def vm_ptable_inv_def vm_simulates_def same_attrs_def ptable_step_def)
  ultimately show ?thesis using Vm_defrag by auto
qed

section \<open>Sequences of operations\<close>

fun vm_run :: "mm_env \<Rightarrow> mm_ptable \<Rightarrow> vm_op list \<Rightarrow> mm_state \<Rightarrow> (bool list \<times> mm_state) outcome" where
  "vm_run env t [] s = Ret ([], s)"
| "vm_run env t (op # ops) s =
     and_then (vm_exec env t op s) (\<lambda>(ok, s). and_then (vm_run env t ops s) (\<lambda>(oks, s). Ret (ok # oks, s)))"

fun vm_effects :: "mm_env \<Rightarrow> vm_op list \<Rightarrow> bool list \<Rightarrow> (u64 \<Rightarrow> u64) \<Rightarrow> u64 \<Rightarrow> u64" where
  "vm_effects env (op # ops) (ok # oks) F = vm_effects env ops oks (vm_effect env op ok F)"
| "vm_effects env _ _ F = F"

lemma vm_run_spec:
  assumes g: "geom_ok env 0"
  shows "vm_ptable_inv env t s \<Longrightarrow> vm_simulates env t s F \<Longrightarrow> list_all vm_op_fits ops \<Longrightarrow>
    \<exists>oks s'. vm_run env t ops s = Ret (oks, s') \<and> length oks = length ops \<and>
      vm_done env t s (vm_effects env ops oks F) s'"
proof (induction ops arbitrary: s F)
  case Nil
  then show ?case by (simp add: vm_done_def)
next
  case (Cons op ops)
  obtain ok s1 where 1: "vm_exec env t op s = Ret (ok, s1)" and d1: "vm_done env t s (vm_effect env op ok F) s1"
    using vm_exec_spec [OF g Cons.prems(1,2), of op] Cons.prems(3) by auto
  obtain oks s2 where 2: "vm_run env t ops s1 = Ret (oks, s2)" "length oks = length ops"
    and d2: "vm_done env t s1 (vm_effects env ops oks (vm_effect env op ok F)) s2"
    using Cons.IH [of s1 "vm_effect env op ok F"] d1 Cons.prems(3) by (auto simp: vm_done_def)
  have "vm_run env t (op # ops) s = Ret (ok # oks, s2)" using 1 2(1) by simp
  moreover have "vm_done env t s (vm_effects env (op # ops) (ok # oks) F) s2" using d1 d2 by (simp add: vm_done_def)
  ultimately show ?case using 2(2) by (intro exI [of _ "ok # oks"] exI [of _ s2]) simp
qed

lemma vm_simulates_self: "vm_simulates env t s (ptable_attr env 0 t (mem s))"
  by (simp add: vm_simulates_def)

text \<open>
  C1: The page table of a partition refines a map from addresses to attributes. Any sequence
  of mappings, unmappings and defragmentations runs to its end with no failed run-time check
  and no access outside a table. Each operation that reports success changes the attributes of
  exactly the pages of its range (those below the end of the address space) to those of the
  mode, each one that reports failure and every defragmentation changes no attribute, and no
  page is lost, shared or used twice on the way. The page table stays an identity mapping.
\<close>

theorem vm_run_refines:
  assumes "geom_ok env 0" "vm_ptable_inv env t s" "list_all vm_op_fits ops"
  shows "\<exists>oks s'. vm_run env t ops s = Ret (oks, s') \<and> length oks = length ops \<and>
    vm_ptable_inv env t s' \<and> ptable_pages env 0 t s' = ptable_pages env 0 t s \<and>
    (\<forall>a. unat a < space_end env 0 \<longrightarrow>
      ptable_attr env 0 t (mem s') a = vm_effects env ops oks (ptable_attr env 0 t (mem s)) a)"
  using vm_run_spec [OF assms(1,2) vm_simulates_self assms(3)]
  unfolding vm_done_def vm_simulates_def by blast

section \<open>A sample page table\<close>

definition sample_env :: mm_env where
  "sample_env = \<lparr>env_cfg = cfg_secure_vhe,
     env_geom = \<lparr>mm_s1_max_level = 2, mm_s2_max_level = 2, mm_s2_root_table_count = 2,
       arch_mm_config = \<lparr>ttbr0_el2 = 0, mair_el2 = 0, tcr_el2 = 0, sctlr_el2 = 0, hcr_el2 = 0,
         vtcr_el2 = 0, vstcr_el2 = 0\<rparr>\<rparr>,
     mm_stage2_invalidate = True\<rparr>"

definition sample_state :: mm_state where
  "sample_state = \<lparr>mem = (\<lambda>_ _. 0), pool = Mpool 0x1000 [(0x80010000, 0x80013000)] [] None, trace = []\<rparr>"

definition sample_ptable :: mm_ptable where
  "sample_ptable = \<lparr>ptable_id = 1, ptable_root = 0x80000000\<rparr>"

lemma sample_geometry:
  "mm_max_level sample_env flags = 2" "mm_root_table_count sample_env 0 = 2"
  "mm_root_table_count sample_env 4 = 1"
  by (simp_all add: sample_env_def mm_max_level_def mm_root_table_count_def has_def MM_FLAG_STAGE1_def
      arch_mm_stage1_max_level_def arch_mm_stage2_max_level_def arch_mm_stage2_root_table_count_def
      arch_mm_stage1_root_table_count_def)

lemma sample_geom_ok: "geom_ok sample_env 0" "geom_ok sample_env 4" "space_end sample_env 0 = 2 ^ 40"
  by (simp_all add: geom_ok_def space_end_def sample_geometry esz_def)

lemma sample_pages:
  "free_pages sample_state = {#0x80010000, 0x80011000, 0x80012000#}"
  by (simp add: sample_state_def chunk_entries_def upt_rec)

lemma sample_pool_ok: "page_pool_ok (pool sample_state)"
proof -
  have "pow2 0x1000" unfolding pow2_def by (rule exI [of _ 12]) simp
  then show ?thesis by (simp add: page_pool_ok_def sample_state_def chunk_ok_def PAGE_SIZE_def PAGE_BITS_def)
qed

lemma sample_roots: "root_table sample_ptable k = 0x80000000 + of_nat k * 0x1000"
  by (simp add: root_table_def sample_ptable_def mm_page_table_from_pa_def PAGE_SIZE_def PAGE_BITS_def)

lemma sample_ptable_pages:
  "ptable_pages sample_env 0 sample_ptable sample_state =
    {#0x80000000, 0x80001000, 0x80010000, 0x80011000, 0x80012000#}"
proof -
  have "table_pages 2 (mem sample_state) (root_table sample_ptable k) = []" for k
    by (rule empty_root) (simp add: sample_state_def)
  then have "ptable_pages sample_env 0 sample_ptable sample_state =
    mset (map (root_table sample_ptable) [0..<2]) + free_pages sample_state"
    using ptable_pages_roots [of sample_env 0 sample_state sample_ptable] by (simp add: sample_geometry)
  also have "map (root_table sample_ptable) [0..<2] = [0x80000000, 0x80001000]"
    by (simp add: sample_roots upt_rec)
  finally show ?thesis unfolding sample_pages by simp
qed

lemma sample_inv: "vm_ptable_inv sample_env sample_ptable sample_state"
proof -
  have z: "mem sample_state r j = 0" for r j by (simp add: sample_state_def)
  have "ptable_ok True sample_env 0 sample_ptable (mem sample_state)"
    unfolding ptable_ok_def by (intro ballI empty_root(2) z)
  moreover have "own_ok {#0x80000000, 0x80001000, 0x80010000, 0x80011000, 0x80012000#}"
    by (simp add: own_ok_def pte_addr_ok_unat)
  moreover have "ptable_plain sample_env 0 sample_ptable (mem sample_state)"
    unfolding ptable_plain_def ptable_attr_def by (subst empty_root(3) [of "mem sample_state"]) (simp_all add: z PTE_VALID_def)
  ultimately show ?thesis
    using sample_pool_ok by (simp add: vm_ptable_inv_def ptable_inv_def sample_ptable_pages)
qed

theorem vm_run_refines_witness:
  "\<exists>oks s'. vm_run sample_env sample_ptable [Vm_map 0x40000000 0x40003000 7, Vm_unmap 0x40001000 0x40002000, Vm_defrag]
      sample_state = Ret (oks, s') \<and> length oks = 3 \<and>
    vm_ptable_inv sample_env sample_ptable s' \<and>
    ptable_pages sample_env 0 sample_ptable s' = {#0x80000000, 0x80001000, 0x80010000, 0x80011000, 0x80012000#}"
proof -
  let ?ops = "[Vm_map 0x40000000 0x40003000 7, Vm_unmap 0x40001000 0x40002000, Vm_defrag]"
  have f: "list_all vm_op_fits ?ops" and l: "length ?ops = 3" by simp_all
  show ?thesis
    using vm_run_refines [OF sample_geom_ok(1) sample_inv f] unfolding sample_ptable_pages l by blast
qed

section \<open>Properties of updates\<close>

text \<open>
  C2: An update of any page table (either stage, identity mapped or not) is atomic: it always
  returns, which includes that the run-time check of its commit stage never fails; when it
  reports success the pages of the range have the new attributes (none for an unmapping) and
  all others keep theirs, when it reports failure no attribute has changed. Either way the page
  table stays well formed, and the tables it uses and the pages left in the pool are together
  exactly the pages there were before.
\<close>

theorem identity_update_atomic:
  assumes "geom_ok env flags" "has flags MM_FLAG_UNMAP \<or> pte_attrs_ok attrs"
    and "ptable_inv idm env flags t s" "unat pa_end \<le> 2 ^ 64 - 4096"
  shows "\<exists>ok s'. mm_ptable_identity_update env t pa_begin pa_end attrs flags s = Ret (ok, s') \<and>
    ptable_inv idm env flags t s' \<and> ptable_pages env flags t s' = ptable_pages env flags t s \<and>
    (\<forall>a. unat a < space_end env flags \<longrightarrow>
      ptable_attr env flags t (mem s') a =
        (if ok \<and> range_begin pa_begin \<le> unat a \<and> unat a < range_end env flags pa_end
         then (if has flags MM_FLAG_UNMAP then 0 else attrs)
         else ptable_attr env flags t (mem s) a))"
proof -
  obtain ok s' where r: "mm_ptable_identity_update env t pa_begin pa_end attrs flags s = Ret (ok, s')"
    and st: "ptable_step idm env flags t s s'"
    and at: "\<forall>a. unat a < space_end env flags \<longrightarrow>
      ptable_attr env flags t (mem s') a =
        (if ok \<and> range_begin pa_begin \<le> unat a \<and> unat a < range_end env flags pa_end
         then (if has flags MM_FLAG_UNMAP then 0 else attrs)
         else ptable_attr env flags t (mem s) a)"
    using identity_update_spec [OF assms, of pa_begin] unfolding new_attr_def by blast
  have "ptable_inv idm env flags t s'" by (rule ptable_step_inv [OF assms(3) st])
  moreover have "ptable_pages env flags t s' = ptable_pages env flags t s" using st by (simp add: ptable_step_def)
  ultimately show ?thesis using r at by blast
qed

lemma sample_attrs_ok: "has 0 MM_FLAG_UNMAP \<or> pte_attrs_ok 0x401"
  by (simp add: pte_attrs_ok_def PTE_ATTR_MASK_def PTE_ADDR_MASK_def PAGE_BITS_def PTE_VALID_def STAGE2_SW_OWNED_def)

lemma sample_ptable_inv: "ptable_inv True sample_env 0 sample_ptable sample_state"
  using sample_inv by (simp add: vm_ptable_inv_def)

lemma sample_attr: "ptable_attr sample_env 0 sample_ptable (mem sample_state) a = 0"
  unfolding ptable_attr_def by (rule empty_root) (simp add: sample_state_def)

theorem identity_update_atomic_witness:
  "\<exists>ok s'. mm_ptable_identity_update sample_env sample_ptable 0x40000000 0x40003000 0x401 0 sample_state = Ret (ok, s') \<and>
    ptable_attr sample_env 0 sample_ptable (mem s') 0x40001000 = (if ok then 0x401 else 0) \<and>
    ptable_attr sample_env 0 sample_ptable (mem s') 0x40003000 = 0"
proof -
  have e: "unat (0x40003000 :: u64) \<le> 2 ^ 64 - 4096" by simp
  have u: "\<not> has 0 MM_FLAG_UNMAP" by (simp add: has_def)
  have re: "range_begin 0x40000000 = 0x40000000" "range_end sample_env 0 0x40003000 = 0x40003000"
    by (simp_all add: range_begin_def range_end_def sample_geom_ok)
  obtain ok s' where "mm_ptable_identity_update sample_env sample_ptable 0x40000000 0x40003000 0x401 0 sample_state = Ret (ok, s')"
    and at: "\<And>a. unat a < space_end sample_env 0 \<Longrightarrow> ptable_attr sample_env 0 sample_ptable (mem s') a =
      (if ok \<and> 0x40000000 \<le> unat a \<and> unat a < 0x40003000 then 0x401 else 0)"
    using identity_update_atomic [OF sample_geom_ok(1) sample_attrs_ok sample_ptable_inv e, of "0x40000000"] u
    unfolding re sample_attr by auto
  moreover have "unat (0x40001000 :: u64) < space_end sample_env 0" "unat (0x40003000 :: u64) < space_end sample_env 0"
    by (simp_all add: sample_geom_ok)
  ultimately show ?thesis using at [of "0x40001000"] at [of "0x40003000"] by auto
qed

text \<open>
  C4: Preparing a mapping changes no attribute of any address, and once it has succeeded the
  commit of the same mapping succeeds whatever is left in the pool by then: it returns without
  failing its run-time check, even when every free page has been handed out in between.
\<close>

theorem prepare_then_commit:
  assumes "geom_ok env flags" "has flags MM_FLAG_UNMAP \<or> pte_attrs_ok attrs"
    and "ptable_inv idm env flags t s" "unat pa_end \<le> 2 ^ 64 - 4096"
    and "mm_ptable_identity_prepare env t pa_begin pa_end attrs flags s = Ret (True, s1)"
    and "page_pool_ok p" "mpool_avail p \<subseteq># free_pages s1"
  shows "(\<forall>a. unat a < space_end env flags \<longrightarrow>
      ptable_attr env flags t (mem s1) a = ptable_attr env flags t (mem s) a) \<and>
    (\<exists>s2. mm_ptable_identity_commit env t pa_begin pa_end attrs flags (s1\<lparr>pool := p\<rparr>) = Ret s2 \<and>
      (\<forall>a. unat a < space_end env flags \<longrightarrow>
        ptable_attr env flags t (mem s2) a =
          (if range_begin pa_begin \<le> unat a \<and> unat a < range_end env flags pa_end
           then (if has flags MM_FLAG_UNMAP then 0 else attrs)
           else ptable_attr env flags t (mem s) a)))"
proof -
  have st: "ptable_step idm env flags t s s1"
    and same: "\<forall>a. unat a < space_end env flags \<longrightarrow>
      ptable_attr env flags t (mem s1) a = ptable_attr env flags t (mem s) a"
    and ready: "ptable_ready env flags t attrs (mem s1) (range_begin pa_begin) (range_end env flags pa_end)"
    using identity_prepare_spec [OF assms(1-4), of pa_begin] assms(5) by auto
  let ?s = "s1\<lparr>pool := p\<rparr>"
  have "ptable_inv idm env flags t ?s"
  proof -
    have i: "ptable_inv idm env flags t s1" by (rule ptable_step_inv [OF assms(3) st])
    have "ptable_pages env flags t s1 = ptable_pages env flags t ?s + (free_pages s1 - mpool_avail p)"
      using assms(7) by (simp add: ptable_pages_def add.assoc)
    then have "own_ok (ptable_pages env flags t ?s)"
      using i own_ok_mono [of "ptable_pages env flags t ?s" "free_pages s1 - mpool_avail p"]
      by (simp add: ptable_inv_def)
    then show ?thesis using i assms(6) by (simp add: ptable_inv_def)
  qed
  from identity_commit_spec [OF assms(1,2) this assms(4), of pa_begin] ready obtain s2
    where "mm_ptable_identity_commit env t pa_begin pa_end attrs flags ?s = Ret s2"
      "\<forall>a. unat a < space_end env flags \<longrightarrow> ptable_attr env flags t (mem s2) a =
        (if range_begin pa_begin \<le> unat a \<and> unat a < range_end env flags pa_end then new_attr flags attrs
         else ptable_attr env flags t (mem ?s) a)"
    by auto
  then show ?thesis using same by (auto simp: new_attr_def)
qed

lemma sample_block_ready:
  "ptable_ready sample_env 0 sample_ptable attrs m 0x40000000 0x80000000"
proof -
  have "table_ready 2 0 attrs m 0 0x40000000 0x80000000 t" for m t
    unfolding table_ready_def
  proof (intro ballI impI)
    fix i :: nat
    assume "0x40000000 < 0 + (i + 1) * esz 2 \<and> 0 + i * esz 2 < 0x80000000"
    then have "i = 1" by (simp add: esz_def)
    then have "entry_whole 0 2 (0 + i * esz 2) 0x40000000 0x80000000"
      by (simp add: entry_whole_def esz_def arch_mm_is_block_allowed_def)
    then show "entry_ready 2 0 attrs m (0 + i * esz 2) 0x40000000 0x80000000 (m t i)"
      by (simp only: numeral_2_eq_2 entry_ready.simps) simp
  qed
  then show ?thesis unfolding ptable_ready_def sample_geometry by (auto simp: esz_def upt_rec)
qed

lemma sample_prepare:
  "\<exists>s1. mm_ptable_identity_prepare sample_env sample_ptable 0x40000000 0x80000000 0x401 0 sample_state = Ret (True, s1)"
proof -
  have re: "range_begin 0x40000000 = 0x40000000" "range_end sample_env 0 0x80000000 = 0x80000000"
    by (simp_all add: range_begin_def range_end_def sample_geom_ok)
  have z: "0 AND NOT MM_FLAG_COMMIT = 0" by simp
  have e: "unat (0x80000000 :: u64) \<le> 2 ^ 64 - 4096" by simp
  from mm_ptable_identity_map_spec [OF sample_geom_ok(1) sample_attrs_ok sample_ptable_inv e, of "0x40000000"]
    sample_block_ready
  show ?thesis unfolding mm_ptable_identity_prepare_def z re ptable_result_def by auto
qed

theorem prepare_then_commit_witness:
  "\<exists>s1 s2. mm_ptable_identity_prepare sample_env sample_ptable 0x40000000 0x80000000 0x401 0 sample_state = Ret (True, s1) \<and>
    mm_ptable_identity_commit sample_env sample_ptable 0x40000000 0x80000000 0x401 0
      (s1\<lparr>pool := Mpool 0x1000 [] [] None\<rparr>) = Ret s2 \<and>
    ptable_attr sample_env 0 sample_ptable (mem s2) 0x40001000 = 0x401"
proof -
  obtain s1 where p: "mm_ptable_identity_prepare sample_env sample_ptable 0x40000000 0x80000000 0x401 0 sample_state = Ret (True, s1)"
    using sample_prepare by blast
  have pk: "page_pool_ok (Mpool 0x1000 [] [] None)"
    using sample_pool_ok by (simp add: page_pool_ok_def sample_state_def PAGE_SIZE_def PAGE_BITS_def)
  have em: "mpool_avail (Mpool 0x1000 [] [] None) \<subseteq># free_pages s1" by simp
  have e: "unat (0x80000000 :: u64) \<le> 2 ^ 64 - 4096" and u: "\<not> has 0 MM_FLAG_UNMAP" by (simp_all add: has_def)
  have re: "range_begin 0x40000000 = 0x40000000" "range_end sample_env 0 0x80000000 = 0x80000000"
    by (simp_all add: range_begin_def range_end_def sample_geom_ok)
  have sp: "unat (0x40001000 :: u64) < space_end sample_env 0" by (simp add: sample_geom_ok)
  obtain s2 where "mm_ptable_identity_commit sample_env sample_ptable 0x40000000 0x80000000 0x401 0
      (s1\<lparr>pool := Mpool 0x1000 [] [] None\<rparr>) = Ret s2"
    and at: "\<forall>a. unat a < space_end sample_env 0 \<longrightarrow> ptable_attr sample_env 0 sample_ptable (mem s2) a =
      (if 0x40000000 \<le> unat a \<and> unat a < 0x80000000 then 0x401 else 0)"
    using prepare_then_commit [OF sample_geom_ok(1) sample_attrs_ok sample_ptable_inv e p pk em] u
    unfolding re sample_attr by auto
  then show ?thesis using p spec [OF at, of "0x40001000"] sp by auto
qed




section \<open>Reading modes\<close>

text \<open>
  C9: The mode reported for a range of a partition that is not empty: the walk always returns,
  and it reports the common mode of the range when the range lies in the address space and all
  its addresses have the same attributes, and failure in every other case.
\<close>

theorem vm_get_mode_exact:
  assumes "geom_ok env 0" "unat fin \<le> 2 ^ 64 - 4096"
    and "unat bg div 4096 * 4096 < (unat fin + 4095) div 4096 * 4096"
  shows "mm_vm_get_mode env u t bg fin s = Ret
    (if (unat fin + 4095) div 4096 * 4096 \<le> space_end env 0 \<and>
        (\<forall>a. unat bg div 4096 * 4096 \<le> unat a \<and> unat a < (unat fin + 4095) div 4096 * 4096 \<longrightarrow>
          ptable_attr env 0 t (mem s) a = ptable_attr env 0 t (mem s) (mm_round_down_to_page bg))
     then Some (arch_mm_stage2_attrs_to_mode (ptable_attr env 0 t (mem s) (mm_round_down_to_page bg)))
     else None)"
proof -
  from mm_get_attrs_spec [OF assms refl refl, of t u s] obtain ok x
    where r: "mm_get_attrs env t bg fin u 0 s = Ret (ok, x)"
      and ok: "ok \<longleftrightarrow> (unat fin + 4095) div 4096 * 4096 \<le> space_end env 0 \<and>
        (\<forall>a. unat bg div 4096 * 4096 \<le> unat a \<and> unat a < (unat fin + 4095) div 4096 * 4096 \<longrightarrow>
          ptable_attr env 0 t (mem s) a = ptable_attr env 0 t (mem s) (mm_round_down_to_page bg))"
      and x: "ok \<longrightarrow> x = ptable_attr env 0 t (mem s) (mm_round_down_to_page bg)" by blast
  show ?thesis unfolding mm_vm_get_mode_def r ok [symmetric] using x by (cases ok) simp_all
qed

theorem vm_get_mode_exact_witness:
  "mm_vm_get_mode sample_env 0 sample_ptable 0x40000000 0x40002000 sample_state = Ret (Some 0x7c)"
proof -
  have h: "unat (0x40002000 :: u64) \<le> 2 ^ 64 - 4096"
    "unat (0x40000000 :: u64) div 4096 * 4096 < (unat (0x40002000 :: u64) + 4095) div 4096 * 4096" by simp_all
  have le: "(unat (0x40002000 :: u64) + 4095) div 4096 * 4096 \<le> space_end sample_env 0" by (simp add: sample_geom_ok)
  have m: "arch_mm_stage2_attrs_to_mode 0 = 0x7c"
    by (simp add: attrs_to_mode_bits mode_consts)
  show ?thesis
    unfolding vm_get_mode_exact [OF sample_geom_ok(1) h] sample_attr m using le by simp
qed

text \<open>
  C8: What was mapped is what is read back. After a mapping of a range inside the address space
  of a partition has succeeded, with a mode that is not the unmapped one, the mode reported for
  the range is the one it was mapped with, restricted to the flags that stage 2 represents.
\<close>

theorem vm_map_get_mode_roundtrip:
  assumes "geom_ok env 0" "vm_ptable_inv env t s"
    and "mm_vm_identity_map env t bg fin mode s = Ret (True, s')"
    and "bg < fin" "(unat fin + 4095) div 4096 * 4096 \<le> space_end env 0"
    and "\<not> (has mode MM_MODE_INVALID \<and> has mode MM_MODE_UNOWNED)"
  shows "mm_vm_get_mode env u t bg fin s' = Ret (Some (mode AND
    (MM_MODE_R OR MM_MODE_W OR MM_MODE_X OR MM_MODE_D OR MM_MODE_INVALID OR MM_MODE_UNOWNED OR MM_MODE_SHARED)))"
proof -
  let ?b = "unat bg div 4096 * 4096" and ?f = "(unat fin + 4095) div 4096 * 4096"
  note se = space_end_unat [OF assms(1)]
  have lt: "unat bg < unat fin" using assms(4) by (simp add: word_less_nat_alt)
  have up: "unat fin \<le> ?f" using div_mult_mod_eq [of "unat fin + 4095" 4096] mod_less_divisor [of 4096 "unat fin + 4095"] by linarith
  then have f48: "unat fin \<le> 2 ^ 48" using assms(5) se(3) by linarith
  have bf: "?b < ?f" using up lt div_times_less_eq_dividend [of "unat bg" 4096] by linarith
  have h: "unat fin \<le> 2 ^ 64 - 4096" using f48 by simp
  have rb: "range_begin bg = ?b" unfolding range_begin_def using lt f48 by simp
  have re: "range_end env 0 fin = ?f" using assms(5) by (simp add: range_end_def)
  have "vm_done env t s (map_range env bg fin (mode_attrs mode) (ptable_attr env 0 t (mem s))) s'"
    using vm_update_spec [OF assms(1,2) vm_simulates_self h, of bg mode] assms(3) by auto
  then have at: "ptable_attr env 0 t (mem s') a = arch_mm_mode_to_stage2_attrs mode"
    if "?b \<le> unat a" "unat a < ?f" for a
    using that assms(5,6) by (auto simp: vm_done_def vm_simulates_def map_range_def rb re mode_attrs_def)
  from mm_get_attrs_spec [OF assms(1) h bf refl refl, of t u s'] obtain ok x
    where r: "mm_get_attrs env t bg fin u 0 s' = Ret (ok, x)"
      and ok: "ok \<longleftrightarrow> ?f \<le> space_end env 0 \<and> (\<forall>a. ?b \<le> unat a \<and> unat a < ?f \<longrightarrow>
          ptable_attr env 0 t (mem s') a = ptable_attr env 0 t (mem s') (mm_round_down_to_page bg))"
      and x: "ok \<longrightarrow> x = ptable_attr env 0 t (mem s') (mm_round_down_to_page bg)" by blast
  have rd: "ptable_attr env 0 t (mem s') (mm_round_down_to_page bg) = arch_mm_mode_to_stage2_attrs mode"
    using bf by (intro at) (simp_all only: round_down_unat)
  have "ok" unfolding ok rd using assms(5) at by blast
  then show ?thesis
    using x stage2_roundtrip_mask [of mode] unfolding mm_vm_get_mode_def r rd mask7 by simp
qed

lemma identity_update_ready:
  assumes g: "geom_ok env flags" and at: "has flags MM_FLAG_UNMAP \<or> pte_attrs_ok attrs"
    and inv: "ptable_inv idm env flags t s" and e: "unat pa_end \<le> 2 ^ 64 - 4096"
    and ready: "ptable_ready env flags t attrs (mem s) (range_begin pa_begin) (range_end env flags pa_end)"
  shows "\<exists>s'. mm_ptable_identity_update env t pa_begin pa_end attrs flags s = Ret (True, s')"
proof -
  let ?f = "flags AND NOT MM_FLAG_COMMIT"
  note sv = same_view_ptable [OF same_view_commit(1) [of flags]]
  have g': "geom_ok env ?f" and inv': "ptable_inv idm env ?f t s"
    and at': "has ?f MM_FLAG_UNMAP \<or> pte_attrs_ok attrs" using g inv at sv by simp_all
  obtain s1 where p: "mm_ptable_identity_prepare env t pa_begin pa_end attrs flags s = Ret (True, s1)"
    using mm_ptable_identity_map_spec [OF g' at' inv' e, of pa_begin] ready
    unfolding mm_ptable_identity_prepare_def ptable_result_def sv by auto
  obtain ok s' where "mm_ptable_identity_update env t pa_begin pa_end attrs flags s = Ret (ok, s')"
    using identity_update_spec [OF g at inv e] by blast
  then show ?thesis using p by (auto simp: mm_ptable_identity_update_def)
qed

lemma sample_map_block:
  "\<exists>s'. mm_vm_identity_map sample_env sample_ptable 0x40000000 0x80000000 7 sample_state = Ret (True, s')"
proof -
  have re: "range_begin 0x40000000 = 0x40000000" "range_end sample_env 0 0x80000000 = 0x80000000"
    by (simp_all add: range_begin_def range_end_def sample_geom_ok)
  have fl: "mm_mode_to_flags 7 = 0" by (simp add: mm_mode_to_flags_def MM_MODE_UNMAPPED_MASK_def mode_consts)
  have e: "unat (0x80000000 :: u64) \<le> 2 ^ 64 - 4096" by simp
  show ?thesis
    using identity_update_ready [OF sample_geom_ok(1) stage2_attrs_ok [of 7, unfolded fl] sample_ptable_inv e, of "0x40000000"]
      sample_block_ready
    unfolding mm_vm_identity_map_def fl re by simp
qed

theorem vm_map_get_mode_roundtrip_witness:
  "\<exists>s'. mm_vm_identity_map sample_env sample_ptable 0x40000000 0x80000000 7 sample_state = Ret (True, s') \<and>
    mm_vm_get_mode sample_env 0 sample_ptable 0x40000000 0x80000000 s' = Ret (Some 7)"
proof -
  obtain s' where r: "mm_vm_identity_map sample_env sample_ptable 0x40000000 0x80000000 7 sample_state = Ret (True, s')"
    using sample_map_block by blast
  have h: "(0x40000000 :: u64) < 0x80000000" "(unat (0x80000000 :: u64) + 4095) div 4096 * 4096 \<le> space_end sample_env 0"
    "\<not> (has 7 MM_MODE_INVALID \<and> has 7 MM_MODE_UNOWNED)"
    by (simp_all add: sample_geom_ok mode_consts has_def)
  from vm_map_get_mode_roundtrip [OF sample_geom_ok(1) sample_inv r h] r show ?thesis
    by (auto simp: mode_consts)
qed

text \<open>
  C11: Bringing up the memory management gives page tables the rest of it can work with: after a
  successful \<open>arch_mm_init\<close> the geometry of both stages is sound, with levels between one and
  three, at most sixteen root tables in a power of two, and an address space of at most 48 bits
  that the page table entries can describe.
\<close>

theorem arch_mm_init_geom_ok:
  assumes "arch_mm_init cfg bp features pe_features table g = Ret (True, g')"
  shows "geom_ok \<lparr>env_cfg = cfg, env_geom = g', mm_stage2_invalidate = s2\<rparr> flags \<and>
    pow2 (of_nat (mm_root_table_count \<lparr>env_cfg = cfg, env_geom = g', mm_stage2_invalidate = s2\<rparr> flags))"
proof -
  have p: "pow2 1" "pow2 2" "pow2 4" "pow2 8"
    unfolding pow2_def by (rule exI [of _ 0] exI [of _ 1] exI [of _ 2] exI [of _ 3], simp)+
  show ?thesis
  using assms pa_range_cases [of features] p
  by (auto simp: arch_mm_init_def Let_def arch_mm_stage1_max_level_set_def geom_ok_def mm_max_level_def
      mm_root_table_count_def esz_def
      PAGE_BITS_def PAGE_LEVEL_BITS_def arch_mm_stage2_root_table_count_def
      arch_mm_stage1_root_table_count_def arch_mm_stage1_max_level_def arch_mm_stage2_max_level_def split: if_splits)
qed

theorem arch_mm_init_geom_ok_witness:
  "\<exists>g'. arch_mm_init cfg_secure_vhe False 2 0 0 (env_geom sample_env) = Ret (True, g') \<and>
    geom_ok \<lparr>env_cfg = cfg_secure_vhe, env_geom = g', mm_stage2_invalidate = True\<rparr> 0"
proof -
  have "\<exists>g'. arch_mm_init cfg_secure_vhe False 2 0 0 (env_geom sample_env) = Ret (True, g')"
    by (simp add: arch_mm_init_def Let_def arch_mm_get_pa_range_def pa_bits_table_def arch_mm_stage1_max_level_set_def)
  then show ?thesis using arch_mm_init_geom_ok by blast
qed

section \<open>The life of a page table\<close>

text \<open>
  C10: Nothing leaks. From a pool of free pages, creating the page table of a partition, any
  sequence of mappings, unmappings and defragmentations, and destroying the page table give back
  a pool with exactly the same free pages; when the creation fails the state is unchanged.
\<close>

theorem vm_lifecycle_conserves_pages:
  assumes "geom_ok env 0" "pow2 (of_nat (mm_root_table_count env 0))"
    and "page_pool_ok (pool s)" "own_ok (free_pages s)" "\<forall>ch \<in> set (all_chunks (pool s)). unat (snd ch) \<le> 2 ^ 48"
    and "list_all vm_op_fits ops"
  shows "case mm_vm_init env vid s of
      (None, s') \<Rightarrow> s' = s
    | (Some t, s1) \<Rightarrow> \<exists>oks s2. vm_run env t ops s1 = Ret (oks, s2) \<and>
        free_pages (mm_vm_fini env t s2) = free_pages s \<and> page_pool_ok (pool (mm_vm_fini env t s2))"
proof -
  obtain x s1 where i: "mm_vm_init env vid s = (x, s1)" by fastforce
  note sp = mm_ptable_init_spec [OF assms(1-5), of vid, folded mm_vm_init_def, unfolded i]
  show ?thesis
  proof (cases x)
    case None
    then show ?thesis using sp i by simp
  next
    case (Some t)
    have inv: "vm_ptable_inv env t s1" and pp: "ptable_pages env 0 t s1 = free_pages s"
      using sp Some by (simp_all add: vm_ptable_inv_def ptable_plain_def PTE_VALID_def)
    obtain oks s2 where r: "vm_run env t ops s1 = Ret (oks, s2)"
      and d: "ptable_inv True env 0 t s2" "ptable_pages env 0 t s2 = ptable_pages env 0 t s1"
      using vm_run_spec [OF assms(1) inv vm_simulates_self assms(6)] by (auto simp: vm_done_def vm_ptable_inv_def)
    have "free_pages (mm_vm_fini env t s2) = free_pages s" "page_pool_ok (pool (mm_vm_fini env t s2))"
      using mm_ptable_fini_spec [OF assms(1) d(1)] d(2) pp by (simp_all add: mm_vm_fini_def)
    then show ?thesis using r i Some by simp
  qed
qed

theorem vm_lifecycle_conserves_pages_witness:
  "case mm_vm_init sample_env 5 sample_state of
      (None, s') \<Rightarrow> s' = sample_state
    | (Some t, s1) \<Rightarrow> \<exists>oks s2. vm_run sample_env t [Vm_map 0x1000 0x5000 3, Vm_defrag] s1 = Ret (oks, s2) \<and>
        free_pages (mm_vm_fini sample_env t s2) = {#0x80010000, 0x80011000, 0x80012000#}"
proof -
  have p2: "pow2 (of_nat (mm_root_table_count sample_env 0))" using pow2_two by (simp add: sample_geometry)
  have own: "own_ok (free_pages sample_state)" unfolding sample_pages by (simp add: own_ok_def pte_addr_ok_unat)
  have ch: "\<forall>ch \<in> set (all_chunks (pool sample_state)). unat (snd ch) \<le> 2 ^ 48" by (simp add: sample_state_def)
  have f: "list_all vm_op_fits [Vm_map 0x1000 0x5000 3, Vm_defrag]" by simp
  show ?thesis
    using vm_lifecycle_conserves_pages [OF sample_geom_ok(1) p2 sample_pool_ok own ch f, of 5]
    unfolding sample_pages by (auto split: prod.splits option.splits)
qed

section \<open>Divergences\<close>

text \<open>
  C21: \<open>mm_unmap\<close> reports failure for every range that begins at address 0, even though the
  pages have been unmapped: it takes the address that \<open>mm_identity_map\<close> returns for the null
  pointer.
\<close>

theorem mm_unmap_from_zero_reports_failure:
  assumes "mm_ptable_identity_update env t 0 fin (arch_mm_mode_to_stage1_attrs (env_cfg env) MM_MODE_UNMAPPED_MASK)
    (MM_FLAG_STAGE1 OR mm_mode_to_flags MM_MODE_UNMAPPED_MASK) s = Ret (True, s')"
  shows "mm_unmap env t 0 fin s = Ret (False, s')"
  unfolding mm_unmap_def mm_identity_map_def assms by simp

lemma sample_stage1_inv:
  assumes "mm_root_table_count sample_env flags = 1"
  shows "ptable_inv True sample_env flags sample_ptable sample_state"
proof -
  have z: "mem sample_state r j = 0" for r j by (simp add: sample_state_def)
  have "table_pages 2 (mem sample_state) (root_table sample_ptable k) = []" for k by (rule empty_root) (rule z)
  then have "ptable_pages sample_env flags sample_ptable sample_state =
    mset (map (root_table sample_ptable) [0..<1]) + free_pages sample_state"
    using ptable_pages_roots [of sample_env flags sample_state sample_ptable] assms by (simp add: sample_geometry)
  then have "ptable_pages sample_env flags sample_ptable sample_state = {#0x80000000, 0x80010000, 0x80011000, 0x80012000#}"
    unfolding sample_pages by (simp add: sample_roots)
  moreover have "own_ok {#0x80000000, 0x80010000, 0x80011000, 0x80012000#}" by (simp add: own_ok_def pte_addr_ok_unat)
  moreover have "ptable_ok True sample_env flags sample_ptable (mem sample_state)"
    unfolding ptable_ok_def by (intro ballI empty_root(2) z)
  ultimately show ?thesis using sample_pool_ok by (simp add: ptable_inv_def)
qed

lemma sample_unmap_zero:
  "\<exists>s'. mm_ptable_identity_update sample_env sample_ptable 0 0x40000000 attrs 6 sample_state = Ret (True, s')"
proof -
  have g: "mm_root_table_count sample_env 6 = 1" "has 6 MM_FLAG_UNMAP"
    by (simp_all add: sample_env_def mm_root_table_count_def has_def MM_FLAG_STAGE1_def MM_FLAG_UNMAP_def
        arch_mm_stage1_root_table_count_def)
  have ok: "geom_ok sample_env 6" by (simp add: geom_ok_def g sample_geometry esz_def)
  note inv = sample_stage1_inv [OF g(1)]
  have "table_ready 2 6 attrs m 0 0 0x40000000 t" for m t
    unfolding table_ready_def
  proof (intro ballI impI)
    fix i :: nat
    assume "0 < 0 + (i + 1) * esz 2 \<and> 0 + i * esz 2 < 0x40000000"
    then have "i = 0" by (simp add: esz_def)
    then have "entry_whole 6 2 (0 + i * esz 2) 0 0x40000000" using g by (simp add: entry_whole_def esz_def)
    then show "entry_ready 2 6 attrs m (0 + i * esz 2) 0 0x40000000 (m t i)"
      by (simp only: numeral_2_eq_2 entry_ready.simps) simp
  qed
  then have "ptable_ready sample_env 6 sample_ptable attrs (mem sample_state) 0 0x40000000"
    unfolding ptable_ready_def sample_geometry g by simp
  moreover have "range_begin 0 = 0" "range_end sample_env 6 0x40000000 = 0x40000000"
    by (simp_all add: range_begin_def range_end_def space_end_def g sample_geometry esz_def)
  ultimately show ?thesis using g(2) by (intro identity_update_ready [OF ok _ inv]) simp_all
qed

theorem mm_unmap_from_zero_reports_failure_witness:
  "\<exists>s'. mm_ptable_identity_update sample_env sample_ptable 0 0x40000000
      (arch_mm_mode_to_stage1_attrs (env_cfg sample_env) MM_MODE_UNMAPPED_MASK) 6 sample_state = Ret (True, s') \<and>
    mm_unmap sample_env sample_ptable 0 0x40000000 sample_state = Ret (False, s')"
proof -
  have f: "MM_FLAG_STAGE1 OR mm_mode_to_flags MM_MODE_UNMAPPED_MASK = 6"
    by (simp add: mm_mode_to_flags_def MM_FLAG_STAGE1_def MM_FLAG_UNMAP_def)
  show ?thesis using sample_unmap_zero mm_unmap_from_zero_reports_failure [unfolded f] by blast
qed

end
