(* ===== verification/MM_Page.thy ===== *)
theory MM_Page
  imports MM_Root
begin

text \<open>
  Mapping a single page to an arbitrary physical page: \<open>mm_map_level_one_page\<close> and
  \<open>mm_ptable_map_one_page\<close> of \<^verbatim>\<open>src/mm.c\<close>. The tables it works on need not map addresses to
  themselves, and what an address translates to is read off the entry where its walk ends.
\<close>

section \<open>Where a walk ends\<close>

primrec leaf_at :: "nat \<Rightarrow> table_mem \<Rightarrow> u64 \<Rightarrow> u64 \<Rightarrow> nat \<times> u64" where
  "leaf_at 0 m pte a = (0, pte)"
| "leaf_at (Suc l) m pte a =
     (if arch_mm_pte_is_table pte (Suc l)
      then leaf_at l m (m (sub_table pte (Suc l)) (mm_index a l)) a
      else (Suc l, pte))"

definition ptable_leaf :: "mm_env \<Rightarrow> u32 \<Rightarrow> mm_ptable \<Rightarrow> table_mem \<Rightarrow> u64 \<Rightarrow> nat \<times> u64" where
  "ptable_leaf env flags t m a =
     (let l = mm_max_level env flags in leaf_at l m (m (root_table t (mm_index a (Suc l))) (mm_index a l)) a)"

lemma leaf_at_not_table: "\<not> arch_mm_pte_is_table pte l \<Longrightarrow> leaf_at l m pte a = (l, pte)"
  by (cases l) simp_all

lemma attr_claim_True:
  "attr_claim c nattr b f F F' True a \<longleftrightarrow> F' a = (if c \<and> b \<le> unat a \<and> unat a < f then nattr else F a)"
  by (simp add: attr_claim_def)

section \<open>One entry and one table\<close>

text \<open>The pool can hand out a number of tables, one after the other.\<close>

primrec can_alloc :: "nat \<Rightarrow> mpool \<Rightarrow> bool" where
  "can_alloc 0 p \<longleftrightarrow> True"
| "can_alloc (Suc n) p \<longleftrightarrow> (case mpool_alloc p of (p', None) \<Rightarrow> False | (p', Some t) \<Rightarrow> can_alloc n p')"

lemma can_alloc_less: "can_alloc (Suc n) p \<Longrightarrow> can_alloc n p"
  by (induction n arbitrary: p) (auto split: prod.splits option.splits)

lemma populate_alloc:
  assumes inv: "entry_inv idm (Suc l) t i base s" and nt: "\<not> arch_mm_pte_is_table (mem s t i) (Suc l)"
    and c: "can_alloc (Suc l) (pool s)" and r: "mm_populate_table_pte env b (t, i) (Suc l) flags vid s = Ret (x, s')"
  shows "x \<noteq> None \<and> can_alloc l (pool s')"
proof -
  obtain p n where al: "mpool_alloc (pool s) = (p, Some n)" and c: "can_alloc l p"
    using c by (auto split: prod.splits option.splits)
  let ?s1 = "init_table n (split_entries (mem s t i) l (mem s n)) (s\<lparr>pool := p\<rparr>)"
  have "n \<in># free_pages s"
    using pool.alloc_Some [of "pool s" p n] al inv by (auto simp: entry_inv_def page_pool_ok_def)
  then have "mem ?s1 t i = mem s t i" using entry_pages_facts(2) [OF inv, of n] by auto
  then have f: "mm_free_page_pte (Suc l) (mem ?s1 t i) m (pool ?s1) = p" for m using nt by simp
  have x: "x = Some n" and rp: "mm_replace_entry env b (t, i) (arch_mm_table_pte (Suc l) n) (Suc l) flags vid ?s1 = Ret s'"
    using r populate_new [OF nt al, of env b flags vid] by auto
  from mm_replace_entry_returns [of env b t i "arch_mm_table_pte (Suc l) n" "Suc l" flags vid ?s1] rp
  have "pool s' = p" unfolding f by auto
  then show ?thesis using x c by simp
qed

text \<open>
  The walk of the page ends in an entry with the wanted attributes and address, at whatever level; every
  other address keeps its attributes.
\<close>

definition page_leaf :: "u32 \<Rightarrow> u64 \<Rightarrow> u64 \<Rightarrow> nat \<times> u64 \<Rightarrow> bool" where
  "page_leaf flags attrs pa leaf \<longleftrightarrow> snd leaf = new_leaf flags attrs (fst leaf) pa"

definition page_entry_result ::
  "nat \<Rightarrow> u64 \<Rightarrow> nat \<Rightarrow> nat \<Rightarrow> u32 \<Rightarrow> u64 \<Rightarrow> u64 \<Rightarrow> u64 \<Rightarrow> mm_state \<Rightarrow> bool \<Rightarrow> mm_state \<Rightarrow> bool" where
  "page_entry_result l t i base flags attrs va pa s ok s' \<longleftrightarrow>
     entry_step False l t i base s s' \<and>
     (\<forall>a. base \<le> unat a \<and> unat a < base + esz l \<longrightarrow>
        attr_claim (has flags MM_FLAG_COMMIT \<and> ok) (new_attr flags attrs) (unat va) (unat va + 4096)
          (attr_at l (mem s) (mem s t i)) (attr_at l (mem s') (mem s' t i)) True a) \<and>
     (has flags MM_FLAG_COMMIT \<and> ok \<longrightarrow>
        page_leaf flags attrs pa (leaf_at l (mem s') (mem s' t i) va)) \<and>
     (can_alloc l (pool s) \<longrightarrow> ok)"

definition page_table_result ::
  "nat \<Rightarrow> u64 \<Rightarrow> nat \<Rightarrow> u32 \<Rightarrow> u64 \<Rightarrow> u64 \<Rightarrow> u64 \<Rightarrow> mm_state \<Rightarrow> bool \<Rightarrow> mm_state \<Rightarrow> bool" where
  "page_table_result l t base flags attrs va pa s ok s' \<longleftrightarrow>
     table_step False l t base s s' \<and>
     (\<forall>a. base \<le> unat a \<and> unat a < base + esz (Suc l) \<longrightarrow>
        attr_claim (has flags MM_FLAG_COMMIT \<and> ok) (new_attr flags attrs) (unat va) (unat va + 4096)
          (table_attr l (mem s) t) (table_attr l (mem s') t) True a) \<and>
     (has flags MM_FLAG_COMMIT \<and> ok \<longrightarrow>
        page_leaf flags attrs pa (leaf_at l (mem s') (mem s' t (mm_index va l)) va)) \<and>
     (can_alloc l (pool s) \<longrightarrow> ok)"

definition page_args :: "u32 \<Rightarrow> u64 \<Rightarrow> u64 \<Rightarrow> u64 \<Rightarrow> bool" where
  "page_args flags attrs va pa \<longleftrightarrow>
     4096 dvd unat va \<and> unat va < 2 ^ 48 \<and> pte_addr_ok pa \<and> (has flags MM_FLAG_UNMAP \<or> pte_attrs_ok attrs)"

lemma page_table_entry:
  assumes inv: "entry_inv False (Suc l) t i base s" and tab: "arch_mm_pte_is_table (mem s t i) (Suc l)"
    and r: "page_table_result l (sub_table (mem s t i) (Suc l)) base flags attrs va pa s ok s'"
  shows "page_entry_result (Suc l) t i base flags attrs va pa s ok s'"
proof -
  let ?n = "sub_table (mem s t i) (Suc l)"
  have st: "entry_step False (Suc l) t i base s s'" "mem s' t = mem s t"
    using table_step_entry [OF inv tab] r by (simp_all add: page_table_result_def)
  have a: "attr_at (Suc l) (mem s) (mem s t i) = table_attr l (mem s) ?n"
    "attr_at (Suc l) (mem s') (mem s' t i) = table_attr l (mem s') ?n"
    using tab by (simp_all add: fun_eq_iff table_attr_def st(2))
  have "leaf_at (Suc l) m (mem s t i) va = leaf_at l m (m ?n (mm_index va l)) va" for m
    using tab by simp
  then show ?thesis
    unfolding page_entry_result_def a using st r can_alloc_less [of l "pool s"]
    by (simp add: page_table_result_def del: can_alloc.simps)
qed

lemma page_entry_table:
  assumes inv: "table_inv False l t B s" and al: "esz (Suc l) dvd B"
    and va: "B \<le> unat va" "unat va < B + esz (Suc l)" "4096 dvd unat va"
    and e: "page_entry_result l t (mm_index va l) (B + mm_index va l * esz l) flags attrs va pa s ok s'"
  shows "page_table_result l t B flags attrs va pa s ok s'"
proof -
  let ?i = "mm_index va l"
  have i: "?i < 512" by simp
  have v: "B + ?i * esz l \<le> unat va" "unat va < B + (?i + 1) * esz l"
    using table_position [OF al va(1)] va(2) by (simp_all add: esz_Suc)
  have "4096 dvd B + (?i + 1) * esz l"
    using dvd_trans [OF _ al, of 4096] esz_dvd [of 0 "Suc l"] esz_dvd [of 0 l] by (simp add: esz_0)
  then obtain k n where "B + (?i + 1) * esz l = 4096 * k" "unat va = 4096 * n" using va(3) by (auto elim!: dvdE)
  then have up: "unat va + 4096 \<le> B + (?i + 1) * esz l" using v(2) by simp
  have st: "entry_step False l t ?i (B + ?i * esz l) s s'" using e by (simp add: page_entry_result_def)
  have "attr_claim (has flags MM_FLAG_COMMIT \<and> ok) (new_attr flags attrs) (unat va) (unat va + 4096)
    (table_attr l (mem s) t) (table_attr l (mem s') t) True a" if a: "B \<le> unat a" "unat a < B + esz (Suc l)" for a
  proof -
    obtain j where j: "j < 512" "B + j * esz l \<le> unat a" "unat a < B + (j + 1) * esz l"
      and at: "\<And>m. table_attr l m t a = attr_at l m (m t j) a"
      using table_attr_entry [OF al a, of t] by blast
    show ?thesis
    proof (cases "j = ?i")
      case True
      have "B + j * esz l \<le> unat a \<and> unat a < B + j * esz l + esz l" using j by (simp add: add_ac)
      then show ?thesis using e True unfolding page_entry_result_def attr_claim_def at by auto
    next
      case False
      have "table_attr l (mem s') t a = table_attr l (mem s) t a"
        unfolding at using entry_step_table(2) [OF inv i st j(1) False] .
      moreover have "\<not> (unat va \<le> unat a \<and> unat a < unat va + 4096)"
      proof
        assume p: "unat va \<le> unat a \<and> unat a < unat va + 4096"
        have "?i \<le> j" by (rule entry_before [of B _ "esz l" "unat a"]) (use v j p in linarith)+
        moreover have "j \<le> ?i" by (rule entry_before [of B _ "esz l" "unat a"]) (use up j p in linarith)+
        ultimately show False using False by simp
      qed
      ultimately show ?thesis by (auto simp: attr_claim_def)
    qed
  qed
  then show ?thesis
    unfolding page_table_result_def using entry_step_table(1) [OF inv i st] e by (simp add: page_entry_result_def)
qed

lemma level_end_room:
  assumes "l \<le> 3" "4096 dvd unat va" "unat va < 2 ^ 48"
  shows "va + PAGE_SIZE \<le> mm_level_end va l"
proof -
  define B where "B = unat va div esz (Suc l) * esz (Suc l)"
  have B: "esz (Suc l) dvd B" "B \<le> unat va" "unat va < B + esz (Suc l)"
    unfolding B_def using dividend_less_div_times [of "esz (Suc l)" "unat va"] by simp_all
  have "4096 dvd B + esz (Suc l)" using dvd_trans [OF _ B(1), of 4096] esz_dvd [of 0 "Suc l"] by (simp add: esz_0)
  then obtain k n where "B + esz (Suc l) = 4096 * k" "unat va = 4096 * n" using assms(2) by (auto elim!: dvdE)
  then have "unat va + 4096 \<le> B + esz (Suc l)" using B(3) by simp
  moreover have "unat (va + PAGE_SIZE) = unat va + 4096"
    using assms(3) by (subst unat_add_no_wrap) (simp_all add: page_size_unat)
  ultimately show ?thesis by (simp add: word_le_nat_alt level_end_table [OF assms(1) B assms(3)])
qed

lemma new_leaf_page:
  assumes "page_args flags attrs va pa"
  shows "leaf_ok False 0 base (new_leaf flags attrs 0 pa)"
    "arch_mm_pte_attrs (new_leaf flags attrs 0 pa) 0 = new_attr flags attrs"
  using assms
  by (auto simp: page_args_def new_leaf_def new_attr_def leaf_absent arch.absent_attrs arch.block_roundtrip
      esz_0 pte_addr_ok_unat arch.allowed_0 intro!: leaf_blockI)

lemma page_done:
  assumes inv: "entry_inv False l t i base s" and va: "page_args flags attrs va pa"
    and d: "if has flags MM_FLAG_UNMAP then \<not> arch_mm_pte_is_present (mem s t i) l
      else arch_mm_pte_is_block (mem s t i) l \<and> mem s t i = arch_mm_block_pte l pa attrs"
  shows "page_entry_result l t i base flags attrs va pa s True s"
proof -
  have pa: "\<not> has flags MM_FLAG_UNMAP \<Longrightarrow> arch_mm_pte_attrs (arch_mm_block_pte l pa attrs) l = attrs"
    using va arch.block_roundtrip(2) by (auto simp: page_args_def)
  have done': "entry_done flags attrs l (mem s t i)" using d pa by (auto simp: entry_done_def split: if_splits)
  have nt: "\<not> arch_mm_pte_is_table (mem s t i) l" using table_not_done done' by blast
  have ok: "pte_ok False l (mem s) base (mem s t i)" using inv by (simp add: entry_inv_def)
  then have leaf: "leaf_ok False l base (mem s t i)" using not_table_simps(3) [OF nt] by simp
  have "mem s t i = new_leaf flags attrs l pa"
    using d leaf_absent_attrs [OF leaf] by (auto simp: new_leaf_def split: if_splits)
  then show ?thesis
    unfolding page_entry_result_def leaf_at_not_table [OF nt]
    using entry_step_refl [OF inv] entry_done_attr [OF ok done'] by (simp add: attr_claim_def page_leaf_def)
qed

lemma page_entry_pre:
  assumes "entry_step False l t i base s s'"
    "\<forall>a. attr_at l (mem s') (mem s' t i) a = attr_at l (mem s) (mem s t i) a"
    "page_entry_result l t i base flags attrs va pa s' ok s''" "can_alloc l (pool s) \<Longrightarrow> ok"
  shows "page_entry_result l t i base flags attrs va pa s ok s''"
proof -
  have "attr_at l (mem s') (mem s' t i) = attr_at l (mem s) (mem s t i)" using assms(2) by (simp add: fun_eq_iff)
  then show ?thesis
    using assms(3,4) entry_step_trans [OF assms(1)] unfolding page_entry_result_def by simp
qed

lemma page_position:
  assumes "esz (Suc l) dvd B" "B \<le> unat va" "unat va < B + esz (Suc l)"
  shows "esz l dvd B + mm_index va l * esz l" "B + mm_index va l * esz l \<le> unat va"
    "unat va < B + mm_index va l * esz l + esz l"
proof -
  have "esz l dvd B" by (rule dvd_trans [OF esz_dvd assms(1)]) simp
  then show "esz l dvd B + mm_index va l * esz l" by simp
  show "B + mm_index va l * esz l \<le> unat va" "unat va < B + mm_index va l * esz l + esz l"
    using table_position [OF assms(1,2)] assms(3) by (simp_all add: esz_Suc add_ac)
qed

lemma map_one_page_entry_spec:
  assumes inv: "entry_inv False l t (mm_index va l) base s" and l: "l \<le> 3" "esz l dvd base"
    and va: "base \<le> unat va" "unat va < base + esz l" "page_args flags attrs va pa"
    and IH: "\<And>k nt s1. l = Suc k \<Longrightarrow> table_inv False k nt base s1 \<Longrightarrow>
      \<exists>ok s'. below nt s1 = Ret (ok, s') \<and> page_table_result k nt base flags attrs va pa s1 ok s'"
  shows "\<exists>ok s'. map_one_page_entry below env attrs l flags vid va pa t s = Ret (ok, s') \<and>
    page_entry_result l t (mm_index va l) base flags attrs va pa s ok s'"
proof -
  let ?i = "mm_index va l" and ?D = "if has flags MM_FLAG_UNMAP then \<not> arch_mm_pte_is_present (mem s t (mm_index va l)) l
      else arch_mm_pte_is_block (mem s t (mm_index va l)) l \<and> mem s t (mm_index va l) = arch_mm_block_pte l pa attrs"
  have v: "4096 dvd unat va" "unat va < 2 ^ 48" using va(3) by (simp_all add: page_args_def)
  note room = level_end_room [OF l(1) v]
  have small: "(PAGE_SIZE \<ge> mm_entry_size l \<and> (has flags MM_FLAG_UNMAP \<or> arch_mm_is_block_allowed l) \<and>
      va AND (mm_entry_size l - 1) = 0) \<longleftrightarrow> l = 0"
  proof (cases l)
    case 0
    then show ?thesis using v(1) by (simp add: word_le_nat_alt page_size_unat esz_0 arch.allowed_0 aligned_iff)
  next
    case (Suc k)
    have "4096 * 1 \<le> esz k" using esz_mono [of 0 k] by (simp add: esz_0)
    then show ?thesis using l(1) Suc by (simp add: word_le_nat_alt page_size_unat esz_Suc)
  qed
  have run: "map_one_page_entry below env attrs l flags vid va pa t s =
    (if ?D then Ret (True, s)
     else if l = 0
     then (if has flags MM_FLAG_COMMIT
           then and_then (mm_replace_entry env va (t, ?i) (new_leaf flags attrs l pa) l flags vid s) (\<lambda>s. Ret (True, s))
           else Ret (True, s))
     else and_then (mm_populate_table_pte env va (t, ?i) l flags vid s)
       (\<lambda>(nt, s). case nt of None \<Rightarrow> Ret (False, s) | Some nt \<Rightarrow> below nt s))"
    unfolding map_one_page_entry_def Let_def check_def if_P [OF room] small new_leaf_def
    by (cases "l = 0") (simp_all only: if_True if_False simp_thms)
  consider (fine) ?D | (page) "\<not> ?D" "l = 0" | (part) k where "\<not> ?D" "l = Suc k" by (cases l) auto
  then show ?thesis
  proof cases
    case fine
    then show ?thesis unfolding run using page_done [OF inv va(3) fine] by auto
  next
    case page
    have b: "unat va = base"
    proof -
      obtain k n where "base = 4096 * k" "unat va = 4096 * n" using v(1) l(2) page(2) by (auto simp: esz_0 elim!: dvdE)
      then show ?thesis using va(1,2) page(2) by (simp add: esz_0)
    qed
    show ?thesis
    proof (cases "has flags MM_FLAG_COMMIT")
      case True
      note nl = new_leaf_page [OF va(3)]
      obtain s' where r: "mm_replace_entry env va (t, ?i) (new_leaf flags attrs l pa) l flags vid s = Ret s'"
        and st: "entry_step False l t ?i base s s'" and m: "mem s' t ?i = new_leaf flags attrs l pa"
        using replace_entry_step [OF inv, of "new_leaf flags attrs l pa"] nl(1) page(2) by blast
      have "attr_at l (mem s') (mem s' t ?i) a = new_attr flags attrs" for a
        unfolding m using leaf_simps(2) [OF nl(1)] nl(2) page(2) by simp
      then have "page_entry_result l t ?i base flags attrs va pa s True s'"
        unfolding page_entry_result_def using st m b page(2) True by (simp add: attr_claim_def page_leaf_def esz_0)
      then show ?thesis using r True page unfolding run by auto
    next
      case False
      then have "page_entry_result l t ?i base flags attrs va pa s True s"
        unfolding page_entry_result_def using entry_step_refl [OF inv] by (simp add: attr_claim_def)
      then show ?thesis using False page unfolding run by auto
    qed
  next
    case (part k)
    have run': "map_one_page_entry below env attrs l flags vid va pa t s =
      and_then (mm_populate_table_pte env va (t, ?i) (Suc k) flags vid s)
       (\<lambda>(nt, s). case nt of None \<Rightarrow> Ret (False, s) | Some nt \<Rightarrow> below nt s)"
      unfolding run using part by auto
    note inv' = inv [unfolded part(2)]
    let ?j = "mm_index va (Suc k)"
    show ?thesis
      using inv'
    proof (cases rule: populate_spec [of False k t ?j base s env va flags vid])
      case existing
      from IH [OF part(2) entry_inv_table(1) [OF inv' existing(1)]] page_table_entry [OF inv' existing(1)] existing(2)
      show ?thesis unfolding run' unfolding part(2) by fastforce
    next
      case full
      have "page_entry_result (Suc k) t ?j base flags attrs va pa s False s"
        unfolding page_entry_result_def using entry_step_refl [OF inv'] populate_alloc [OF inv' full(1) _ full(2)]
        by (simp add: attr_claim_def del: can_alloc.simps) blast
      then show ?thesis using full(2) unfolding run' unfolding part(2) by auto
    next
      case (new s1)
      have inv1: "entry_inv False (Suc k) t ?j base s1" by (rule entry_step_inv [OF inv' new(3)])
      obtain ok s' where r: "below (sub_table (mem s1 t ?j) (Suc k)) s1 = Ret (ok, s')"
        and pr: "page_table_result k (sub_table (mem s1 t ?j) (Suc k)) base flags attrs va pa s1 ok s'"
        using IH [OF part(2) entry_inv_table(1) [OF inv1 new(4)]] by blast
      have "page_entry_result (Suc k) t ?j base flags attrs va pa s ok s'"
        by (rule page_entry_pre [OF new(3,5) page_table_entry [OF inv1 new(4) pr]])
          (use populate_alloc [OF inv' new(1) _ new(2)] pr in \<open>simp add: page_table_result_def del: can_alloc.simps\<close>)
      then show ?thesis using r new(2) unfolding run' unfolding part(2) by auto
    qed
  qed
qed

lemma mm_map_level_one_page_spec:
  assumes va: "page_args flags attrs va pa"
  shows "l \<le> 3 \<Longrightarrow> table_inv False l t B s \<Longrightarrow> esz (Suc l) dvd B \<Longrightarrow> B \<le> unat va \<Longrightarrow> unat va < B + esz (Suc l) \<Longrightarrow>
    \<exists>ok s'. mm_map_level_one_page l env attrs flags vid va pa t s = Ret (ok, s') \<and>
      page_table_result l t B flags attrs va pa s ok s'"
proof (induction l arbitrary: t B s)
  case 0
  note p = page_position [OF 0(3-5)]
  from map_one_page_entry_spec [OF table_inv_entry [OF 0(2) mm_index_less] 0(1) p va, of "\<lambda>_ _. Undef" env vid]
  show ?case using page_entry_table [OF 0(2-5)] va by (auto simp: page_args_def)
next
  case (Suc l)
  note p = page_position [OF Suc.prems(3-5)]
  have l: "l \<le> 3" using Suc.prems(1) by simp
  from map_one_page_entry_spec [OF table_inv_entry [OF Suc.prems(2) mm_index_less] Suc.prems(1) p va,
      where below = "mm_map_level_one_page l env attrs flags vid va pa" and env = env and vid = vid]
    Suc.IH [OF l _ p]
  obtain ok s' where "map_one_page_entry (mm_map_level_one_page l env attrs flags vid va pa) env attrs (Suc l) flags vid va pa t s = Ret (ok, s')"
    "page_entry_result (Suc l) t (mm_index va (Suc l)) (B + mm_index va (Suc l) * esz (Suc l)) flags attrs va pa s ok s'"
    by (metis nat.inject)
  then show ?case using page_entry_table [OF Suc.prems(2-5)] va by (auto simp: page_args_def)
qed

section \<open>Whole page tables\<close>

text \<open>
  The main fact about \<open>mm_ptable_map_one_page\<close>: it always returns. A page outside the address space is
  refused; otherwise only the attributes of the page may change, and after a success with commit its walk
  ends in an entry that has the wanted attributes and address.
\<close>

lemma mm_ptable_map_one_page_spec:
  assumes g: "geom_ok env flags" and at: "has flags MM_FLAG_UNMAP \<or> pte_attrs_ok attrs"
    and inv: "ptable_inv False env flags t s"
  shows "\<exists>ok s'. mm_ptable_map_one_page env t va pa attrs flags s = Ret (ok, s') \<and>
    ptable_step False env flags t s s' \<and>
    (\<forall>a. unat a < space_end env flags \<longrightarrow>
      attr_claim (has flags MM_FLAG_COMMIT \<and> ok) (new_attr flags attrs) (unat (arch_mm_clear_pa va)) (unat (arch_mm_clear_pa va) + 4096)
        (ptable_attr env flags t (mem s)) (ptable_attr env flags t (mem s')) True a) \<and>
    (ok \<longrightarrow> unat (arch_mm_clear_pa va) + 4096 \<le> space_end env flags) \<and>
    (unat (arch_mm_clear_pa va) + 4096 \<le> space_end env flags \<and> can_alloc (mm_max_level env flags) (pool s) \<longrightarrow> ok) \<and>
    (has flags MM_FLAG_COMMIT \<and> ok \<longrightarrow>
      page_leaf flags attrs (arch_mm_clear_pa pa) (ptable_leaf env flags t (mem s') (arch_mm_clear_pa va)))"
proof -
  let ?v = "arch_mm_clear_pa va" and ?p = "arch_mm_clear_pa pa" and ?l = "mm_max_level env flags"
  let ?E = "esz (Suc (mm_max_level env flags))"
  note se = space_end_unat [OF g]
  have va: "page_args flags attrs ?v ?p"
    using at pte_addr_idem pte_addr_ok_unat [of ?v] by (auto simp: page_args_def arch_mm_clear_pa_def)
  have l: "?l \<le> 3" "2 \<le> ?l + 1" using g by (simp_all add: geom_ok_def)
  have un: "unat (?v + PAGE_SIZE) = unat ?v + 4096"
    using va by (subst unat_add_no_wrap) (simp_all add: page_size_unat page_args_def)
  show ?thesis
  proof (cases "?v + PAGE_SIZE > mm_ptable_addr_space_end env flags")
    case True
    then have big: "\<not> unat ?v + 4096 \<le> space_end env flags" using un se(1) by (simp add: word_less_nat_alt)
    from True have "mm_ptable_map_one_page env t va pa attrs flags s = Ret (False, s)"
      using l by (simp add: mm_ptable_map_one_page_def Let_def)
    then show ?thesis using ptable_step_refl [OF inv] big
      by (intro exI [of _ False] exI [of _ s]) (simp add: attr_claim_def)
  next
    case False
    then have up: "unat ?v + 4096 \<le> space_end env flags" using un se(1) by (simp add: word_less_nat_alt)
    then have "unat ?v < space_end env flags" by simp
    from root_index [OF g this] obtain k where k: "k < mm_root_table_count env flags" "mm_index ?v (Suc ?l) = k"
      "k * ?E \<le> unat ?v" "unat ?v < (k + 1) * ?E" by blast
    have kE: "unat ?v < k * ?E + ?E" using k(4) by (simp add: add.commute)
    from mm_map_level_one_page_spec [OF va l(1) ptable_inv_table [OF inv k(1)] dvd_triv_right k(3) kE] obtain ok s'
      where r: "mm_map_level_one_page ?l env attrs flags (ptable_id t) ?v ?p (root_table t k) s = Ret (ok, s')"
        and pr: "page_table_result ?l (root_table t k) (k * ?E) flags attrs ?v ?p s ok s'" by blast
    have st: "table_step False ?l (root_table t k) (k * ?E) s s'" using pr by (simp add: page_table_result_def)
    have claim: "attr_claim (has flags MM_FLAG_COMMIT \<and> ok) (new_attr flags attrs) (unat ?v) (unat ?v + 4096)
        (ptable_attr env flags t (mem s)) (ptable_attr env flags t (mem s')) True a" if a: "unat a < space_end env flags" for a
    proof -
      obtain j where j: "j < mm_root_table_count env flags" "mm_index a (Suc ?l) = j" "j * ?E \<le> unat a" "unat a < (j + 1) * ?E"
        using root_index [OF g a] by blast
      show ?thesis
      proof (cases "j = k")
        case True
        then have "k * ?E \<le> unat a \<and> unat a < k * ?E + ?E" using j by (simp add: add.commute)
        then show ?thesis using pr True j(2) unfolding page_table_result_def ptable_attr_def attr_claim_def by auto
      next
        case False
        have "\<not> (unat ?v \<le> unat a \<and> unat a < unat ?v + 4096)"
        proof
          assume p: "unat ?v \<le> unat a \<and> unat a < unat ?v + 4096"
          have "4096 dvd (k + 1) * ?E" using esz_dvd [of 0 "Suc ?l"] by (simp add: esz_0)
          then obtain m n where "(k + 1) * ?E = 4096 * m" "unat ?v = 4096 * n" using va by (auto simp: page_args_def elim!: dvdE)
          then have "unat ?v + 4096 \<le> (k + 1) * ?E" using k(4) by simp
          then have "j \<le> k" using entry_before [of 0 j ?E "unat a" k] j(3) p by simp
          moreover have "k \<le> j" using entry_before [of 0 k ?E "unat a" j] j(4) k(3) p by simp
          ultimately show False using False by simp
        qed
        then show ?thesis using root_step_other_attr [OF inv k(1) st j(1,2) False] by (auto simp: attr_claim_def)
      qed
    qed
    have room: ok if "can_alloc ?l (pool s)" using pr that by (simp add: page_table_result_def)
    have leaf: "page_leaf flags attrs ?p (ptable_leaf env flags t (mem s') ?v)" if "has flags MM_FLAG_COMMIT \<and> ok"
      using pr that k(2) by (simp add: page_table_result_def ptable_leaf_def Let_def)
    have "mm_ptable_map_one_page env t va pa attrs flags s = Ret (ok, if ok then log_event Sync_writes s' else s')"
      using l False r k(1,2) by (simp add: mm_ptable_map_one_page_def mm_map_root_one_page_def Let_def)
    moreover have "ptable_step False env flags t s (if ok then log_event Sync_writes s' else s')"
      using table_step_ptable(1) [OF inv k(1) st] by (simp add: ptable_step_def ptable_pages_def)
    moreover have "mem (if ok then log_event Sync_writes s' else s') = mem s'" by simp
    ultimately show ?thesis using claim leaf up room by metis
  qed
qed

section \<open>A page inside a block\<close>

text \<open>The physical address that the leaf of an address gives to it.\<close>

definition leaf_address :: "nat \<times> u64 \<Rightarrow> u64 \<Rightarrow> nat" where
  "leaf_address leaf a = unat (arch_mm_block_from_pte (snd leaf) (fst leaf)) + unat a mod esz (fst leaf)"

lemma page_leaf_address:
  assumes "page_leaf flags attrs pa leaf" "pte_addr_ok pa" "pte_attrs_ok attrs" "\<not> has flags MM_FLAG_UNMAP"
  shows "leaf_address leaf a = unat pa + unat a mod esz (fst leaf)"
  using assms by (simp add: page_leaf_def leaf_address_def new_leaf_def arch.block_roundtrip)

text \<open>A walk that ends in a block with the wanted attributes and address changes nothing.\<close>

lemma one_page_block_walk:
  assumes va: "4096 dvd unat va" "unat va < 2 ^ 48" and u: "\<not> has flags MM_FLAG_UNMAP"
    and b: "arch_mm_pte_is_block (arch_mm_block_pte k pa attrs) k"
  shows "l \<le> 3 \<Longrightarrow> leaf_at l (mem s) (mem s t (mm_index va l)) va = (k, arch_mm_block_pte k pa attrs) \<Longrightarrow>
    mm_map_level_one_page l env attrs flags vid va pa t s = Ret (True, s)"
proof (induction l arbitrary: t)
  case 0
  then show ?case
    using level_end_room [OF _ va, of 0] b u by (auto simp: map_one_page_entry_def check_def Let_def)
next
  case (Suc l)
  let ?pte = "mem s t (mm_index va (Suc l))"
  note room = level_end_room [OF Suc.prems(1) va]
  show ?case
  proof (cases "arch_mm_pte_is_table ?pte (Suc l)")
    case False
    then show ?thesis
      using Suc.prems(2) b u room by (auto simp: map_one_page_entry_def check_def Let_def)
  next
    case True
    have nb: "\<not> arch_mm_pte_is_block ?pte (Suc l)" using True arch.kinds_disjoint by blast
    have big: "\<not> mm_entry_size (Suc l) \<le> PAGE_SIZE"
      using Suc.prems(1) esz_mono [of 0 l] by (simp add: word_le_nat_alt page_size_unat esz_Suc esz_0)
    have "mm_map_level_one_page l env attrs flags vid va pa (sub_table ?pte (Suc l)) s = Ret (True, s)"
      by (rule Suc.IH) (use Suc.prems True in simp_all)
    then show ?thesis
      using u room nb big populate_existing [OF True, of env va flags vid]
      by (simp add: map_one_page_entry_def check_def Let_def del: and_then_eq_Ret)
  qed
qed

lemma map_one_page_in_block:
  assumes g: "geom_ok env flags" and u: "\<not> has flags MM_FLAG_UNMAP"
    and b: "arch_mm_pte_is_block (arch_mm_block_pte k (arch_mm_clear_pa pa) attrs) k"
    and sp: "unat (arch_mm_clear_pa va) + 4096 \<le> space_end env flags"
    and leaf: "ptable_leaf env flags t (mem s) (arch_mm_clear_pa va) = (k, arch_mm_block_pte k (arch_mm_clear_pa pa) attrs)"
  shows "mm_ptable_map_one_page env t va pa attrs flags s = Ret (True, log_event Sync_writes s)"
proof -
  let ?v = "arch_mm_clear_pa va" and ?l = "mm_max_level env flags"
  have va: "4096 dvd unat ?v" "unat ?v < 2 ^ 48"
    using pte_addr_idem pte_addr_ok_unat [of ?v] by (simp_all add: arch_mm_clear_pa_def)
  have l: "?l \<le> 3" "2 \<le> ?l + 1" using g by (simp_all add: geom_ok_def)
  have "unat (?v + PAGE_SIZE) = unat ?v + 4096"
    using va(2) by (subst unat_add_no_wrap) (simp_all add: page_size_unat)
  then have le: "\<not> ?v + PAGE_SIZE > mm_ptable_addr_space_end env flags"
    using sp space_end_unat(1) [OF g] by (simp add: word_less_nat_alt)
  have "unat ?v < space_end env flags" using sp by simp
  then have k: "mm_index ?v (Suc ?l) < mm_root_table_count env flags" using root_index [OF g] by metis
  have "mm_map_level_one_page ?l env attrs flags (ptable_id t) ?v (arch_mm_clear_pa pa) (root_table t (mm_index ?v (Suc ?l))) s = Ret (True, s)"
    by (rule one_page_block_walk [OF va u b l(1)]) (use leaf in \<open>simp add: ptable_leaf_def Let_def\<close>)
  then show ?thesis using l le k by (simp add: mm_ptable_map_one_page_def mm_map_root_one_page_def Let_def)
qed

text \<open>A table that maps addresses to themselves is a table.\<close>

lemma pte_ok_weaken: "pte_ok True l m base pte \<Longrightarrow> pte_ok False l m base pte"
  by (induction l arbitrary: base pte) (auto simp: leaf_ok_def Let_def)

lemma ptable_inv_weaken: "ptable_inv True env flags t s \<Longrightarrow> ptable_inv False env flags t s"
  using pte_ok_weaken by (auto simp: ptable_inv_def ptable_ok_def table_ok_def)

end
