(* ===== verification/MM_Page_Props.thy ===== *)
theory MM_Page_Props
  imports MM_Props MM_Page
begin

text \<open>
  The properties of mapping single pages, \<open>mm_map_va_at_pa\<close> and \<open>mm_map_va_at_pa_stage2\<close> of
  \<^verbatim>\<open>src/mm.c\<close>.
\<close>

section \<open>Mapping a page\<close>






text \<open>
  C36: A page inside a block is not remapped when the block is based at the physical page asked for. If the
  walk of the page ends in a block of that base with the wanted attributes, the call reports
  success without writing anything, and the page goes on being translated to its own offset in the
  block: to another page than the one asked for, unless it is the first page of the block.
\<close>

theorem one_page_in_block_ignored:
  assumes "geom_ok env flags" "\<not> has flags MM_FLAG_UNMAP" "arch_mm_is_block_allowed k" "pte_attrs_ok attrs"
    and "unat (arch_mm_clear_pa va) + 4096 \<le> space_end env flags"
    and "ptable_leaf env flags t (mem s) (arch_mm_clear_pa va) = (k, arch_mm_block_pte k (arch_mm_clear_pa pa) attrs)"
  shows "\<exists>s'. mm_ptable_map_one_page env t va pa attrs flags s = Ret (True, s') \<and> mem s' = mem s \<and>
    leaf_address (ptable_leaf env flags t (mem s') (arch_mm_clear_pa va)) (arch_mm_clear_pa va) =
      unat (arch_mm_clear_pa pa) + unat (arch_mm_clear_pa va) mod esz k"
proof -
  have pa: "pte_addr_ok (arch_mm_clear_pa pa)" using pte_addr_idem by (simp add: arch_mm_clear_pa_def)
  have b: "arch_mm_pte_is_block (arch_mm_block_pte k (arch_mm_clear_pa pa) attrs) k"
    using arch.block_kind [OF assms(3) pa assms(4)] by simp
  have "leaf_address (ptable_leaf env flags t (mem s) (arch_mm_clear_pa va)) (arch_mm_clear_pa va) =
      unat (arch_mm_clear_pa pa) + unat (arch_mm_clear_pa va) mod esz k"
    unfolding assms(6) leaf_address_def using arch.block_roundtrip(1) [OF pa assms(4)] by simp
  then show ?thesis using map_one_page_in_block [OF assms(1,2) b assms(5,6)] by simp
qed

text \<open>A gigabyte mapped to itself by one block.\<close>

definition sample_block_state :: mm_state where
  "sample_block_state = sample_state\<lparr>mem := (\<lambda>t i. if i = 1 then arch_mm_block_pte 2 0x40000000 0x401 else 0)\<rparr>"

theorem one_page_in_block_ignored_witness:
  "\<exists>s'. mm_ptable_map_one_page sample_env sample_ptable 0x40001000 0x40000000 0x401 MM_FLAG_COMMIT sample_block_state = Ret (True, s') \<and>
    leaf_address (ptable_leaf sample_env MM_FLAG_COMMIT sample_ptable (mem s') 0x40001000) 0x40001000 = 0x40001000"
proof -
  have at: "pte_attrs_ok 0x401" using sample_attrs_ok by (simp add: has_def)
  have pa: "arch_mm_clear_pa 0x40000000 = 0x40000000" "arch_mm_clear_pa 0x40001000 = 0x40001000"
    by (simp_all add: arch_mm_clear_pa_def pte_addr_def PTE_ADDR_MASK_def PAGE_BITS_def)
  have f: "\<not> has MM_FLAG_COMMIT MM_FLAG_UNMAP" "same_view MM_FLAG_COMMIT 0" "arch_mm_is_block_allowed 2"
    by (simp_all add: has_def MM_FLAG_COMMIT_def MM_FLAG_UNMAP_def MM_FLAG_STAGE1_def same_view_def arch_mm_is_block_allowed_def)
  note sv = same_view_ptable [OF f(2)]
  have i: "mm_index 0x40001000 2 = 1" by (simp add: mm_index_unat esz_def)
  have nt: "\<not> arch_mm_pte_is_table (arch_mm_block_pte 2 0x40000000 0x401) 2"
    using arch.block_not_table [OF f(3) _ at] pte_addr_ok_unat [of "0x40000000"] by simp
  have leaf: "ptable_leaf sample_env MM_FLAG_COMMIT sample_ptable (mem sample_block_state) 0x40001000 = (2, arch_mm_block_pte 2 0x40000000 0x401)"
    unfolding ptable_leaf_def Let_def sample_geometry sample_block_state_def using i leaf_at_not_table [OF nt] by simp
  from one_page_in_block_ignored [where env = sample_env and flags = MM_FLAG_COMMIT and k = 2 and attrs = "0x401" and
      va = "0x40001000" and pa = "0x40000000" and t = sample_ptable and s = sample_block_state, unfolded pa, OF _ f(1,3) at _ leaf]
  show ?thesis using sample_geom_ok(1,3) sv by (auto simp: esz_def)
qed

end
