(* ===== verification/VM_Types.thy ===== *)
theory VM_Types
  imports MM
begin

text \<open>
  The data of the partition manager: registers, virtual interrupts, vCPUs, mailboxes,
  notifications, VMs and CPUs (\<^verbatim>\<open>inc/hf/vm.h\<close>, \<^verbatim>\<open>inc/hf/vcpu.h\<close>, \<^verbatim>\<open>inc/hf/cpu.h\<close>,
  \<^verbatim>\<open>inc/hf/arch/types.h\<close>, \<^verbatim>\<open>inc/vmapi/hf/ffa.h\<close>). An array is a list of its length. A pointer
  to a VM is a reference to one of the tables the VMs live in, a pointer to a vCPU such a
  reference with an index. The spinlocks have no value: every function is called with the
  locks it needs held.
\<close>

section \<open>Partition identifiers\<close>

definition HF_INVALID_VM_ID :: u16 where "HF_INVALID_VM_ID = 0x7fff"
definition HF_VM_ID_WORLD_MASK :: u16 where "HF_VM_ID_WORLD_MASK = 0x8000"
definition HF_HYPERVISOR_VM_ID :: u16 where "HF_HYPERVISOR_VM_ID = 0"
definition HF_TEE_VM_ID :: u16 where "HF_TEE_VM_ID = 0x8000"
definition HF_SPMC_VM_ID :: u16 where "HF_SPMC_VM_ID = 0x8000"
definition HF_SPMD_VM_ID :: u16 where "HF_SPMD_VM_ID = 0xffff"

text \<open>The argument is \<open>SECURE_WORLD == 1\<close>.\<close>

definition HF_VM_ID_BASE :: "bool \<Rightarrow> u16" where
  "HF_VM_ID_BASE secure_world = (if secure_world then 0x8000 else 0)"

definition HF_OTHER_WORLD_ID :: "bool \<Rightarrow> u16" where
  "HF_OTHER_WORLD_ID secure_world = (if secure_world then HF_HYPERVISOR_VM_ID else HF_TEE_VM_ID)"

definition HF_VM_ID_OFFSET :: "bool \<Rightarrow> u16" where
  "HF_VM_ID_OFFSET secure_world = HF_VM_ID_BASE secure_world + 1"

lemmas vm_id_defs = HF_INVALID_VM_ID_def HF_VM_ID_WORLD_MASK_def HF_HYPERVISOR_VM_ID_def HF_TEE_VM_ID_def
  HF_SPMC_VM_ID_def HF_SPMD_VM_ID_def HF_VM_ID_BASE_def HF_OTHER_WORLD_ID_def HF_VM_ID_OFFSET_def

section \<open>FF-A calls\<close>

record ffa_value =
  func :: u64
  arg1 :: u64
  arg2 :: u64
  arg3 :: u64
  arg4 :: u64
  arg5 :: u64
  arg6 :: u64
  arg7 :: u64

section \<open>Registers of a vCPU\<close>

text \<open>The members of the \<open>lazy\<close> bank of \<open>struct arch_regs\<close>.\<close>

datatype lazy_reg =
    Sctlr_el1 | Cpacr_el1 | Ttbr0_el1 | Ttbr1_el1 | Tcr_el1 | Esr_el1 | Afsr0_el1 | Afsr1_el1 | Far_el1
  | Mair_el1 | Vbar_el1 | Contextidr_el1 | Amair_el1 | Cntkctl_el1 | Elr_el1 | Spsr_el1 | Vmpidr_el2
  | Csselr_el1 | Actlr_el1 | Tpidr_el0 | Tpidrro_el0 | Tpidr_el1 | Sp_el0 | Sp_el1 | Vtcr_el2 | Vttbr_el2
  | Vstcr_el2 | Vsttbr_el2 | Mdcr_el2 | Mdscr_el1 | Pmccfiltr_el0 | Pmcr_el0 | Pmcntenset_el0
  | Pmintenset_el1 | Cnthctl_el2 | Par_el1

definition NUM_GP_REGS :: nat where "NUM_GP_REGS = 31"

record arch_regs =
  r_gp :: "u64 list"
  r_pc :: u64
  r_spsr :: u64
  r_hcr_el2 :: u64
  r_ttbr0_el2 :: u64
  r_lazy :: "lazy_reg \<Rightarrow> u64"
  r_fp :: "nat \<Rightarrow> u64 \<times> u64"
  r_fpsr :: u64
  r_fpcr :: u64
  r_ich_hcr_el2 :: u64
  r_icc_sre_el2 :: u64
  r_cntv_cval_el0 :: u64
  r_cntv_ctl_el0 :: u64

definition zero_regs :: arch_regs where
  "zero_regs = \<lparr>r_gp = replicate NUM_GP_REGS 0, r_pc = 0, r_spsr = 0, r_hcr_el2 = 0, r_ttbr0_el2 = 0,
     r_lazy = \<lambda>_. 0, r_fp = \<lambda>_. (0, 0), r_fpsr = 0, r_fpcr = 0, r_ich_hcr_el2 = 0, r_icc_sre_el2 = 0,
     r_cntv_cval_el0 = 0, r_cntv_ctl_el0 = 0\<rparr>"

record arch_vm =
  last_vcpu_on_cpu :: "u16 list"
  trapped_features :: u64
  mask_mmfr1 :: u64
  mask_pfr0 :: u64
  mask_dfr0 :: u64
  mask_isar1 :: u64

section \<open>vCPUs\<close>

datatype vcpu_state =
    VCPU_STATE_OFF | VCPU_STATE_RUNNING | VCPU_STATE_WAITING | VCPU_STATE_BLOCKED | VCPU_STATE_PREEMPTED
  | VCPU_STATE_BLOCKED_INTERRUPT | VCPU_STATE_ABORTED

datatype interrupt_type = INTERRUPT_TYPE_IRQ | INTERRUPT_TYPE_FIQ

record interrupts =
  int_enabled :: "u32 list"
  int_pending :: "u32 list"
  int_type :: "u32 list"
  irq_count :: u32
  fiq_count :: u32

text \<open>A VM in the table of this world, the other world's, or in the SPMC's table of normal world VMs.\<close>

datatype vm_ref = Vm nat | Other_world | Nwd nat

type_synonym vcpu_ref = "vm_ref \<times> nat"

record vcpu =
  vc_state :: vcpu_state
  vc_is_bootstrapped :: bool
  vc_cpu :: "nat option"
  vc_regs :: arch_regs
  vc_interrupts :: interrupts
  vc_regs_available :: bool
  vc_direct_request_origin_vm_id :: u16
  vc_processing_managed_exit :: bool
  vc_processing_secure_interrupt :: bool
  vc_secure_interrupt_deactivated :: bool
  vc_current_sec_interrupt_id :: u32
  vc_preempted_vcpu :: "vcpu_ref option"
  vc_priority_mask :: u8
  vc_implicit_completion_signal :: bool

section \<open>Mailboxes\<close>

datatype mailbox_state = MAILBOX_STATE_EMPTY | MAILBOX_STATE_RECEIVED | MAILBOX_STATE_READ

text \<open>
  A null pointer is 0. A wait entry of a VM is named by its VM and its index, the VM it waits
  for; an entry in the waiter list of a VM is one for that VM, so the list holds the waiting
  VMs, and an entry in the ready list of a VM is its own, so the list holds the indices.
\<close>

record mailbox =
  mb_state :: mailbox_state
  mb_recv :: u64
  mb_send :: u64
  mb_recv_sender :: u16
  mb_recv_size :: u32
  mb_recv_func :: u32
  mb_waiter_list :: "vm_ref list"
  mb_ready_list :: "nat list"

section \<open>Notifications\<close>

record notifications_state =
  n_pending :: u64
  n_info_get_retrieved :: u64

record notifications =
  bindings_sender_id :: "u16 list"
  bindings_per_vcpu :: u64
  n_per_vcpu :: "notifications_state list"
  n_global :: notifications_state

record vm_notifications =
  from_vm :: notifications
  from_sp :: notifications
  framework :: notifications_state
  n_enabled :: bool
  n_npi_injected :: bool

section \<open>VMs\<close>

record smc_whitelist =
  smcs :: "u32 list"
  smc_count :: u16
  permissive :: bool

record interrupt_descriptor =
  interrupt_id :: u32
  type_config_sec_state :: u8
  int_priority :: u8
  int_valid :: bool

record vm =
  vm_id :: u16
  vm_uuid :: "u32 list"
  vm_ffa_version :: u32
  vm_smc_whitelist :: smc_whitelist
  vm_vcpu_count :: u16
  vm_vcpus :: "vcpu list"
  vm_ptable :: mm_ptable
  vm_mailbox :: mailbox
  vm_notifs :: vm_notifications
  vm_log_buffer :: "u8 list"
  vm_log_buffer_length :: u16
  vm_aborting :: bool
  vm_initialized :: bool
  vm_boot_order :: u16
  vm_gp_register_num :: u32
  vm_blob_addr :: u64
  vm_messaging_method :: u8
  vm_managed_exit :: bool
  vm_next_boot :: "vm_ref option"
  vm_secondary_ep :: u64
  vm_arch :: arch_vm
  vm_el0_partition :: bool
  vm_interrupt_desc :: "interrupt_descriptor list"

section \<open>CPUs\<close>

record cpu =
  cpu_id :: u64
  cpu_stack_bottom :: u64
  cpu_is_on :: bool

section \<open>Zeroed structures\<close>

text \<open>What \<open>memset_s\<close> leaves in a structure whose arrays have the given lengths.\<close>

definition zero_interrupts :: "nat \<Rightarrow> interrupts" where
  "zero_interrupts n = \<lparr>int_enabled = replicate n 0, int_pending = replicate n 0, int_type = replicate n 0,
     irq_count = 0, fiq_count = 0\<rparr>"

definition zero_vcpu :: "nat \<Rightarrow> vcpu" where
  "zero_vcpu n = \<lparr>vc_state = VCPU_STATE_OFF, vc_is_bootstrapped = False, vc_cpu = None, vc_regs = zero_regs,
     vc_interrupts = zero_interrupts n, vc_regs_available = False, vc_direct_request_origin_vm_id = 0,
     vc_processing_managed_exit = False, vc_processing_secure_interrupt = False,
     vc_secure_interrupt_deactivated = False, vc_current_sec_interrupt_id = 0, vc_preempted_vcpu = None,
     vc_priority_mask = 0, vc_implicit_completion_signal = False\<rparr>"

definition zero_mailbox :: mailbox where
  "zero_mailbox = \<lparr>mb_state = MAILBOX_STATE_EMPTY, mb_recv = 0, mb_send = 0, mb_recv_sender = 0, mb_recv_size = 0,
     mb_recv_func = 0, mb_waiter_list = [], mb_ready_list = []\<rparr>"

definition zero_notifications :: "nat \<Rightarrow> notifications" where
  "zero_notifications max_cpus = \<lparr>bindings_sender_id = replicate 64 0, bindings_per_vcpu = 0,
     n_per_vcpu = replicate max_cpus \<lparr>n_pending = 0, n_info_get_retrieved = 0\<rparr>,
     n_global = \<lparr>n_pending = 0, n_info_get_retrieved = 0\<rparr>\<rparr>"

definition zero_vm :: "nat \<Rightarrow> nat \<Rightarrow> vm" where
  "zero_vm max_cpus int_words = \<lparr>vm_id = 0, vm_uuid = replicate 4 0, vm_ffa_version = 0,
     vm_smc_whitelist = \<lparr>smcs = replicate 32 0, smc_count = 0, permissive = False\<rparr>,
     vm_vcpu_count = 0, vm_vcpus = replicate max_cpus (zero_vcpu int_words),
     vm_ptable = \<lparr>ptable_id = 0, ptable_root = 0\<rparr>, vm_mailbox = zero_mailbox,
     vm_notifs = \<lparr>from_vm = zero_notifications max_cpus, from_sp = zero_notifications max_cpus,
       framework = \<lparr>n_pending = 0, n_info_get_retrieved = 0\<rparr>, n_enabled = False, n_npi_injected = False\<rparr>,
     vm_log_buffer = replicate 256 0, vm_log_buffer_length = 0, vm_aborting = False, vm_initialized = False,
     vm_boot_order = 0, vm_gp_register_num = 0, vm_blob_addr = 0, vm_messaging_method = 0,
     vm_managed_exit = False, vm_next_boot = None, vm_secondary_ep = 0,
     vm_arch = \<lparr>last_vcpu_on_cpu = replicate max_cpus 0, trapped_features = 0, mask_mmfr1 = 0, mask_pfr0 = 0,
       mask_dfr0 = 0, mask_isar1 = 0\<rparr>,
     vm_el0_partition = False,
     vm_interrupt_desc = replicate 32 \<lparr>interrupt_id = 0, type_config_sec_state = 0, int_priority = 0, int_valid = False\<rparr>\<rparr>"

end
