(* ===== verification/Trap_Regs.thy ===== *)
theory Trap_Regs
  imports VM_Types Arch_Init
begin

text \<open>
  System registers trapped to the hypervisor: the syndrome fields of
  \<^verbatim>\<open>src/arch/aarch64/sysregs.h\<close>, the register tables and accesses of
  \<^verbatim>\<open>hypervisor/debug_el1.c\<close>, \<^verbatim>\<open>hypervisor/perfmon.c\<close> and \<^verbatim>\<open>hypervisor/feature_id.c\<close>, the injection
  of exceptions and \<open>handle_system_register_access\<close> of \<^verbatim>\<open>hypervisor/handler.c\<close>. The system
  registers of the processor are a map from their names to values; the messages to the debug log are
  left out.
\<close>

type_synonym msr_bank = "string \<Rightarrow> u64"

section \<open>Fields of the syndrome register\<close>

definition ESR_EC_OFFSET :: nat where "ESR_EC_OFFSET = 26"
definition GET_ESR_EC :: "u64 \<Rightarrow> u64" where "GET_ESR_EC esr = drop_bit ESR_EC_OFFSET esr"
definition GET_ESR_IL :: "u64 \<Rightarrow> u64" where "GET_ESR_IL esr = esr AND push_bit 25 1"
definition EC_UNKNOWN :: u64 where "EC_UNKNOWN = 0"
definition EC_MSR :: u64 where "EC_MSR = 0x18"
definition EC_INSTRUCTION_ABORT_SAME_EL :: u64 where "EC_INSTRUCTION_ABORT_SAME_EL = 0x21"
definition EC_DATA_ABORT_SAME_EL :: u64 where "EC_DATA_ABORT_SAME_EL = 0x25"
definition ISS_MASK :: u64 where "ISS_MASK = push_bit 22 1 - 1"
definition GET_ESR_ISS :: "u64 \<Rightarrow> u64" where "GET_ESR_ISS esr = ISS_MASK AND esr"
definition ISS_OP0_MASK :: u64 where "ISS_OP0_MASK = 0x300000"
definition ISS_OP0_SHIFT :: nat where "ISS_OP0_SHIFT = 20"
definition GET_ISS_OP0 :: "u64 \<Rightarrow> u64" where "GET_ISS_OP0 esr = drop_bit ISS_OP0_SHIFT (ISS_OP0_MASK AND esr)"
definition ISS_OP1_MASK :: u64 where "ISS_OP1_MASK = 0x1c000"
definition ISS_OP1_SHIFT :: nat where "ISS_OP1_SHIFT = 14"
definition GET_ISS_OP1 :: "u64 \<Rightarrow> u64" where "GET_ISS_OP1 esr = drop_bit ISS_OP1_SHIFT (ISS_OP1_MASK AND esr)"
definition ISS_OP2_MASK :: u64 where "ISS_OP2_MASK = 0xe0000"
definition ISS_OP2_SHIFT :: nat where "ISS_OP2_SHIFT = 17"
definition GET_ISS_OP2 :: "u64 \<Rightarrow> u64" where "GET_ISS_OP2 esr = drop_bit ISS_OP2_SHIFT (ISS_OP2_MASK AND esr)"
definition ISS_CRN_MASK :: u64 where "ISS_CRN_MASK = 0x3c00"
definition ISS_CRN_SHIFT :: nat where "ISS_CRN_SHIFT = 10"
definition GET_ISS_CRN :: "u64 \<Rightarrow> u64" where "GET_ISS_CRN esr = drop_bit ISS_CRN_SHIFT (ISS_CRN_MASK AND esr)"
definition ISS_CRM_MASK :: u64 where "ISS_CRM_MASK = 0x1e"
definition ISS_CRM_SHIFT :: nat where "ISS_CRM_SHIFT = 1"
definition GET_ISS_CRM :: "u64 \<Rightarrow> u64" where "GET_ISS_CRM esr = drop_bit ISS_CRM_SHIFT (ISS_CRM_MASK AND esr)"
definition ISS_RT_MASK :: u64 where "ISS_RT_MASK = 0x3e0"
definition ISS_RT_SHIFT :: nat where "ISS_RT_SHIFT = 5"
definition GET_ISS_RT :: "u64 \<Rightarrow> u64" where "GET_ISS_RT esr = drop_bit ISS_RT_SHIFT (ISS_RT_MASK AND esr)"
definition ISS_DIRECTION_MASK :: u64 where "ISS_DIRECTION_MASK = 1"
definition ISS_IS_READ :: "u64 \<Rightarrow> bool" where "ISS_IS_READ esr \<longleftrightarrow> ISS_DIRECTION_MASK AND esr \<noteq> 0"
definition RT_REG_XZR :: u64 where "RT_REG_XZR = 31"

definition ISS_SYSREG_MASK :: u64 where
  "ISS_SYSREG_MASK = ISS_MASK AND NOT ISS_RT_MASK AND NOT ISS_DIRECTION_MASK"

definition GET_ISS_SYSREG :: "u64 \<Rightarrow> u64" where "GET_ISS_SYSREG esr = ISS_SYSREG_MASK AND esr"

definition GET_ISS_ENCODING :: "u64 \<Rightarrow> u64 \<Rightarrow> u64 \<Rightarrow> u64 \<Rightarrow> u64 \<Rightarrow> u64" where
  "GET_ISS_ENCODING op0 op1 crn crm op2 =
     push_bit ISS_OP0_SHIFT op0 OR push_bit ISS_OP2_SHIFT op2 OR push_bit ISS_OP1_SHIFT op1 OR
     push_bit ISS_CRN_SHIFT crn OR push_bit ISS_CRM_SHIFT crm"

definition GET_NEXT_PC_INC :: "u64 \<Rightarrow> u64" where
  "GET_NEXT_PC_INC esr = (if GET_ESR_IL esr \<noteq> 0 then 4 else 2)"

lemmas iss_defs = GET_ISS_OP0_def GET_ISS_OP1_def GET_ISS_OP2_def GET_ISS_CRN_def GET_ISS_CRM_def
  GET_ISS_RT_def ISS_OP0_MASK_def ISS_OP1_MASK_def ISS_OP2_MASK_def ISS_CRN_MASK_def ISS_CRM_MASK_def
  ISS_RT_MASK_def ISS_OP0_SHIFT_def ISS_OP1_SHIFT_def ISS_OP2_SHIFT_def ISS_CRN_SHIFT_def
  ISS_CRM_SHIFT_def ISS_RT_SHIFT_def ISS_IS_READ_def ISS_DIRECTION_MASK_def ISS_SYSREG_MASK_def
  ISS_MASK_def GET_ISS_SYSREG_def

section \<open>Register tables\<close>

text \<open>A row has the name of a register, then \<open>op0\<close>, \<open>op1\<close>, \<open>crn\<close>, \<open>crm\<close> and \<open>op2\<close>.\<close>

type_synonym sysreg_row = "string \<times> nat \<times> nat \<times> nat \<times> nat \<times> nat"

definition row_name :: "sysreg_row \<Rightarrow> string" where
  "row_name = (\<lambda>(name, _). name)"

definition row_encoding :: "sysreg_row \<Rightarrow> u64" where
  "row_encoding = (\<lambda>(_, op0, op1, crn, crm, op2).
     GET_ISS_ENCODING (of_nat op0) (of_nat op1) (of_nat crn) (of_nat crm) (of_nat op2))"

text \<open>The \<open>switch\<close> over the encodings of a table.\<close>

definition select_reg :: "sysreg_row list \<Rightarrow> u64 \<Rightarrow> string option" where
  "select_reg table sys_register = map_of (map (\<lambda>row. (row_encoding row, row_name row)) table) sys_register"

definition EL1_DEBUG_REGISTERS_READ :: "sysreg_row list" where
  "EL1_DEBUG_REGISTERS_READ = [
     (''MDRAR_EL1'', 2, 0, 1, 0, 0),
     (''OSLSR_EL1'', 2, 0, 1, 1, 4),
     (''DBGAUTHSTATUS_EL1'', 2, 0, 7, 14, 6)]"

definition EL1_DEBUG_REGISTERS_WRITE :: "sysreg_row list" where
  "EL1_DEBUG_REGISTERS_WRITE = [
     (''OSLAR_EL1'', 2, 0, 1, 0, 4)]"

definition EL1_DEBUG_REGISTERS_READ_WRITE :: "sysreg_row list" where
  "EL1_DEBUG_REGISTERS_READ_WRITE = [
     (''OSDTRRX_EL1'', 2, 0, 0, 0, 2),
     (''MDCCINT_EL1'', 2, 0, 0, 2, 0),
     (''MDSCR_EL1'', 2, 0, 0, 2, 2),
     (''OSDTRTX_EL1'', 2, 0, 0, 3, 2),
     (''OSECCR_EL1'', 2, 0, 0, 6, 2),
     (''DBGBVR0_EL1'', 2, 0, 0, 0, 4),
     (''DBGBVR1_EL1'', 2, 0, 0, 1, 4),
     (''DBGBVR2_EL1'', 2, 0, 0, 2, 4),
     (''DBGBVR3_EL1'', 2, 0, 0, 3, 4),
     (''DBGBVR4_EL1'', 2, 0, 0, 4, 4),
     (''DBGBVR5_EL1'', 2, 0, 0, 5, 4),
     (''DBGBVR6_EL1'', 2, 0, 0, 6, 4),
     (''DBGBVR7_EL1'', 2, 0, 0, 7, 4),
     (''DBGBVR8_EL1'', 2, 0, 0, 8, 4),
     (''DBGBVR9_EL1'', 2, 0, 0, 9, 4),
     (''DBGBVR10_EL1'', 2, 0, 0, 10, 4),
     (''DBGBVR11_EL1'', 2, 0, 0, 11, 4),
     (''DBGBVR12_EL1'', 2, 0, 0, 12, 4),
     (''DBGBVR13_EL1'', 2, 0, 0, 13, 4),
     (''DBGBVR14_EL1'', 2, 0, 0, 14, 4),
     (''DBGBVR15_EL1'', 2, 0, 0, 15, 4),
     (''DBGBCR0_EL1'', 2, 0, 0, 0, 5),
     (''DBGBCR1_EL1'', 2, 0, 0, 1, 5),
     (''DBGBCR2_EL1'', 2, 0, 0, 2, 5),
     (''DBGBCR3_EL1'', 2, 0, 0, 3, 5),
     (''DBGBCR4_EL1'', 2, 0, 0, 4, 5),
     (''DBGBCR5_EL1'', 2, 0, 0, 5, 5),
     (''DBGBCR6_EL1'', 2, 0, 0, 6, 5),
     (''DBGBCR7_EL1'', 2, 0, 0, 7, 5),
     (''DBGBCR8_EL1'', 2, 0, 0, 8, 5),
     (''DBGBCR9_EL1'', 2, 0, 0, 9, 5),
     (''DBGBCR10_EL1'', 2, 0, 0, 10, 5),
     (''DBGBCR11_EL1'', 2, 0, 0, 11, 5),
     (''DBGBCR12_EL1'', 2, 0, 0, 12, 5),
     (''DBGBCR13_EL1'', 2, 0, 0, 13, 5),
     (''DBGBCR14_EL1'', 2, 0, 0, 14, 5),
     (''DBGBCR15_EL1'', 2, 0, 0, 15, 5),
     (''DBGWVR0_EL1'', 2, 0, 0, 0, 6),
     (''DBGWVR1_EL1'', 2, 0, 0, 1, 6),
     (''DBGWVR2_EL1'', 2, 0, 0, 2, 6),
     (''DBGWVR3_EL1'', 2, 0, 0, 3, 6),
     (''DBGWVR4_EL1'', 2, 0, 0, 4, 6),
     (''DBGWVR5_EL1'', 2, 0, 0, 5, 6),
     (''DBGWVR6_EL1'', 2, 0, 0, 6, 6),
     (''DBGWVR7_EL1'', 2, 0, 0, 7, 6),
     (''DBGWVR8_EL1'', 2, 0, 0, 8, 6),
     (''DBGWVR9_EL1'', 2, 0, 0, 9, 6),
     (''DBGWVR10_EL1'', 2, 0, 0, 10, 6),
     (''DBGWVR11_EL1'', 2, 0, 0, 11, 6),
     (''DBGWVR12_EL1'', 2, 0, 0, 12, 6),
     (''DBGWVR13_EL1'', 2, 0, 0, 13, 6),
     (''DBGWVR14_EL1'', 2, 0, 0, 14, 6),
     (''DBGWVR15_EL1'', 2, 0, 0, 15, 6),
     (''DBGWCR0_EL1'', 2, 0, 0, 0, 7),
     (''DBGWCR1_EL1'', 2, 0, 0, 1, 7),
     (''DBGWCR2_EL1'', 2, 0, 0, 2, 7),
     (''DBGWCR3_EL1'', 2, 0, 0, 3, 7),
     (''DBGWCR4_EL1'', 2, 0, 0, 4, 7),
     (''DBGWCR5_EL1'', 2, 0, 0, 5, 7),
     (''DBGWCR6_EL1'', 2, 0, 0, 6, 7),
     (''DBGWCR7_EL1'', 2, 0, 0, 7, 7),
     (''DBGWCR8_EL1'', 2, 0, 0, 8, 7),
     (''DBGWCR9_EL1'', 2, 0, 0, 9, 7),
     (''DBGWCR10_EL1'', 2, 0, 0, 10, 7),
     (''DBGWCR11_EL1'', 2, 0, 0, 11, 7),
     (''DBGWCR12_EL1'', 2, 0, 0, 12, 7),
     (''DBGWCR13_EL1'', 2, 0, 0, 13, 7),
     (''DBGWCR14_EL1'', 2, 0, 0, 14, 7),
     (''DBGWCR15_EL1'', 2, 0, 0, 15, 7),
     (''OSDLR_EL1'', 2, 0, 1, 3, 4),
     (''DBGPRCR_EL1'', 2, 0, 1, 4, 4),
     (''DBGCLAIMSET_EL1'', 2, 0, 7, 8, 6),
     (''DBGCLAIMCLR_EL1'', 2, 0, 7, 9, 6)]"

definition PERFMON_REGISTERS_READ :: "sysreg_row list" where
  "PERFMON_REGISTERS_READ = [
     (''PMCEID0_EL0'', 3, 3, 9, 12, 6),
     (''PMCEID1_EL0'', 3, 3, 9, 12, 7),
     (''PMEVCNTR0_EL0'', 3, 3, 14, 8, 0),
     (''PMEVCNTR1_EL0'', 3, 3, 14, 8, 1),
     (''PMEVCNTR2_EL0'', 3, 3, 14, 8, 2),
     (''PMEVCNTR3_EL0'', 3, 3, 14, 8, 3),
     (''PMEVCNTR4_EL0'', 3, 3, 14, 8, 4),
     (''PMEVCNTR5_EL0'', 3, 3, 14, 8, 5),
     (''PMEVCNTR6_EL0'', 3, 3, 14, 8, 6),
     (''PMEVCNTR7_EL0'', 3, 3, 14, 8, 7),
     (''PMEVCNTR8_EL0'', 3, 3, 14, 9, 0),
     (''PMEVCNTR9_EL0'', 3, 3, 14, 9, 1),
     (''PMEVCNTR10_EL0'', 3, 3, 14, 9, 2),
     (''PMEVCNTR11_EL0'', 3, 3, 14, 9, 3),
     (''PMEVCNTR12_EL0'', 3, 3, 14, 9, 4),
     (''PMEVCNTR13_EL0'', 3, 3, 14, 9, 5),
     (''PMEVCNTR14_EL0'', 3, 3, 14, 9, 6),
     (''PMEVCNTR15_EL0'', 3, 3, 14, 9, 7),
     (''PMEVCNTR16_EL0'', 3, 3, 14, 10, 0),
     (''PMEVCNTR17_EL0'', 3, 3, 14, 10, 1),
     (''PMEVCNTR18_EL0'', 3, 3, 14, 10, 2),
     (''PMEVCNTR19_EL0'', 3, 3, 14, 10, 3),
     (''PMEVCNTR20_EL0'', 3, 3, 14, 10, 4),
     (''PMEVCNTR21_EL0'', 3, 3, 14, 10, 5),
     (''PMEVCNTR22_EL0'', 3, 3, 14, 10, 6),
     (''PMEVCNTR23_EL0'', 3, 3, 14, 10, 7),
     (''PMEVCNTR24_EL0'', 3, 3, 14, 11, 0),
     (''PMEVCNTR25_EL0'', 3, 3, 14, 11, 1),
     (''PMEVCNTR26_EL0'', 3, 3, 14, 11, 2),
     (''PMEVCNTR27_EL0'', 3, 3, 14, 11, 3),
     (''PMEVCNTR28_EL0'', 3, 3, 14, 11, 4),
     (''PMEVCNTR29_EL0'', 3, 3, 14, 11, 5),
     (''PMEVCNTR30_EL0'', 3, 3, 14, 11, 6)]"

definition PERFMON_REGISTERS_WRITE :: "sysreg_row list" where
  "PERFMON_REGISTERS_WRITE = [
     (''PMSWINC_EL0'', 3, 3, 9, 12, 4)]"

definition PERFMON_REGISTERS_READ_WRITE :: "sysreg_row list" where
  "PERFMON_REGISTERS_READ_WRITE = [
     (''PMINTENSET_EL1'', 3, 0, 9, 14, 1),
     (''PMINTENCLR_EL1'', 3, 0, 9, 14, 2),
     (''PMCR_EL0'', 3, 3, 9, 12, 0),
     (''PMCNTENSET_EL0'', 3, 3, 9, 12, 1),
     (''PMCNTENCLR_EL0'', 3, 3, 9, 12, 2),
     (''PMOVSCLR_EL0'', 3, 3, 9, 12, 3),
     (''PMSELR_EL0'', 3, 3, 9, 12, 5),
     (''PMCCNTR_EL0'', 3, 3, 9, 13, 0),
     (''PMXEVTYPER_EL0'', 3, 3, 9, 13, 1),
     (''PMXEVCNTR_EL0'', 3, 3, 9, 13, 2),
     (''PMUSERENR_EL0'', 3, 3, 9, 14, 0),
     (''PMOVSSET_EL0'', 3, 3, 9, 14, 3),
     (''PMEVTYPER0_EL0'', 3, 3, 14, 12, 0),
     (''PMEVTYPER1_EL0'', 3, 3, 14, 12, 1),
     (''PMEVTYPER2_EL0'', 3, 3, 14, 12, 2),
     (''PMEVTYPER3_EL0'', 3, 3, 14, 12, 3),
     (''PMEVTYPER4_EL0'', 3, 3, 14, 12, 4),
     (''PMEVTYPER5_EL0'', 3, 3, 14, 12, 5),
     (''PMEVTYPER6_EL0'', 3, 3, 14, 12, 6),
     (''PMEVTYPER7_EL0'', 3, 3, 14, 12, 7),
     (''PMEVTYPER8_EL0'', 3, 3, 14, 13, 0),
     (''PMEVTYPER9_EL0'', 3, 3, 14, 13, 1),
     (''PMEVTYPER10_EL0'', 3, 3, 14, 13, 2),
     (''PMEVTYPER11_EL0'', 3, 3, 14, 13, 3),
     (''PMEVTYPER12_EL0'', 3, 3, 14, 13, 4),
     (''PMEVTYPER13_EL0'', 3, 3, 14, 13, 5),
     (''PMEVTYPER14_EL0'', 3, 3, 14, 13, 6),
     (''PMEVTYPER15_EL0'', 3, 3, 14, 13, 7),
     (''PMEVTYPER16_EL0'', 3, 3, 14, 14, 0),
     (''PMEVTYPER17_EL0'', 3, 3, 14, 14, 1),
     (''PMEVTYPER18_EL0'', 3, 3, 14, 14, 2),
     (''PMEVTYPER19_EL0'', 3, 3, 14, 14, 3),
     (''PMEVTYPER20_EL0'', 3, 3, 14, 14, 4),
     (''PMEVTYPER21_EL0'', 3, 3, 14, 14, 5),
     (''PMEVTYPER22_EL0'', 3, 3, 14, 14, 6),
     (''PMEVTYPER23_EL0'', 3, 3, 14, 14, 7),
     (''PMEVTYPER24_EL0'', 3, 3, 14, 15, 0),
     (''PMEVTYPER25_EL0'', 3, 3, 14, 15, 1),
     (''PMEVTYPER26_EL0'', 3, 3, 14, 15, 2),
     (''PMEVTYPER27_EL0'', 3, 3, 14, 15, 3),
     (''PMEVTYPER28_EL0'', 3, 3, 14, 15, 4),
     (''PMEVTYPER29_EL0'', 3, 3, 14, 15, 5),
     (''PMEVTYPER30_EL0'', 3, 3, 14, 15, 6),
     (''PMCCFILTR_EL0'', 3, 3, 14, 15, 7)]"

definition FEATURE_ID_REGISTERS_READ :: "sysreg_row list" where
  "FEATURE_ID_REGISTERS_READ = [
     (''ID_PFR0_EL1'', 3, 0, 0, 1, 0),
     (''ID_PFR1_EL1'', 3, 0, 0, 1, 1),
     (''ID_DFR0_EL1'', 3, 0, 0, 1, 2),
     (''ID_AFR0_EL1'', 3, 0, 0, 1, 3),
     (''ID_MMFR0_EL1'', 3, 0, 0, 1, 4),
     (''ID_MMFR1_EL1'', 3, 0, 0, 1, 5),
     (''ID_MMFR2_EL1'', 3, 0, 0, 1, 6),
     (''ID_MMFR3_EL1'', 3, 0, 0, 1, 7),
     (''ID_ISAR0_EL1'', 3, 0, 0, 2, 0),
     (''ID_ISAR1_EL1'', 3, 0, 0, 2, 1),
     (''ID_ISAR2_EL1'', 3, 0, 0, 2, 2),
     (''ID_ISAR3_EL1'', 3, 0, 0, 2, 3),
     (''ID_ISAR4_EL1'', 3, 0, 0, 2, 4),
     (''ID_ISAR5_EL1'', 3, 0, 0, 2, 5),
     (''ID_MMFR4_EL1'', 3, 0, 0, 2, 6),
     (''MVFR0_EL1'', 3, 0, 0, 3, 0),
     (''MVFR1_EL1'', 3, 0, 0, 3, 1),
     (''MVFR2_EL1'', 3, 0, 0, 3, 2),
     (''ID_AA64PFR0_EL1'', 3, 0, 0, 4, 0),
     (''ID_AA64PFR1_EL1'', 3, 0, 0, 4, 1),
     (''ID_AA64DFR0_EL1'', 3, 0, 0, 5, 0),
     (''ID_AA64DFR1_EL1'', 3, 0, 0, 5, 1),
     (''ID_AA64AFR0_EL1'', 3, 0, 0, 5, 4),
     (''ID_AA64AFR1_EL1'', 3, 0, 0, 5, 5),
     (''ID_AA64ISAR0_EL1'', 3, 0, 0, 6, 0),
     (''ID_AA64ISAR1_EL1'', 3, 0, 0, 6, 1),
     (''ID_AA64MMFR0_EL1'', 3, 0, 0, 7, 0),
     (''ID_AA64MMFR1_EL1'', 3, 0, 0, 7, 1),
     (''ID_AA64MMFR2_EL1'', 3, 0, 0, 7, 2)]"

section \<open>Debug and performance monitor registers\<close>

text \<open>Reading a general purpose register outside the array is undefined.\<close>

definition read_gp :: "arch_regs \<Rightarrow> u64 \<Rightarrow> u64 outcome" where
  "read_gp r rt = (if unat rt < NUM_GP_REGS then Ret (r_gp r ! unat rt) else Undef)"

definition write_gp :: "u64 \<Rightarrow> u64 \<Rightarrow> arch_regs \<Rightarrow> arch_regs" where
  "write_gp rt value r = (if rt \<noteq> RT_REG_XZR then r\<lparr>r_gp := (r_gp r)[unat rt := value]\<rparr> else r)"

text \<open>
  The body the two \<open>process_access\<close> functions share, over the registers that can be read and
  those that can be written.
\<close>

definition process_access :: "sysreg_row list \<Rightarrow> sysreg_row list \<Rightarrow> u64 \<Rightarrow> arch_regs \<Rightarrow> msr_bank
    \<Rightarrow> (arch_regs \<times> msr_bank) outcome" where
  "process_access readable writable esr r msr =
     (let sys_register = GET_ISS_SYSREG esr; rt_register = GET_ISS_RT esr
      in check (unat rt_register < NUM_GP_REGS + 1)
        (if ISS_IS_READ esr
         then and_then (case select_reg readable sys_register of Some name \<Rightarrow> Ret (msr name)
                          | None \<Rightarrow> read_gp r rt_register)
                (\<lambda>value. Ret (write_gp rt_register value r, msr))
         else and_then (if rt_register \<noteq> RT_REG_XZR then read_gp r rt_register else Ret 0)
                (\<lambda>value. Ret (r, case select_reg writable sys_register of
                    Some name \<Rightarrow> msr(name := value) | None \<Rightarrow> msr))))"

definition debug_el1_is_register_access :: "u64 \<Rightarrow> bool" where
  "debug_el1_is_register_access esr \<longleftrightarrow> GET_ISS_OP0 esr = 2 \<and> GET_ISS_OP1 esr \<noteq> 1"

definition debug_el1_process_access :: "arch_cfg \<Rightarrow> u16 \<Rightarrow> u64 \<Rightarrow> arch_regs \<Rightarrow> msr_bank
    \<Rightarrow> (bool \<times> arch_regs \<times> msr_bank) outcome" where
  "debug_el1_process_access cfg i esr r msr =
     (if i \<noteq> HF_PRIMARY_VM_ID (cfg_secure cfg) then Ret (False, r, msr)
      else and_then (process_access (EL1_DEBUG_REGISTERS_READ @ EL1_DEBUG_REGISTERS_READ_WRITE)
                       (EL1_DEBUG_REGISTERS_WRITE @ EL1_DEBUG_REGISTERS_READ_WRITE) esr r msr)
             (\<lambda>(r, msr). Ret (True, r, msr)))"

definition perfmon_is_register_access :: "u64 \<Rightarrow> bool" where
  "perfmon_is_register_access esr \<longleftrightarrow>
     (let op0 = GET_ISS_OP0 esr; op1 = GET_ISS_OP1 esr; crn = GET_ISS_CRN esr; crm = GET_ISS_CRM esr
      in if op0 = 3 \<and> op1 = 0 \<and> crn = 9 \<and> crm = 14 then True
         else if op0 = 3 \<and> op1 = 3 \<and> crn = 14 \<and> crm \<ge> 8 \<and> crm \<le> 15 then True
         else op0 = 3 \<and> op1 = 3 \<and> crn = 9 \<and> crm \<ge> 12 \<and> crm \<le> 14)"

definition perfmon_process_access :: "arch_cfg \<Rightarrow> u16 \<Rightarrow> u64 \<Rightarrow> arch_regs \<Rightarrow> msr_bank
    \<Rightarrow> (bool \<times> arch_regs \<times> msr_bank) outcome" where
  "perfmon_process_access cfg i esr r msr =
     (if i \<noteq> HF_PRIMARY_VM_ID (cfg_secure cfg) then Ret (False, r, msr)
      else and_then (process_access (PERFMON_REGISTERS_READ @ PERFMON_REGISTERS_READ_WRITE)
                       (PERFMON_REGISTERS_WRITE @ PERFMON_REGISTERS_READ_WRITE) esr r msr)
             (\<lambda>(r, msr). Ret (True, r, msr)))"

definition PMCCFILTR_EL0_P :: u64 where "PMCCFILTR_EL0_P = 0x80000000"
definition PMCCFILTR_EL0_U :: u64 where "PMCCFILTR_EL0_U = 0x40000000"

definition perfmon_get_pmccfiltr_el0_init_value :: "arch_cfg \<Rightarrow> u16 \<Rightarrow> u64" where
  "perfmon_get_pmccfiltr_el0_init_value cfg i =
     (if i \<noteq> HF_PRIMARY_VM_ID (cfg_secure cfg) then PMCCFILTR_EL0_P OR PMCCFILTR_EL0_U else 0)"

section \<open>Features\<close>

definition HF_FEATURE_RAS :: u64 where "HF_FEATURE_RAS = 1"
definition HF_FEATURE_LOR :: u64 where "HF_FEATURE_LOR = push_bit 1 1"
definition HF_FEATURE_PERFMON :: u64 where "HF_FEATURE_PERFMON = push_bit 2 1"
definition HF_FEATURE_DEBUG :: u64 where "HF_FEATURE_DEBUG = push_bit 3 1"
definition HF_FEATURE_SPE :: u64 where "HF_FEATURE_SPE = push_bit 4 1"
definition HF_FEATURE_TRACE :: u64 where "HF_FEATURE_TRACE = push_bit 5 1"
definition HF_FEATURE_PAUTH :: u64 where "HF_FEATURE_PAUTH = push_bit 6 1"
definition HF_FEATURE_ALL :: u64 where "HF_FEATURE_ALL = push_bit 1 HF_FEATURE_PAUTH - 1"
definition HCR_EL2_TERR :: u64 where "HCR_EL2_TERR = push_bit 36 1"
definition HCR_EL2_TLOR :: u64 where "HCR_EL2_TLOR = push_bit 35 1"
definition MDCR_EL2_TTRF :: u64 where "MDCR_EL2_TTRF = push_bit 19 1"
definition MDCR_EL2_TPMS :: u64 where "MDCR_EL2_TPMS = push_bit 14 1"
definition MDCR_EL2_E2PB :: u64 where "MDCR_EL2_E2PB = push_bit 12 3"
definition MDCR_EL2_TDRA :: u64 where "MDCR_EL2_TDRA = push_bit 11 1"
definition MDCR_EL2_TDOSA :: u64 where "MDCR_EL2_TDOSA = push_bit 10 1"
definition MDCR_EL2_TDA :: u64 where "MDCR_EL2_TDA = push_bit 9 1"
definition MDCR_EL2_TPM :: u64 where "MDCR_EL2_TPM = push_bit 6 1"
definition MDCR_EL2_TPMCR :: u64 where "MDCR_EL2_TPMCR = push_bit 5 1"
definition ID_AA64MMFR1_EL1_VH_SHIFT :: nat where "ID_AA64MMFR1_EL1_VH_SHIFT = 8"
definition ID_AA64MMFR1_EL1_VH_MASK :: u64 where "ID_AA64MMFR1_EL1_VH_MASK = 0xf"
definition ID_AA64MMFR1_EL1_SPEC_SEI :: u64 where "ID_AA64MMFR1_EL1_SPEC_SEI = push_bit 24 0xf"
definition ID_AA64MMFR1_EL1_LO :: u64 where "ID_AA64MMFR1_EL1_LO = push_bit 24 0xf"
definition ID_AA64PFR0_EL1_RAS :: u64 where "ID_AA64PFR0_EL1_RAS = push_bit 28 0xf"
definition ID_AA64DFR0_EL1_TRACE_FILT :: u64 where "ID_AA64DFR0_EL1_TRACE_FILT = push_bit 40 0xf"
definition ID_AA64DFR0_EL1_DOUBLE_LOCK :: u64 where "ID_AA64DFR0_EL1_DOUBLE_LOCK = push_bit 36 0xf"
definition ID_AA64DFR0_EL1_PMS_VER :: u64 where "ID_AA64DFR0_EL1_PMS_VER = push_bit 32 0xf"
definition ID_AA64DFR0_EL1_PMU_VER :: u64 where "ID_AA64DFR0_EL1_PMU_VER = push_bit 8 0xf"
definition ID_AA64DFR0_EL1_TRACE_VER :: u64 where "ID_AA64DFR0_EL1_TRACE_VER = push_bit 4 0xf"
definition ID_AA64ISAR1_EL1_GPI :: u64 where "ID_AA64ISAR1_EL1_GPI = push_bit 28 0xf"
definition ID_AA64ISAR1_EL1_GPA :: u64 where "ID_AA64ISAR1_EL1_GPA = push_bit 24 0xf"
definition ID_AA64ISAR1_EL1_API :: u64 where "ID_AA64ISAR1_EL1_API = push_bit 8 0xf"
definition ID_AA64ISAR1_EL1_APA :: u64 where "ID_AA64ISAR1_EL1_APA = push_bit 24 0xf"

lemmas feature_bits = HF_FEATURE_RAS_def HF_FEATURE_LOR_def HF_FEATURE_PERFMON_def HF_FEATURE_DEBUG_def
  HF_FEATURE_SPE_def HF_FEATURE_TRACE_def HF_FEATURE_PAUTH_def HF_FEATURE_ALL_def
lemmas trap_bits = HCR_EL2_TERR_def HCR_EL2_TLOR_def MDCR_EL2_TTRF_def MDCR_EL2_TPMS_def MDCR_EL2_E2PB_def
  MDCR_EL2_TDRA_def MDCR_EL2_TDOSA_def MDCR_EL2_TDA_def MDCR_EL2_TPM_def MDCR_EL2_TPMCR_def
lemmas id_fields = ID_AA64MMFR1_EL1_VH_SHIFT_def ID_AA64MMFR1_EL1_VH_MASK_def ID_AA64MMFR1_EL1_SPEC_SEI_def
  ID_AA64MMFR1_EL1_LO_def ID_AA64PFR0_EL1_RAS_def ID_AA64DFR0_EL1_TRACE_FILT_def
  ID_AA64DFR0_EL1_DOUBLE_LOCK_def ID_AA64DFR0_EL1_PMS_VER_def ID_AA64DFR0_EL1_PMU_VER_def
  ID_AA64DFR0_EL1_TRACE_VER_def ID_AA64ISAR1_EL1_GPI_def ID_AA64ISAR1_EL1_GPA_def
  ID_AA64ISAR1_EL1_API_def ID_AA64ISAR1_EL1_APA_def

definition arch_vm_features_set :: "arch_cfg \<Rightarrow> vm \<Rightarrow> vm" where
  "arch_vm_features_set cfg v =
     (let f = trapped_features (vm_arch v) OR HF_FEATURE_LOR OR HF_FEATURE_SPE OR HF_FEATURE_TRACE OR
            HF_FEATURE_DEBUG;
          f = (if vm_id v \<noteq> HF_PRIMARY_VM_ID (cfg_secure cfg)
               then f OR HF_FEATURE_PERFMON OR HF_FEATURE_RAS OR HF_FEATURE_PAUTH else f)
      in v\<lparr>vm_arch := (vm_arch v)\<lparr>trapped_features := f\<rparr>\<rparr>)"

text \<open>The steps of \<open>feature_set_traps\<close>, one for each feature.\<close>

definition mdcr_of :: "(u64 \<Rightarrow> u64) \<Rightarrow> arch_regs \<Rightarrow> arch_regs" where
  "mdcr_of f r = r\<lparr>r_lazy := (r_lazy r)(Mdcr_el2 := f (r_lazy r Mdcr_el2))\<rparr>"

definition trap_none :: "arch_vm \<Rightarrow> arch_vm" where
  "trap_none a = a\<lparr>mask_mmfr1 := - 1 AND NOT (push_bit ID_AA64MMFR1_EL1_VH_SHIFT ID_AA64MMFR1_EL1_VH_MASK),
     mask_pfr0 := - 1, mask_dfr0 := - 1, mask_isar1 := - 1\<rparr>"

definition trap_ras :: "arch_vm \<times> arch_regs \<Rightarrow> arch_vm \<times> arch_regs" where
  "trap_ras = (\<lambda>(a, r).
     (a\<lparr>mask_mmfr1 := mask_mmfr1 a AND NOT ID_AA64MMFR1_EL1_SPEC_SEI,
        mask_pfr0 := mask_pfr0 a AND NOT ID_AA64PFR0_EL1_RAS\<rparr>,
      r\<lparr>r_hcr_el2 := r_hcr_el2 r OR HCR_EL2_TERR\<rparr>))"

definition trap_spe :: "arch_vm \<times> arch_regs \<Rightarrow> arch_vm \<times> arch_regs" where
  "trap_spe = (\<lambda>(a, r).
     (a\<lparr>mask_dfr0 := mask_dfr0 a AND NOT ID_AA64DFR0_EL1_PMS_VER\<rparr>,
      mdcr_of (\<lambda>x. (x OR MDCR_EL2_TPMS) AND NOT MDCR_EL2_E2PB) r))"

definition trap_debug :: "arch_vm \<times> arch_regs \<Rightarrow> arch_vm \<times> arch_regs" where
  "trap_debug = (\<lambda>(a, r).
     (a\<lparr>mask_dfr0 := mask_dfr0 a AND NOT ID_AA64DFR0_EL1_DOUBLE_LOCK\<rparr>,
      mdcr_of (\<lambda>x. x OR (MDCR_EL2_TDRA OR MDCR_EL2_TDOSA OR MDCR_EL2_TDA)) r))"

definition trap_trace :: "arch_vm \<times> arch_regs \<Rightarrow> arch_vm \<times> arch_regs" where
  "trap_trace = (\<lambda>(a, r).
     (a\<lparr>mask_dfr0 := mask_dfr0 a AND NOT ID_AA64DFR0_EL1_TRACE_FILT AND NOT ID_AA64DFR0_EL1_TRACE_VER\<rparr>,
      mdcr_of (\<lambda>x. x OR MDCR_EL2_TTRF) r))"

definition trap_perfmon :: "arch_vm \<times> arch_regs \<Rightarrow> arch_vm \<times> arch_regs" where
  "trap_perfmon = (\<lambda>(a, r).
     (a\<lparr>mask_dfr0 := mask_dfr0 a AND NOT ID_AA64DFR0_EL1_PMU_VER\<rparr>,
      mdcr_of (\<lambda>x. x OR (MDCR_EL2_TPM OR MDCR_EL2_TPMCR)) r))"

definition trap_lor :: "arch_vm \<times> arch_regs \<Rightarrow> arch_vm \<times> arch_regs" where
  "trap_lor = (\<lambda>(a, r).
     (a\<lparr>mask_mmfr1 := mask_mmfr1 a AND NOT ID_AA64MMFR1_EL1_LO\<rparr>,
      r\<lparr>r_hcr_el2 := r_hcr_el2 r OR HCR_EL2_TLOR\<rparr>))"

definition trap_pauth :: "arch_vm \<times> arch_regs \<Rightarrow> arch_vm \<times> arch_regs" where
  "trap_pauth = (\<lambda>(a, r).
     (a\<lparr>mask_isar1 := mask_isar1 a AND NOT ID_AA64ISAR1_EL1_GPI AND NOT ID_AA64ISAR1_EL1_GPA AND
        NOT ID_AA64ISAR1_EL1_API AND NOT ID_AA64ISAR1_EL1_APA\<rparr>,
      r\<lparr>r_hcr_el2 := r_hcr_el2 r AND NOT (HCR_EL2_APK OR HCR_EL2_API)\<rparr>))"

definition when_feature :: "u64 \<Rightarrow> u64 \<Rightarrow> ('a \<Rightarrow> 'a) \<Rightarrow> 'a \<Rightarrow> 'a" where
  "when_feature features feature f x = (if features AND feature \<noteq> 0 then f x else x)"

definition feature_set_traps :: "arch_vm \<Rightarrow> arch_regs \<Rightarrow> (arch_vm \<times> arch_regs) outcome" where
  "feature_set_traps a r =
     (let features = trapped_features a
      in if features AND NOT HF_FEATURE_ALL \<noteq> 0 then Panic
         else Ret (when_feature features HF_FEATURE_PAUTH trap_pauth
               (when_feature features HF_FEATURE_LOR trap_lor
               (when_feature features HF_FEATURE_PERFMON trap_perfmon
               (when_feature features HF_FEATURE_TRACE trap_trace
               (when_feature features HF_FEATURE_DEBUG trap_debug
               (when_feature features HF_FEATURE_SPE trap_spe
               (when_feature features HF_FEATURE_RAS trap_ras (trap_none a, r)))))))))"

definition feature_id_is_register_access :: "u64 \<Rightarrow> bool" where
  "feature_id_is_register_access esr \<longleftrightarrow>
     GET_ISS_OP0 esr = 3 \<and> GET_ISS_OP1 esr = 0 \<and> GET_ISS_CRN esr = 0 \<and>
     GET_ISS_CRM esr \<ge> 1 \<and> GET_ISS_CRM esr \<le> 7"

definition ID_AA64MMFR1_EL1_ENC :: u64 where "ID_AA64MMFR1_EL1_ENC = GET_ISS_ENCODING 3 0 0 7 1"
definition ID_AA64PFR0_EL1_ENC :: u64 where "ID_AA64PFR0_EL1_ENC = GET_ISS_ENCODING 3 0 0 4 0"
definition ID_AA64DFR0_EL1_ENC :: u64 where "ID_AA64DFR0_EL1_ENC = GET_ISS_ENCODING 3 0 0 5 0"
definition ID_AA64ISAR1_EL1_ENC :: u64 where "ID_AA64ISAR1_EL1_ENC = GET_ISS_ENCODING 3 0 0 6 1"

definition mask_feature :: "arch_vm \<Rightarrow> u64 \<Rightarrow> u64 \<Rightarrow> u64" where
  "mask_feature a sys_register value =
     (if sys_register = ID_AA64MMFR1_EL1_ENC then value AND mask_mmfr1 a
      else if sys_register = ID_AA64PFR0_EL1_ENC then value AND mask_pfr0 a
      else if sys_register = ID_AA64DFR0_EL1_ENC then value AND mask_dfr0 a
      else if sys_register = ID_AA64ISAR1_EL1_ENC then value AND mask_isar1 a
      else value)"

definition feature_id_process_access :: "arch_vm \<Rightarrow> u64 \<Rightarrow> arch_regs \<Rightarrow> msr_bank
    \<Rightarrow> (bool \<times> arch_regs) outcome" where
  "feature_id_process_access a esr r msr =
     (let sys_register = GET_ISS_SYSREG esr; rt_register = GET_ISS_RT esr
      in check (unat rt_register < NUM_GP_REGS + 1)
        (if \<not> ISS_IS_READ esr then Ret (True, r)
         else let value = (case select_reg FEATURE_ID_REGISTERS_READ sys_register of
                             Some name \<Rightarrow> msr name | None \<Rightarrow> 0)
              in Ret (True, write_gp rt_register (mask_feature a sys_register value) r)))"

section \<open>Injecting exceptions\<close>

definition PSR_D :: u64 where "PSR_D = push_bit 9 1"
definition PSR_A :: u64 where "PSR_A = push_bit 8 1"
definition PSR_I :: u64 where "PSR_I = push_bit 7 1"
definition PSR_F :: u64 where "PSR_F = push_bit 6 1"
definition PSR_ARCH_MODE_32 :: u64 where "PSR_ARCH_MODE_32 = push_bit 4 1"
definition PSR_PE_MODE_MASK :: u64 where "PSR_PE_MODE_MASK = 0xf"
definition PSR_PE_MODE_EL0T :: u64 where "PSR_PE_MODE_EL0T = 0"
definition PSR_PE_MODE_EL1H :: u64 where "PSR_PE_MODE_EL1H = 5"
definition OFFSET_CURRENT_SPX :: u64 where "OFFSET_CURRENT_SPX = 0x200"
definition OFFSET_LOWER_EL_64 :: u64 where "OFFSET_LOWER_EL_64 = 0x400"
definition OFFSET_LOWER_EL_32 :: u64 where "OFFSET_LOWER_EL_32 = 0x600"

text \<open>With VHE the EL1 register of the guest has another name.\<close>

definition el1_reg :: "arch_cfg \<Rightarrow> string \<Rightarrow> string" where
  "el1_reg cfg name = name @ (if cfg_vhe cfg then ''_EL12'' else ''_EL1'')"

definition get_el1_exception_handler_addr :: "arch_cfg \<Rightarrow> arch_regs \<Rightarrow> msr_bank \<Rightarrow> u64 outcome" where
  "get_el1_exception_handler_addr cfg r msr =
     (let base_addr = msr (el1_reg cfg ''VBAR'');
          pe_mode = r_spsr r AND PSR_PE_MODE_MASK;
          is_arch32 = (r_spsr r AND PSR_ARCH_MODE_32 \<noteq> 0)
      in if pe_mode = PSR_PE_MODE_EL0T
         then Ret (base_addr + (if is_arch32 then OFFSET_LOWER_EL_32 else OFFSET_LOWER_EL_64))
         else check (\<not> is_arch32) (Ret (base_addr + OFFSET_CURRENT_SPX)))"

definition inject_el1_exception :: "arch_cfg \<Rightarrow> u64 \<Rightarrow> u64 \<Rightarrow> arch_regs \<Rightarrow> msr_bank
    \<Rightarrow> (arch_regs \<times> msr_bank) outcome" where
  "inject_el1_exception cfg esr_el1_value far_el1_value r msr =
     and_then (get_el1_exception_handler_addr cfg r msr) (\<lambda>handler_address.
       Ret (r\<lparr>r_spsr := PSR_D OR PSR_A OR PSR_I OR PSR_F OR PSR_PE_MODE_EL1H, r_pc := handler_address\<rparr>,
            msr(el1_reg cfg ''ESR'' := esr_el1_value, el1_reg cfg ''FAR'' := far_el1_value,
                el1_reg cfg ''ELR'' := r_pc r, el1_reg cfg ''SPSR'' := r_spsr r)))"

definition inject_el1_data_abort_exception :: "arch_cfg \<Rightarrow> u64 \<Rightarrow> u64 \<Rightarrow> arch_regs \<Rightarrow> msr_bank
    \<Rightarrow> (arch_regs \<times> msr_bank) outcome" where
  "inject_el1_data_abort_exception cfg esr_el2 far_el2 r msr =
     inject_el1_exception cfg (GET_ESR_ISS esr_el2 OR GET_ESR_IL esr_el2 OR
       push_bit ESR_EC_OFFSET EC_DATA_ABORT_SAME_EL) far_el2 r msr"

definition inject_el1_instruction_abort_exception :: "arch_cfg \<Rightarrow> u64 \<Rightarrow> u64 \<Rightarrow> arch_regs \<Rightarrow> msr_bank
    \<Rightarrow> (arch_regs \<times> msr_bank) outcome" where
  "inject_el1_instruction_abort_exception cfg esr_el2 far_el2 r msr =
     inject_el1_exception cfg (GET_ESR_ISS esr_el2 OR GET_ESR_IL esr_el2 OR
       push_bit ESR_EC_OFFSET EC_INSTRUCTION_ABORT_SAME_EL) far_el2 r msr"

definition inject_el1_unknown_exception :: "arch_cfg \<Rightarrow> u64 \<Rightarrow> arch_regs \<Rightarrow> msr_bank
    \<Rightarrow> (arch_regs \<times> msr_bank) outcome" where
  "inject_el1_unknown_exception cfg esr_el2 r msr =
     inject_el1_exception cfg (GET_ESR_IL esr_el2 OR push_bit ESR_EC_OFFSET EC_UNKNOWN) 0 r msr"

text \<open>The trap of an access to a system register by the VM \<open>v\<close>, from the registers of its vCPU.\<close>

definition skip_or_inject :: "arch_cfg \<Rightarrow> u64 \<Rightarrow> bool \<times> arch_regs \<times> msr_bank
    \<Rightarrow> (arch_regs \<times> msr_bank) outcome" where
  "skip_or_inject cfg esr_el2 = (\<lambda>(handled, r, msr).
     if \<not> handled then inject_el1_unknown_exception cfg esr_el2 r msr
     else Ret (r\<lparr>r_pc := r_pc r + GET_NEXT_PC_INC esr_el2\<rparr>, msr))"

definition handle_system_register_access :: "arch_cfg \<Rightarrow> vm \<Rightarrow> u64 \<Rightarrow> arch_regs \<Rightarrow> msr_bank
    \<Rightarrow> (arch_regs \<times> msr_bank) outcome" where
  "handle_system_register_access cfg v esr_el2 r msr =
     check (GET_ESR_EC esr_el2 = EC_MSR)
       (and_then
         (if debug_el1_is_register_access esr_el2
          then debug_el1_process_access cfg (vm_id v) esr_el2 r msr
          else if perfmon_is_register_access esr_el2
          then perfmon_process_access cfg (vm_id v) esr_el2 r msr
          else if feature_id_is_register_access esr_el2
          then and_then (feature_id_process_access (vm_arch v) esr_el2 r msr)
                 (\<lambda>(ok, r). Ret (ok, r, msr))
          else Ret (False, r, msr))
         (skip_or_inject cfg esr_el2))"

end
