(* ===== verification/Hyp.thy ===== *)
theory Hyp
  imports Trap_Regs
begin

text \<open>
  The state of the partition manager and the operations on VMs, vCPUs and CPUs of \<^verbatim>\<open>src/vm.c\<close>,
  \<^verbatim>\<open>src/vcpu.c\<close>, \<^verbatim>\<open>src/cpu.c\<close>, \<^verbatim>\<open>src/arch/aarch64/hypervisor/cpu.c\<close> and \<^verbatim>\<open>src/arch/aarch64/timer.c\<close>.
  The sizes of the tables and the addresses of the hypervisor image are chosen by the build; they are
  parts of the environment. The partition has no IOMMU (\<^verbatim>\<open>src/iommu/absent.c\<close>).
\<close>

section \<open>State\<close>

record layout =
  layout_text_begin :: u64
  layout_text_end :: u64
  layout_rodata_begin :: u64
  layout_rodata_end :: u64
  layout_data_begin :: u64
  layout_data_end :: u64
  layout_stacks_begin :: u64
  layout_stacks_end :: u64

record hyp_env =
  he_mm :: mm_env
  he_layout :: layout
  MAX_VMS :: nat
  MAX_CPUS :: nat
  int_words :: nat

text \<open>The address of the byte after the stack of a CPU is a function of the environment.\<close>

record hyp =
  h_vms :: "vm list"
  h_other_world :: vm
  h_nwd_vms :: "vm list"
  h_vm_count :: u16
  h_first_boot_vm :: "vm_ref option"
  h_cpus :: "cpu list"
  h_cpu_count :: u32
  h_mm :: mm_state
  h_msr :: msr_bank

abbreviation (input) he_cfg :: "hyp_env \<Rightarrow> arch_cfg" where
  "he_cfg e \<equiv> env_cfg (he_mm e)"

abbreviation (input) he_secure :: "hyp_env \<Rightarrow> bool" where
  "he_secure e \<equiv> cfg_secure (env_cfg (he_mm e))"

primrec get_vm :: "vm_ref \<Rightarrow> hyp \<Rightarrow> vm" where
  "get_vm (Vm i) h = h_vms h ! i"
| "get_vm Other_world h = h_other_world h"
| "get_vm (Nwd i) h = h_nwd_vms h ! i"

primrec upd_vm :: "vm_ref \<Rightarrow> (vm \<Rightarrow> vm) \<Rightarrow> hyp \<Rightarrow> hyp" where
  "upd_vm (Vm i) f h = h\<lparr>h_vms := (h_vms h)[i := f (h_vms h ! i)]\<rparr>"
| "upd_vm Other_world f h = h\<lparr>h_other_world := f (h_other_world h)\<rparr>"
| "upd_vm (Nwd i) f h = h\<lparr>h_nwd_vms := (h_nwd_vms h)[i := f (h_nwd_vms h ! i)]\<rparr>"

text \<open>A reference that denotes an element of its table.\<close>

primrec vm_ok :: "hyp \<Rightarrow> vm_ref \<Rightarrow> bool" where
  "vm_ok h (Vm i) \<longleftrightarrow> i < length (h_vms h)"
| "vm_ok h Other_world \<longleftrightarrow> True"
| "vm_ok h (Nwd i) \<longleftrightarrow> i < length (h_nwd_vms h)"

definition get_vcpu :: "vcpu_ref \<Rightarrow> hyp \<Rightarrow> vcpu" where
  "get_vcpu = (\<lambda>(v, i) h. vm_vcpus (get_vm v h) ! i)"

definition upd_vcpu :: "vcpu_ref \<Rightarrow> (vcpu \<Rightarrow> vcpu) \<Rightarrow> hyp \<Rightarrow> hyp" where
  "upd_vcpu = (\<lambda>(v, i) f. upd_vm v (\<lambda>w. w\<lparr>vm_vcpus := (vm_vcpus w)[i := f (vm_vcpus w ! i)]\<rparr>))"

section \<open>Registers of a vCPU\<close>

definition gic_regs_reset :: "bool \<Rightarrow> arch_regs \<Rightarrow> arch_regs" where
  "gic_regs_reset is_primary r =
     (let icc_sre_el2 = push_bit 0 1 OR push_bit 1 3
      in if is_primary then r\<lparr>r_ich_hcr_el2 := 0, r_icc_sre_el2 := icc_sre_el2 OR push_bit 3 1\<rparr>
         else r\<lparr>r_ich_hcr_el2 := push_bit 10 0x1f, r_icc_sre_el2 := icc_sre_el2\<rparr>)"

definition arch_regs_set_pc_arg :: "u64 \<Rightarrow> u64 \<Rightarrow> arch_regs \<Rightarrow> arch_regs" where
  "arch_regs_set_pc_arg pc arg r = r\<lparr>r_pc := pc, r_gp := (r_gp r)[0 := arg]\<rparr>"

definition arch_regs_reg_num_valid :: "u32 \<Rightarrow> bool" where
  "arch_regs_reg_num_valid gp_reg_num \<longleftrightarrow> unat gp_reg_num < NUM_GP_REGS"

definition arch_regs_set_gp_reg :: "u64 \<Rightarrow> u32 \<Rightarrow> arch_regs \<Rightarrow> arch_regs outcome" where
  "arch_regs_set_gp_reg value gp_reg_num r =
     check (arch_regs_reg_num_valid gp_reg_num) (Ret (r\<lparr>r_gp := (r_gp r)[unat gp_reg_num := value]\<rparr>))"

definition arch_regs_set_retval :: "ffa_value \<Rightarrow> arch_regs \<Rightarrow> arch_regs" where
  "arch_regs_set_retval v r = r\<lparr>r_gp := (r_gp r)[0 := func v, 1 := arg1 v, 2 := arg2 v, 3 := arg3 v,
     4 := arg4 v, 5 := arg5 v, 6 := arg6 v, 7 := arg7 v]\<rparr>"

definition arch_regs_get_args :: "arch_regs \<Rightarrow> ffa_value" where
  "arch_regs_get_args r = \<lparr>func = r_gp r ! 0, arg1 = r_gp r ! 1, arg2 = r_gp r ! 2, arg3 = r_gp r ! 3,
     arg4 = r_gp r ! 4, arg5 = r_gp r ! 5, arg6 = r_gp r ! 6, arg7 = r_gp r ! 7\<rparr>"

text \<open>
  \<open>arch_regs_reset\<close> for the vCPU at an index of a VM on the CPU with identifier \<open>cid\<close>; the feature
  traps are recorded in the VM.
\<close>

definition reset_el0_regs :: "vm \<Rightarrow> arch_regs \<Rightarrow> arch_regs" where
  "reset_el0_regs v r = r\<lparr>r_ttbr0_el2 := ptable_root (vm_ptable v) OR push_bit 48 (ucast (vm_id v)),
     r_spsr := PSR_PE_MODE_EL0T\<rparr>"

definition reset_el1_regs :: "hyp_env \<Rightarrow> msr_bank \<Rightarrow> u64 \<Rightarrow> vm \<Rightarrow> arch_regs \<Rightarrow> arch_regs" where
  "reset_el1_regs e msr vcpu_id v r =
     (let table = ptable_root (vm_ptable v); g = env_geom (he_mm e);
          l = (r_lazy r)(Vtcr_el2 := arch_mm_get_vtcr_el2 g,
                Vttbr_el2 := table OR push_bit 48 (ucast (vm_id v)));
          l = (if he_secure e then l(Vstcr_el2 := arch_mm_get_vstcr_el2 g, Vsttbr_el2 := table) else l)
      in r\<lparr>r_ttbr0_el2 := msr ''TTBR0_EL2'',
           r_lazy := l(Vmpidr_el2 := vcpu_id,
             Mdcr_el2 := get_mdcr_el2_value (msr ''MDCR_EL2'') (msr ''PMCR_EL0''),
             Mdscr_el1 := 0,
             Pmccfiltr_el0 := perfmon_get_pmccfiltr_el0_init_value (he_cfg e) (vm_id v)),
           r_spsr := PSR_D OR PSR_A OR PSR_I OR PSR_F OR PSR_PE_MODE_EL1H\<rparr>)"

definition arch_regs_reset :: "hyp_env \<Rightarrow> msr_bank \<Rightarrow> u64 \<Rightarrow> nat \<Rightarrow> vm \<Rightarrow> arch_regs
    \<Rightarrow> (arch_vm \<times> arch_regs) outcome" where
  "arch_regs_reset e msr cid index v r =
     (let is_primary = (vm_id v = HF_PRIMARY_VM_ID (he_secure e));
          vcpu_id = (if is_primary then cid else of_nat index);
          cnthctl = (if is_primary then if cfg_vhe (he_cfg e) then push_bit 10 1 OR push_bit 11 1
                       else push_bit 0 1 OR push_bit 1 1 else 0);
          s = zero_regs\<lparr>r_pc := r_pc r, r_gp := (r_gp zero_regs)[0 := r_gp r ! 0],
                r_hcr_el2 := get_hcr_el2_value (he_cfg e) (msr ''ID_AA64PFR0_EL1'') (vm_id v) (vm_el0_partition v),
                r_lazy := (\<lambda>_. 0)(Cnthctl_el2 := cnthctl)\<rparr>
      in and_then
           (if vm_el0_partition v
            then check (cfg_vhe (he_cfg e)) (Ret (vm_arch v, reset_el0_regs v s))
            else feature_set_traps (vm_arch v) (reset_el1_regs e msr vcpu_id v s))
           (\<lambda>(a, s). Ret (a, gic_regs_reset is_primary s)))"

section \<open>The virtual timer\<close>

definition CNTV_CTL_EL0_ENABLE :: u64 where "CNTV_CTL_EL0_ENABLE = push_bit 0 1"
definition CNTV_CTL_EL0_IMASK :: u64 where "CNTV_CTL_EL0_IMASK = push_bit 1 1"
definition CNTV_CTL_EL0_ISTATUS :: u64 where "CNTV_CTL_EL0_ISTATUS = push_bit 2 1"
definition NANOS_PER_UNIT :: u64 where "NANOS_PER_UNIT = 1000000000"

definition arch_timer_mask :: "arch_regs \<Rightarrow> arch_regs" where
  "arch_timer_mask r = r\<lparr>r_cntv_ctl_el0 := r_cntv_ctl_el0 r OR CNTV_CTL_EL0_IMASK\<rparr>"

definition arch_timer_enabled :: "arch_regs \<Rightarrow> bool" where
  "arch_timer_enabled r \<longleftrightarrow>
     r_cntv_ctl_el0 r AND CNTV_CTL_EL0_ENABLE \<noteq> 0 \<and> \<not> r_cntv_ctl_el0 r AND CNTV_CTL_EL0_IMASK \<noteq> 0"

text \<open>Division by a zero frequency is undefined.\<close>

definition ticks_to_ns :: "msr_bank \<Rightarrow> u64 \<Rightarrow> u64 outcome" where
  "ticks_to_ns msr ticks =
     (if msr ''CNTFRQ_EL0'' = 0 then Undef else Ret ((ticks * NANOS_PER_UNIT) div msr ''CNTFRQ_EL0''))"

definition arch_timer_remaining_ticks :: "msr_bank \<Rightarrow> arch_regs \<Rightarrow> u64" where
  "arch_timer_remaining_ticks msr r =
     (if r_cntv_cval_el0 r \<ge> msr ''CNTVCT_EL0'' then r_cntv_cval_el0 r - msr ''CNTVCT_EL0'' else 0)"

definition arch_timer_remaining_ns :: "msr_bank \<Rightarrow> arch_regs \<Rightarrow> u64 outcome" where
  "arch_timer_remaining_ns msr r = ticks_to_ns msr (arch_timer_remaining_ticks msr r)"

definition arch_timer_pending :: "msr_bank \<Rightarrow> arch_regs \<Rightarrow> bool" where
  "arch_timer_pending msr r \<longleftrightarrow>
     (if \<not> arch_timer_enabled r then False
      else if r_cntv_ctl_el0 r AND CNTV_CTL_EL0_ISTATUS \<noteq> 0 then True
      else arch_timer_remaining_ticks msr r = 0)"

text \<open>With VHE the EL0 timer registers of the guest have other names.\<close>

definition el0_timer :: "arch_cfg \<Rightarrow> string \<Rightarrow> string" where
  "el0_timer cfg name = name @ (if cfg_vhe cfg then ''_EL02'' else ''_EL0'')"

definition arch_timer_enabled_current :: "arch_cfg \<Rightarrow> msr_bank \<Rightarrow> bool" where
  "arch_timer_enabled_current cfg msr \<longleftrightarrow>
     msr (el0_timer cfg ''CNTV_CTL'') AND CNTV_CTL_EL0_ENABLE \<noteq> 0 \<and>
     \<not> msr (el0_timer cfg ''CNTV_CTL'') AND CNTV_CTL_EL0_IMASK \<noteq> 0"

definition arch_timer_disable_current :: "arch_cfg \<Rightarrow> msr_bank \<Rightarrow> msr_bank" where
  "arch_timer_disable_current cfg msr = msr(el0_timer cfg ''CNTV_CTL'' := 0)"

definition arch_timer_remaining_ticks_current :: "arch_cfg \<Rightarrow> msr_bank \<Rightarrow> u64" where
  "arch_timer_remaining_ticks_current cfg msr =
     (let cval = msr (el0_timer cfg ''CNTV_CVAL'')
      in if cval \<ge> msr ''CNTVCT_EL0'' then cval - msr ''CNTVCT_EL0'' else 0)"

definition arch_timer_remaining_ns_current :: "arch_cfg \<Rightarrow> msr_bank \<Rightarrow> u64 outcome" where
  "arch_timer_remaining_ns_current cfg msr = ticks_to_ns msr (arch_timer_remaining_ticks_current cfg msr)"

section \<open>VMs\<close>

definition vm_init_mm :: "hyp_env \<Rightarrow> vm \<Rightarrow> mm_state \<Rightarrow> mm_ptable option \<times> mm_state" where
  "vm_init_mm e v s =
     (if vm_el0_partition v then mm_ptable_init (he_mm e) (vm_id v) MM_FLAG_STAGE1 s
      else mm_vm_init (he_mm e) (vm_id v) s)"

definition vcpu_init :: "nat \<Rightarrow> vcpu" where
  "vcpu_init n = (zero_vcpu n)\<lparr>vc_regs_available := True, vc_state := VCPU_STATE_OFF,
     vc_direct_request_origin_vm_id := HF_INVALID_VM_ID\<rparr>"

definition vm_notifications_init_bindings :: "notifications \<Rightarrow> notifications" where
  "vm_notifications_init_bindings n =
     n\<lparr>bindings_sender_id := replicate (length (bindings_sender_id n)) HF_INVALID_VM_ID\<rparr>"

text \<open>The structure \<open>vm_init\<close> fills; more vCPUs than the array has room for are undefined.\<close>

definition vm_init_data :: "hyp_env \<Rightarrow> u16 \<Rightarrow> u16 \<Rightarrow> bool \<Rightarrow> vm" where
  "vm_init_data e i cnt el0 = (zero_vm (MAX_CPUS e) (int_words e))\<lparr>vm_id := i, vm_vcpu_count := cnt,
     vm_el0_partition := el0\<rparr>"

definition vm_init_rest :: "hyp_env \<Rightarrow> mm_ptable \<Rightarrow> vm \<Rightarrow> vm" where
  "vm_init_rest e t v =
     v\<lparr>vm_ptable := t,
       vm_vcpus := replicate (unat (vm_vcpu_count v)) (vcpu_init (int_words e)) @
         drop (unat (vm_vcpu_count v)) (vm_vcpus v),
       vm_notifs := (vm_notifs v)\<lparr>from_sp := vm_notifications_init_bindings (from_sp (vm_notifs v)),
         from_vm := vm_notifications_init_bindings (from_vm (vm_notifs v))\<rparr>\<rparr>"

definition vm_init :: "hyp_env \<Rightarrow> u16 \<Rightarrow> u16 \<Rightarrow> bool \<Rightarrow> hyp \<Rightarrow> (vm_ref option \<times> hyp) outcome" where
  "vm_init e i cnt el0 h =
     and_then
       (if i = HF_OTHER_WORLD_ID (he_secure e) then check (\<not> el0) (Ret Other_world)
        else let vm_index = i - HF_VM_ID_OFFSET (he_secure e)
             in check (i \<ge> HF_VM_ID_OFFSET (he_secure e))
                  (check (unat vm_index < MAX_VMS e) (Ret (Vm (unat vm_index)))))
       (\<lambda>v. let w = vm_init_data e i cnt el0; (t, s) = vm_init_mm e w (h_mm h); h = h\<lparr>h_mm := s\<rparr>
            in case t of None \<Rightarrow> Ret (None, upd_vm v (\<lambda>_. w) h)
                 | Some t \<Rightarrow> if unat cnt > MAX_CPUS e then Undef
                             else Ret (Some v, upd_vm v (\<lambda>_. vm_init_rest e t w) h))"

definition vm_init_next :: "hyp_env \<Rightarrow> u16 \<Rightarrow> bool \<Rightarrow> hyp \<Rightarrow> (vm_ref option \<times> hyp) outcome" where
  "vm_init_next e cnt el0 h =
     (if unat (h_vm_count h) \<ge> MAX_VMS e then Ret (None, h)
      else and_then (vm_init e (h_vm_count h + HF_VM_ID_OFFSET (he_secure e)) cnt el0 h)
        (\<lambda>(v, h). if v = None then Ret (None, h) else Ret (v, h\<lparr>h_vm_count := h_vm_count h + 1\<rparr>)))"

definition vm_get_count :: "hyp \<Rightarrow> u16" where
  "vm_get_count h = h_vm_count h"

definition vm_find_index :: "u16 \<Rightarrow> hyp \<Rightarrow> vm_ref option" where
  "vm_find_index index h = (if index \<ge> h_vm_count h then None else Some (Vm (unat index)))"

definition vm_find :: "hyp_env \<Rightarrow> u16 \<Rightarrow> hyp \<Rightarrow> vm_ref option" where
  "vm_find e i h =
     (if i = HF_OTHER_WORLD_ID (he_secure e)
      then if vm_id (h_other_world h) = HF_OTHER_WORLD_ID (he_secure e) then Some Other_world else None
      else if i < HF_VM_ID_OFFSET (he_secure e) then None
      else vm_find_index (i - HF_VM_ID_OFFSET (he_secure e)) h)"

definition vm_get_vcpu :: "vm_ref \<Rightarrow> u16 \<Rightarrow> hyp \<Rightarrow> vcpu_ref outcome" where
  "vm_get_vcpu v vcpu_index h = check (vcpu_index < vm_vcpu_count (get_vm v h)) (Ret (v, unat vcpu_index))"

definition vm_id_is_current_world :: "hyp_env \<Rightarrow> u16 \<Rightarrow> bool" where
  "vm_id_is_current_world e i \<longleftrightarrow>
     i AND HF_VM_ID_WORLD_MASK \<noteq> HF_OTHER_WORLD_ID (he_secure e) AND HF_VM_ID_WORLD_MASK"

section \<open>Memory of a VM\<close>

definition vm_identity_prepare :: "hyp_env \<Rightarrow> vm \<Rightarrow> u64 \<Rightarrow> u64 \<Rightarrow> u32 \<Rightarrow> mm_state \<Rightarrow> (bool \<times> mm_state) outcome" where
  "vm_identity_prepare e v begin fin mode s =
     (if vm_el0_partition v then mm_identity_prepare (he_mm e) (vm_ptable v) begin fin mode s
      else mm_vm_identity_prepare (he_mm e) (vm_ptable v) begin fin mode s)"

text \<open>The result is the value stored through a non-null \<open>ipa\<close>.\<close>

definition vm_identity_commit :: "hyp_env \<Rightarrow> vm \<Rightarrow> u64 \<Rightarrow> u64 \<Rightarrow> u32 \<Rightarrow> mm_state \<Rightarrow> (u64 \<times> mm_state) outcome" where
  "vm_identity_commit e v begin fin mode s =
     (if vm_el0_partition v
      then and_then (mm_identity_commit (he_mm e) (vm_ptable v) begin fin mode s) (\<lambda>(_, s). Ret (begin, s))
      else mm_vm_identity_commit (he_mm e) (vm_ptable v) begin fin mode s)"

definition vm_identity_map :: "hyp_env \<Rightarrow> vm \<Rightarrow> u64 \<Rightarrow> u64 \<Rightarrow> u32 \<Rightarrow> mm_state \<Rightarrow> (bool \<times> mm_state) outcome" where
  "vm_identity_map e v begin fin mode s =
     and_then (vm_identity_prepare e v begin fin mode s)
       (\<lambda>(ok, s). if \<not> ok then Ret (False, s)
          else and_then (vm_identity_commit e v begin fin mode s) (\<lambda>(_, s). Ret (True, s)))"

definition vm_unmap :: "hyp_env \<Rightarrow> vm \<Rightarrow> u64 \<Rightarrow> u64 \<Rightarrow> mm_state \<Rightarrow> (bool \<times> mm_state) outcome" where
  "vm_unmap e v begin fin s = vm_identity_map e v begin fin MM_MODE_UNMAPPED_MASK s"

definition vm_ptable_defrag :: "hyp_env \<Rightarrow> vm \<Rightarrow> mm_state \<Rightarrow> mm_state outcome" where
  "vm_ptable_defrag e v s =
     (if vm_el0_partition v then mm_stage1_defrag (he_mm e) (vm_ptable v) s
      else mm_vm_defrag (he_mm e) (vm_ptable v) s)"

text \<open>The conjunction of the four calls stops at the first that fails.\<close>

definition and_also :: "(bool \<times> 's) outcome \<Rightarrow> ('s \<Rightarrow> (bool \<times> 's) outcome) \<Rightarrow> (bool \<times> 's) outcome" where
  "and_also p q = and_then p (\<lambda>(ok, s). if ok then q s else Ret (False, s))"

definition vm_unmap_hypervisor :: "hyp_env \<Rightarrow> vm \<Rightarrow> mm_state \<Rightarrow> (bool \<times> mm_state) outcome" where
  "vm_unmap_hypervisor e v s =
     (let l = he_layout e
      in and_also (and_also (and_also (vm_unmap e v (layout_text_begin l) (layout_text_end l) s)
           (vm_unmap e v (layout_rodata_begin l) (layout_rodata_end l)))
           (vm_unmap e v (layout_data_begin l) (layout_data_end l)))
           (vm_unmap e v (layout_stacks_begin l) (layout_stacks_end l)))"

definition vm_mem_get_mode :: "hyp_env \<Rightarrow> u64 \<Rightarrow> vm \<Rightarrow> u64 \<Rightarrow> u64 \<Rightarrow> mm_state \<Rightarrow> u32 option outcome" where
  "vm_mem_get_mode e u v begin fin s =
     (if vm_el0_partition v then mm_get_mode (he_mm e) u (vm_ptable v) begin fin s
      else mm_vm_get_mode (he_mm e) u (vm_ptable v) begin fin s)"

section \<open>The boot list\<close>

definition vm_get_first_boot :: "hyp \<Rightarrow> vm_ref option" where
  "vm_get_first_boot h = h_first_boot_vm h"

text \<open>The loop of \<open>vm_update_boot\<close>: the last VM passed and the one reached; no result on a cycle.\<close>

partial_function (option) boot_scan :: "hyp \<Rightarrow> u16 \<Rightarrow> vm_ref option \<Rightarrow> vm_ref option
    \<Rightarrow> (vm_ref option \<times> vm_ref option) option" where
  "boot_scan h order previous current =
     (case current of None \<Rightarrow> Some (previous, None)
      | Some c \<Rightarrow> if vm_boot_order (get_vm c h) \<le> order
          then boot_scan h order current (vm_next_boot (get_vm c h))
          else Some (previous, current))"

definition vm_update_boot :: "vm_ref \<Rightarrow> hyp \<Rightarrow> hyp option" where
  "vm_update_boot v h =
     (case h_first_boot_vm h of None \<Rightarrow> Some (h\<lparr>h_first_boot_vm := Some v\<rparr>)
      | Some first \<Rightarrow>
          (case boot_scan h (vm_boot_order (get_vm v h)) None (Some first) of None \<Rightarrow> None
           | Some (previous, current) \<Rightarrow>
               let h = (case previous of Some p \<Rightarrow> upd_vm p (\<lambda>w. w\<lparr>vm_next_boot := Some v\<rparr>) h
                          | None \<Rightarrow> h\<lparr>h_first_boot_vm := Some v\<rparr>)
               in Some (upd_vm v (\<lambda>w. w\<lparr>vm_next_boot := current\<rparr>) h)))"

section \<open>vCPUs\<close>

definition PHYS_CORE_IDX_GP_REG :: u32 where "PHYS_CORE_IDX_GP_REG = 4"

definition vcpu_index :: "vcpu_ref \<Rightarrow> u16 outcome" where
  "vcpu_index = (\<lambda>(v, i). check (i < 0xffff) (Ret (of_nat i)))"

definition vcpu_on :: "vcpu_ref \<Rightarrow> u64 \<Rightarrow> u64 \<Rightarrow> hyp \<Rightarrow> hyp" where
  "vcpu_on c entry arg = upd_vcpu c (\<lambda>w. w\<lparr>vc_regs := arch_regs_set_pc_arg entry arg (vc_regs w),
     vc_state := VCPU_STATE_WAITING\<rparr>)"

definition vcpu_is_off :: "vcpu_ref \<Rightarrow> hyp \<Rightarrow> bool" where
  "vcpu_is_off c h \<longleftrightarrow> vc_state (get_vcpu c h) = VCPU_STATE_OFF"

text \<open>The identifier of the CPU of a vCPU; a null pointer is not dereferenced.\<close>

definition vcpu_cpu_id :: "vcpu_ref \<Rightarrow> hyp \<Rightarrow> u64 outcome" where
  "vcpu_cpu_id c h = (case vc_cpu (get_vcpu c h) of None \<Rightarrow> Undef | Some i \<Rightarrow> Ret (cpu_id (h_cpus h ! i)))"

definition reset_vcpu_regs :: "hyp_env \<Rightarrow> vcpu_ref \<Rightarrow> hyp \<Rightarrow> hyp outcome" where
  "reset_vcpu_regs e c h =
     (let v = get_vm (fst c) h
      in and_then (if vm_id v = HF_PRIMARY_VM_ID (he_secure e) then vcpu_cpu_id c h else Ret 0) (\<lambda>cid.
         and_then (vcpu_index c) (\<lambda>index.
         and_then (arch_regs_reset e (h_msr h) cid (unat index) v (vc_regs (get_vcpu c h))) (\<lambda>(a, r).
           Ret (upd_vcpu c (\<lambda>w. w\<lparr>vc_regs := r\<rparr>) (upd_vm (fst c) (\<lambda>w. w\<lparr>vm_arch := a\<rparr>) h))))))"

definition vcpu_secondary_reset_and_start :: "hyp_env \<Rightarrow> vcpu_ref \<Rightarrow> u64 \<Rightarrow> u64 \<Rightarrow> hyp \<Rightarrow> (bool \<times> hyp) outcome" where
  "vcpu_secondary_reset_and_start e c entry arg h =
     check (vm_id (get_vm (fst c) h) \<noteq> HF_PRIMARY_VM_ID (he_secure e))
       (if vcpu_is_off c h
        then and_then (reset_vcpu_regs e c h) (\<lambda>h. Ret (True, vcpu_on c entry arg h))
        else Ret (False, h))"

record vcpu_fault_info =
  fi_ipaddr :: u64
  fi_vaddr :: u64
  fi_pc :: u64
  fi_mode :: u32

text \<open>
  The result \<open>None\<close> stands for the endless loop of the code; \<open>u\<close> is the indeterminate value of the
  local attributes and \<open>m\<close> that of the local mode.
\<close>

definition vcpu_handle_page_fault :: "hyp_env \<Rightarrow> u64 \<Rightarrow> u32 \<Rightarrow> vm \<Rightarrow> vcpu_fault_info \<Rightarrow> mm_state \<Rightarrow> bool option outcome" where
  "vcpu_handle_page_fault e u m v f s =
     (let mask = fi_mode f OR MM_MODE_INVALID;
          a = (if vm_el0_partition v then fi_vaddr f else fi_ipaddr f)
      in and_then (vm_mem_get_mode e u v a (a + 1) s) (\<lambda>found.
           let mode = (case found of Some mode \<Rightarrow> mode | None \<Rightarrow> m);
               resume = (found \<noteq> None \<and> mode AND mask = fi_mode f);
               resume = (if vm_el0_partition v \<and> fi_mode f = MM_MODE_X \<and> mode AND MM_MODE_W = MM_MODE_W
                         then False else resume)
           in Ret (if resume then Some True else None)))"

definition vcpu_set_phys_core_idx :: "vcpu_ref \<Rightarrow> hyp \<Rightarrow> hyp outcome" where
  "vcpu_set_phys_core_idx c h =
     (case vc_cpu (get_vcpu c h) of None \<Rightarrow> Undef
      | Some i \<Rightarrow> and_then (arch_regs_set_gp_reg (of_nat i) PHYS_CORE_IDX_GP_REG (vc_regs (get_vcpu c h)))
          (\<lambda>r. Ret (upd_vcpu c (\<lambda>w. w\<lparr>vc_regs := r\<rparr>) h)))"

section \<open>CPUs\<close>

text \<open>
  \<open>stack j\<close> is the address of the end of the stack of the CPU at index \<open>j\<close>. A CPU outside the array is
  undefined.
\<close>

fun cpu_init_loop :: "(nat \<Rightarrow> u64) \<Rightarrow> u64 \<Rightarrow> u64 list \<Rightarrow> nat \<Rightarrow> bool \<Rightarrow> cpu list \<Rightarrow> (bool \<times> cpu list) outcome" where
  "cpu_init_loop stack boot_cpu_id [] j found_boot_cpu cs = Ret (found_boot_cpu, cs)"
| "cpu_init_loop stack boot_cpu_id (cid # ids) j found_boot_cpu cs =
     (if found_boot_cpu \<or> cid \<noteq> boot_cpu_id
      then if j = 0 \<or> length cs \<le> j - 1 then Undef
        else cpu_init_loop stack boot_cpu_id ids (j - 1) found_boot_cpu
          (cs[j - 1 := (cs ! (j - 1))\<lparr>cpu_stack_bottom := stack (j - 1), cpu_id := cid\<rparr>])
      else check (cpu_stack_bottom (cs ! 0) = stack 0)
        (cpu_init_loop stack boot_cpu_id ids j True (cs[0 := (cs ! 0)\<lparr>cpu_id := cid\<rparr>])))"

definition cpu_module_init :: "(nat \<Rightarrow> u64) \<Rightarrow> u64 list \<Rightarrow> hyp \<Rightarrow> hyp outcome" where
  "cpu_module_init stack cpu_ids h =
     (let boot_cpu_id = cpu_id (h_cpus h ! 0)
      in and_then (cpu_init_loop stack boot_cpu_id cpu_ids (length cpu_ids) False (h_cpus h))
        (\<lambda>(found, cs). Ret (h\<lparr>h_cpu_count := of_nat (length cpu_ids),
           h_cpus := (if found then cs else cs[0 := (cs ! 0)\<lparr>cpu_id := boot_cpu_id\<rparr>])\<rparr>)))"

definition cpu_find_index :: "hyp_env \<Rightarrow> nat \<Rightarrow> nat option" where
  "cpu_find_index e index = (if index < MAX_CPUS e then Some index else None)"

definition cpu_find :: "u64 \<Rightarrow> hyp \<Rightarrow> nat option" where
  "cpu_find cid h = find (\<lambda>i. cpu_id (h_cpus h ! i) = cid) [0 ..< unat (h_cpu_count h)]"

definition cpu_on :: "nat \<Rightarrow> u64 \<Rightarrow> u64 \<Rightarrow> hyp \<Rightarrow> (bool \<times> hyp) outcome" where
  "cpu_on c entry arg h =
     (let prev = cpu_is_on (h_cpus h ! c);
          h = h\<lparr>h_cpus := (h_cpus h)[c := (h_cpus h ! c)\<lparr>cpu_is_on := True\<rparr>]\<rparr>
      in if prev then Ret (prev, h)
         else case vm_get_first_boot h of None \<Rightarrow> Undef
           | Some v \<Rightarrow> and_then (vm_get_vcpu v (of_nat c) h) (\<lambda>vcpu. Ret (prev, vcpu_on vcpu entry arg h)))"

definition cpu_off :: "nat \<Rightarrow> hyp \<Rightarrow> hyp" where
  "cpu_off c h = h\<lparr>h_cpus := (h_cpus h)[c := (h_cpus h ! c)\<lparr>cpu_is_on := False\<rparr>]\<rparr>"

end
