(* ===== verification/Hyp_Props.thy ===== *)
theory Hyp_Props
  imports Hyp
begin

text \<open>
  The boot list of \<^verbatim>\<open>src/vm.c\<close> is the stable sort of the registered VMs, and the table of CPUs of
  \<^verbatim>\<open>src/cpu.c\<close> holds the configured CPUs behind the boot CPU.
\<close>

section \<open>References\<close>

lemma get_upd_vm [simp]: "vm_ok h v \<Longrightarrow> get_vm v (upd_vm v f h) = f (get_vm v h)"
  by (cases v) auto

lemma get_upd_other [simp]: "v \<noteq> w \<Longrightarrow> get_vm v (upd_vm w f h) = get_vm v h"
  by (cases v; cases w) auto

lemma vm_ok_upd [simp]: "vm_ok (upd_vm w f h) v = vm_ok h v"
  by (cases v; cases w) auto

lemma upd_vm_rest [simp]:
  "h_vm_count (upd_vm w f h) = h_vm_count h" "h_first_boot_vm (upd_vm w f h) = h_first_boot_vm h"
  "h_cpus (upd_vm w f h) = h_cpus h" "h_cpu_count (upd_vm w f h) = h_cpu_count h"
  "h_mm (upd_vm w f h) = h_mm h" "h_msr (upd_vm w f h) = h_msr h"
  by (cases w; simp)+

lemma get_vm_boot [simp]: "get_vm v (h\<lparr>h_first_boot_vm := b\<rparr>) = get_vm v h"
  "vm_ok (h\<lparr>h_first_boot_vm := b\<rparr>) v = vm_ok h v"
  by (cases v; simp)+

section \<open>The boot list\<close>

text \<open>The VMs linked from \<open>p\<close> up to \<open>q\<close>.\<close>

primrec path :: "hyp \<Rightarrow> vm_ref option \<Rightarrow> vm_ref list \<Rightarrow> vm_ref option \<Rightarrow> bool" where
  "path h p [] q \<longleftrightarrow> p = q"
| "path h p (x # xs) q \<longleftrightarrow> p = Some x \<and> vm_ok h x \<and> path h (vm_next_boot (get_vm x h)) xs q"

lemma path_append: "path h p (xs @ ys) q \<longleftrightarrow> (\<exists>m. path h p xs m \<and> path h m ys q)"
  by (induction xs arbitrary: p) auto

lemma path_upd_other: "w \<notin> set xs \<Longrightarrow> path (upd_vm w f h) p xs q = path h p xs q"
proof (induction xs arbitrary: p)
  case (Cons x xs)
  then have "x \<noteq> w" "w \<notin> set xs" by auto
  then show ?case by (simp add: Cons.IH)
qed simp

lemma path_boot [simp]: "path (h\<lparr>h_first_boot_vm := b\<rparr>) p xs q = path h p xs q"
  by (induction xs arbitrary: p) auto

definition boot_order :: "hyp \<Rightarrow> vm_ref \<Rightarrow> u16" where
  "boot_order h v = vm_boot_order (get_vm v h)"

text \<open>The list of VMs to boot is what the links from the first VM lead to.\<close>

definition boot_list :: "hyp \<Rightarrow> vm_ref list \<Rightarrow> bool" where
  "boot_list h xs \<longleftrightarrow> path h (h_first_boot_vm h) xs None \<and> distinct xs"

definition insert_boot :: "hyp \<Rightarrow> vm_ref \<Rightarrow> vm_ref list \<Rightarrow> vm_ref list" where
  "insert_boot h v xs =
     (let before = (\<lambda>x. boot_order h x \<le> boot_order h v) in takeWhile before xs @ v # dropWhile before xs)"

lemma boot_scan_path:
  assumes "path h current xs None"
  shows "\<exists>m. boot_scan h k previous current =
      Some (if takeWhile (\<lambda>x. boot_order h x \<le> k) xs = [] then previous
            else Some (last (takeWhile (\<lambda>x. boot_order h x \<le> k) xs)), m) \<and>
    path h current (takeWhile (\<lambda>x. boot_order h x \<le> k) xs) m \<and>
    path h m (dropWhile (\<lambda>x. boot_order h x \<le> k) xs) None"
  using assms
proof (induction xs arbitrary: current previous)
  case Nil
  then show ?case by (subst boot_scan.simps) simp
next
  case (Cons x xs)
  then have x: "current = Some x" "vm_ok h x" and rest: "path h (vm_next_boot (get_vm x h)) xs None"
    by auto
  show ?case
  proof (cases "boot_order h x \<le> k")
    case True
    with Cons.IH [OF rest, of current] x show ?thesis
      by (subst boot_scan.simps) (auto simp: boot_order_def split: if_splits)
  next
    case False
    with x rest show ?thesis
      by (subst boot_scan.simps) (simp add: boot_order_def)
  qed
qed

lemma mset_insert_boot: "mset (insert_boot h v xs) = add_mset v (mset xs)"
  unfolding insert_boot_def Let_def
  by (metis mset.simps(2) mset_append takeWhile_dropWhile_id union_mset_add_mset_right)

lemma set_insert_boot: "set (insert_boot h v xs) = insert v (set xs)"
  using mset_insert_boot [of h v xs, THEN arg_cong, of set_mset] by simp

lemma distinct_insert_boot: "distinct xs \<Longrightarrow> v \<notin> set xs \<Longrightarrow> distinct (insert_boot h v xs)"
  using mset_eq_imp_distinct_iff [of "insert_boot h v xs" "v # xs"] by (simp add: mset_insert_boot)

text \<open>A single insertion.\<close>

definition same_but_links :: "hyp \<Rightarrow> hyp \<Rightarrow> bool" where
  "same_but_links h h' \<longleftrightarrow> (\<forall>v. vm_ok h' v = vm_ok h v) \<and>
     (\<forall>v. (get_vm v h')\<lparr>vm_next_boot := None\<rparr> = (get_vm v h)\<lparr>vm_next_boot := None\<rparr>)"

lemma same_but_links_upd:
  assumes "vm_ok h v"
  shows "same_but_links h (upd_vm v (\<lambda>w. w\<lparr>vm_next_boot := x\<rparr>) h)"
  unfolding same_but_links_def
proof (intro conjI allI)
  fix w
  show "(get_vm w (upd_vm v (\<lambda>w. w\<lparr>vm_next_boot := x\<rparr>) h))\<lparr>vm_next_boot := None\<rparr> = (get_vm w h)\<lparr>vm_next_boot := None\<rparr>"
    using assms by (cases "w = v") auto
qed simp

lemma same_but_links_boot: "same_but_links h (h\<lparr>h_first_boot_vm := b\<rparr>)"
  by (simp add: same_but_links_def)

lemma same_but_links_trans: "same_but_links h h' \<Longrightarrow> same_but_links h' h'' \<Longrightarrow> same_but_links h h''"
  by (simp add: same_but_links_def)

lemma same_but_links_order: "same_but_links h h' \<Longrightarrow> boot_order h' = boot_order h"
proof
  fix v assume "same_but_links h h'"
  then have "vm_boot_order ((get_vm v h')\<lparr>vm_next_boot := None\<rparr>) = vm_boot_order ((get_vm v h)\<lparr>vm_next_boot := None\<rparr>)"
    by (simp add: same_but_links_def)
  then show "boot_order h' v = boot_order h v"
    by (simp add: boot_order_def)
qed

lemma link_front:
  assumes "path h m zs None" "v \<notin> set zs" "vm_ok h v"
  shows "path (upd_vm v (\<lambda>w. w\<lparr>vm_next_boot := m\<rparr>) h) (Some v) (v # zs) None"
  using assms by (simp add: path_upd_other)

lemma link_after:
  assumes "path h p (ys @ [x]) m" "path h m zs None" "distinct (ys @ x # zs)" "v \<notin> set (ys @ x # zs)" "vm_ok h v"
  shows "path (upd_vm v (\<lambda>w. w\<lparr>vm_next_boot := m\<rparr>) (upd_vm x (\<lambda>w. w\<lparr>vm_next_boot := Some v\<rparr>) h)) p
    (ys @ x # v # zs) None"
  using assms by (auto simp: path_append path_upd_other)

lemma vm_update_boot_inserts:
  assumes list: "boot_list h xs" and fresh: "v \<notin> set xs" "vm_ok h v" "vm_next_boot (get_vm v h) = None"
  shows "\<exists>h'. vm_update_boot v h = Some h' \<and> boot_list h' (insert_boot h v xs) \<and> same_but_links h h' \<and>
    (\<forall>w. w \<notin> set xs \<and> w \<noteq> v \<longrightarrow> get_vm w h' = get_vm w h)"
proof (cases xs)
  case Nil
  with list have "h_first_boot_vm h = None" by (simp add: boot_list_def)
  with Nil fresh show ?thesis
    by (simp add: vm_update_boot_def boot_list_def insert_boot_def same_but_links_boot)
next
  case (Cons x xs')
  let ?P = "\<lambda>y. boot_order h y \<le> boot_order h v"
  let ?ys = "takeWhile ?P xs" and ?zs = "dropWhile ?P xs"
  from list Cons have first: "h_first_boot_vm h = Some x" and p: "path h (Some x) xs None" and d: "distinct xs"
    by (auto simp: boot_list_def)
  obtain m where scan: "boot_scan h (boot_order h v) None (Some x) = Some (if ?ys = [] then None else Some (last ?ys), m)"
    and ys: "path h (Some x) ?ys m" and zs: "path h m ?zs None"
    using boot_scan_path [OF p] by blast
  have parts: "distinct (?ys @ ?zs)" "set (?ys @ ?zs) = set xs"
    using d by simp_all
  have dis: "distinct (insert_boot h v xs)"
    using d fresh by (simp add: distinct_insert_boot)
  show ?thesis
  proof (cases "?ys = []")
    case True
    let ?h = "upd_vm v (\<lambda>w. w\<lparr>vm_next_boot := m\<rparr>) (h\<lparr>h_first_boot_vm := Some v\<rparr>)"
    have "vm_update_boot v h = Some ?h"
      using first scan True by (simp add: vm_update_boot_def boot_order_def Let_def)
    moreover have "boot_list ?h (insert_boot h v xs)"
      using link_front [of "h\<lparr>h_first_boot_vm := Some v\<rparr>" m ?zs v] zs fresh True dis set_dropWhileD
      by (fastforce simp: boot_list_def insert_boot_def)
    moreover have "same_but_links h ?h"
      using same_but_links_trans [OF same_but_links_boot same_but_links_upd] fresh by simp
    ultimately show ?thesis by auto
  next
    case False
    then obtain us u where us: "?ys = us @ [u]" by (metis append_butlast_last_id)
    let ?h = "upd_vm v (\<lambda>w. w\<lparr>vm_next_boot := m\<rparr>) (upd_vm u (\<lambda>w. w\<lparr>vm_next_boot := Some v\<rparr>) h)"
    have u: "u \<in> set xs" "vm_ok h u"
      using us ys set_takeWhileD [of u ?P xs] by (auto simp: path_append)
    have "vm_update_boot v h = Some ?h"
      using first scan us by (simp add: vm_update_boot_def boot_order_def Let_def)
    moreover have "boot_list ?h (insert_boot h v xs)"
      using link_after [of h "Some x" us u m ?zs v] us ys zs fresh parts dis first
      by (auto simp: boot_list_def insert_boot_def)
    moreover have "same_but_links h ?h"
      using fresh u by (intro same_but_links_trans [OF same_but_links_upd same_but_links_upd]) simp_all
    moreover have "get_vm w ?h = get_vm w h" if "w \<notin> set xs" "w \<noteq> v" for w
      using that u by (metis get_upd_other)
    ultimately show ?thesis by auto
  qed
qed

text \<open>Insertion after the equals, so that the list is sorted in a stable way.\<close>

lemma dropWhile_greater:
  fixes f :: "'a \<Rightarrow> 'b :: linorder"
  assumes "sorted (map f xs)" and "y \<in> set (dropWhile (\<lambda>x. f x \<le> k) xs)"
  shows "k < f y"
  using assms by (induction xs) (auto split: if_splits)

lemma sorted_insert_boot:
  assumes "sorted (map (boot_order h) xs)"
  shows "sorted (map (boot_order h) (insert_boot h v xs))"
proof -
  let ?P = "\<lambda>x. boot_order h x \<le> boot_order h v"
  let ?A = "takeWhile ?P xs" and ?B = "dropWhile ?P xs"
  have "sorted (map (boot_order h) (?A @ ?B))"
    using assms by simp
  then have parts: "sorted (map (boot_order h) ?A)" "sorted (map (boot_order h) ?B)"
    by (simp_all only: map_append sorted_append)
  have A: "boot_order h a \<le> boot_order h v" if "a \<in> set ?A" for a
    using that by (rule set_takeWhileD [THEN conjunct2])
  have B: "boot_order h v \<le> boot_order h b" if "b \<in> set ?B" for b
    using dropWhile_greater [OF assms that] by (rule less_imp_le)
  have AB: "boot_order h a \<le> boot_order h b" if "a \<in> set ?A" "b \<in> set ?B" for a b
    using A [OF that(1)] B [OF that(2)] by (rule order_trans)
  show ?thesis
    unfolding insert_boot_def Let_def map_append list.map sorted_append sorted_simps
    by (simp only: parts set_map list.set ball_simps) (use A B AB in blast)
qed

lemma filter_insert_boot:
  assumes "sorted (map (boot_order h) xs)"
  shows "filter (\<lambda>x. k = boot_order h x) (insert_boot h v xs) =
    filter (\<lambda>x. k = boot_order h x) (xs @ [v])"
proof -
  let ?P = "\<lambda>x. boot_order h x \<le> boot_order h v" and ?F = "filter (\<lambda>x. k = boot_order h x)"
  have split: "?F xs = ?F (takeWhile ?P xs) @ ?F (dropWhile ?P xs)"
    by (metis filter_append takeWhile_dropWhile_id)
  moreover have "?F (dropWhile ?P xs) = []" if "k = boot_order h v"
  proof (rule filter_False, rule ballI)
    fix y assume "y \<in> set (dropWhile ?P xs)"
    from dropWhile_greater [OF assms this] that show "k \<noteq> boot_order h y" by simp
  qed
  ultimately show ?thesis
    by (auto simp: insert_boot_def Let_def)
qed

lemma fold_insert_boot:
  assumes "sorted (map (boot_order h) xs)"
  shows "sorted (map (boot_order h) (fold (insert_boot h) vs xs))"
    and "filter (\<lambda>x. k = boot_order h x) (fold (insert_boot h) vs xs) = filter (\<lambda>x. k = boot_order h x) (xs @ vs)"
    and "mset (fold (insert_boot h) vs xs) = mset (xs @ vs)"
  using assms
proof (induction vs arbitrary: xs)
  case (Cons v vs)
  { case 1 then show ?case using Cons.IH(1) by (simp add: sorted_insert_boot) }
  { case 2 then show ?case using Cons.IH(2) by (simp add: sorted_insert_boot filter_insert_boot) }
  { case 3 then show ?case using Cons.IH(3) by (simp add: sorted_insert_boot mset_insert_boot) }
qed simp_all

lemma fold_insert_boot_sort: "fold (insert_boot h) vs [] = sort_key (boot_order h) vs"
  by (rule properties_for_sort_key [symmetric])
    (use fold_insert_boot [where h = h and xs = "[]" and vs = vs] in \<open>simp_all add: eq_commute\<close>)

text \<open>Registering the VMs of a list in its order.\<close>

fun update_boot_all :: "vm_ref list \<Rightarrow> hyp \<Rightarrow> hyp option" where
  "update_boot_all [] h = Some h"
| "update_boot_all (v # vs) h = (case vm_update_boot v h of None \<Rightarrow> None | Some h' \<Rightarrow> update_boot_all vs h')"

lemma update_boot_all_fold:
  assumes "boot_list h xs" and "distinct vs" and "set vs \<inter> set xs = {}"
    and "\<forall>v \<in> set vs. vm_ok h v \<and> vm_next_boot (get_vm v h) = None"
  shows "\<exists>h'. update_boot_all vs h = Some h' \<and> boot_list h' (fold (insert_boot h) vs xs) \<and> same_but_links h h'"
  using assms
proof (induction vs arbitrary: h xs)
  case Nil
  then show ?case by (simp add: same_but_links_def)
next
  case (Cons v vs)
  then obtain h1 where h1: "vm_update_boot v h = Some h1" "boot_list h1 (insert_boot h v xs)" "same_but_links h h1"
    "\<And>w. w \<notin> set xs \<Longrightarrow> w \<noteq> v \<Longrightarrow> get_vm w h1 = get_vm w h"
    using vm_update_boot_inserts [of h xs v] by auto
  have "vm_ok h1 w \<and> vm_next_boot (get_vm w h1) = None" if w: "w \<in> set vs" for w
  proof -
    have "w \<notin> set xs" "w \<noteq> v" using w Cons.prems by auto
    with h1(4) have "get_vm w h1 = get_vm w h" by blast
    with w Cons.prems(4) h1(3) show ?thesis by (simp add: same_but_links_def)
  qed
  then have "\<forall>w \<in> set vs. vm_ok h1 w \<and> vm_next_boot (get_vm w h1) = None" by blast
  moreover have "set vs \<inter> set (insert_boot h v xs) = {}"
    using Cons.prems by (auto simp: set_insert_boot)
  ultimately obtain h' where h': "update_boot_all vs h1 = Some h'"
    "boot_list h' (fold (insert_boot h1) vs (insert_boot h v xs))" "same_but_links h1 h'"
    using Cons.IH [OF h1(2)] Cons.prems by auto
  have "insert_boot h1 = insert_boot h"
    using same_but_links_order [OF h1(3)] by (intro ext) (simp add: insert_boot_def)
  with h' h1 show ?case
    using same_but_links_trans by auto
qed

text \<open>
  C7: Whatever the order in which the VMs are registered for boot, the search for the place of each VM
  ends, and the chain of links is the list of VMs sorted by their boot order, VMs of the same order in
  the order of registration. Nothing but the links changes in the VMs.
\<close>

theorem boot_list_is_sorted:
  assumes "h_first_boot_vm h = None" and "distinct vs"
    and "\<forall>v \<in> set vs. vm_ok h v \<and> vm_next_boot (get_vm v h) = None"
  shows "\<exists>h'. update_boot_all vs h = Some h' \<and>
    path h' (vm_get_first_boot h') (sort_key (boot_order h) vs) None \<and> same_but_links h h'"
  using update_boot_all_fold [of h "[]" vs] assms
  by (auto simp: boot_list_def fold_insert_boot_sort vm_get_first_boot_def)

definition sample_hyp :: hyp where
  "sample_hyp = \<lparr>h_vms = map (\<lambda>k. (zero_vm 1 2)\<lparr>vm_boot_order := k\<rparr>) [2, 1, 2],
     h_other_world = zero_vm 1 2, h_nwd_vms = [], h_vm_count = 3, h_first_boot_vm = None,
     h_cpus = [\<lparr>cpu_id = 7, cpu_stack_bottom = 0x1000, cpu_is_on = True\<rparr>,
       \<lparr>cpu_id = 0, cpu_stack_bottom = 0, cpu_is_on = False\<rparr>, \<lparr>cpu_id = 0, cpu_stack_bottom = 0, cpu_is_on = False\<rparr>],
     h_cpu_count = 1, h_mm = \<lparr>mem = (\<lambda>_ _. 0), pool = Mpool 0x1000 [] [] None, trace = []\<rparr>,
     h_msr = (\<lambda>_. 0)\<rparr>"

theorem boot_list_is_sorted_witness:
  "\<exists>h'. update_boot_all [Vm 0, Vm 1, Vm 2] sample_hyp = Some h' \<and>
     path h' (vm_get_first_boot h') [Vm 1, Vm 0, Vm 2] None"
proof -
  have "sort_key (boot_order sample_hyp) [Vm 0, Vm 1, Vm 2] = [Vm 1, Vm 0, Vm 2]"
    by (simp add: boot_order_def sample_hyp_def word_le_nat_alt)
  then show ?thesis
    using boot_list_is_sorted [of sample_hyp "[Vm 0, Vm 1, Vm 2]"]
    by (auto simp: sample_hyp_def zero_vm_def)
qed

section \<open>The table of CPUs\<close>

fun fill_cpus :: "(nat \<Rightarrow> u64) \<Rightarrow> u64 list \<Rightarrow> nat \<Rightarrow> cpu list \<Rightarrow> cpu list" where
  "fill_cpus stack [] j cs = cs"
| "fill_cpus stack (c # ids) j cs =
     fill_cpus stack ids (j - 1) (cs[j - 1 := (cs ! (j - 1))\<lparr>cpu_stack_bottom := stack (j - 1), cpu_id := c\<rparr>])"

lemma cpu_init_loop_others:
  assumes "f \<or> b \<notin> set ids" and "length ids \<le> j" and "j \<le> length cs"
  shows "cpu_init_loop stack b (ids @ rest) j f cs =
    cpu_init_loop stack b rest (j - length ids) f (fill_cpus stack ids j cs)"
  using assms by (induction ids arbitrary: j cs) auto

lemma length_fill_cpus [simp]: "length (fill_cpus stack ids j cs) = length cs"
  by (induction ids arbitrary: j cs) auto

lemma nth_fill_cpus:
  assumes "length ids \<le> j" and "j \<le> length cs" and "i < length cs"
  shows "fill_cpus stack ids j cs ! i =
    (if j - length ids \<le> i \<and> i < j
     then (cs ! i)\<lparr>cpu_stack_bottom := stack i, cpu_id := ids ! (j - 1 - i)\<rparr> else cs ! i)"
  using assms
proof (induction ids arbitrary: j cs)
  case (Cons c ids)
  have "fill_cpus stack (c # ids) j cs ! i =
    (let cs' = cs[j - 1 := (cs ! (j - 1))\<lparr>cpu_stack_bottom := stack (j - 1), cpu_id := c\<rparr>]
     in if j - 1 - length ids \<le> i \<and> i < j - 1
        then (cs' ! i)\<lparr>cpu_stack_bottom := stack i, cpu_id := ids ! (j - 1 - 1 - i)\<rparr> else cs' ! i)"
    using Cons.IH [of "j - 1"] Cons.prems by (simp add: Let_def)
  moreover have "(c # ids) ! (j - 1 - i) = ids ! (j - 1 - 1 - i)" if "i < j - 1"
  proof -
    have "j - 1 - i = Suc (j - 1 - 1 - i)" using that by simp
    then show ?thesis by simp
  qed
  ultimately show ?case
    using Cons.prems by (auto simp: Let_def nth_list_update split: if_splits)
qed auto

lemma cpu_init_loop_found:
  assumes ids: "ids = pre @ b # post" and "b \<notin> set pre" and "length ids \<le> length cs"
    and "cpu_stack_bottom (cs ! 0) = stack 0" and "cpu_id (cs ! 0) = b"
  shows "\<exists>cs'. cpu_init_loop stack b ids (length ids) False cs = Ret (True, cs') \<and> length cs' = length cs \<and>
    (\<forall>i < length cs. cs' ! i =
      (if 0 < i \<and> i < length ids
       then (cs ! i)\<lparr>cpu_stack_bottom := stack i, cpu_id := (pre @ post) ! (length ids - 1 - i)\<rparr> else cs ! i))"
proof -
  let ?n = "length ids" and ?m = "Suc (length post)"
  let ?cs1 = "fill_cpus stack pre ?n cs"
  let ?cs2 = "?cs1[0 := (?cs1 ! 0)\<lparr>cpu_id := b\<rparr>]"
  let ?cs3 = "fill_cpus stack post ?m ?cs2"
  have n: "?n = length pre + ?m" using ids by simp
  have cs1_0: "?cs1 ! 0 = cs ! 0"
    using n assms(3) by (subst nth_fill_cpus) auto
  have "cpu_init_loop stack b ids ?n False cs = cpu_init_loop stack b (b # post) ?m False ?cs1"
    unfolding ids using n assms(2,3) cpu_init_loop_others [of False b pre ?n cs stack "b # post"] by (simp add: ids)
  also have "\<dots> = cpu_init_loop stack b (post @ []) ?m True ?cs2"
    using cs1_0 assms(4) by simp
  also have "\<dots> = Ret (True, ?cs3)"
    using n assms(3) cpu_init_loop_others [of True b post ?m ?cs2 stack "[]"] by simp
  finally have run: "cpu_init_loop stack b ids ?n False cs = Ret (True, ?cs3)" .
  have nth: "?cs3 ! i = (if 0 < i \<and> i < ?n
       then (cs ! i)\<lparr>cpu_stack_bottom := stack i, cpu_id := (pre @ post) ! (?n - 1 - i)\<rparr> else cs ! i)"
    if i: "i < length cs" for i
  proof -
    have "?cs2 ! i = ?cs1 ! i"
      using cs1_0 assms(5) i by (cases "i = 0") (auto simp: nth_list_update)
    then have cs3: "?cs3 ! i = (if 1 \<le> i \<and> i < ?m
        then (?cs1 ! i)\<lparr>cpu_stack_bottom := stack i, cpu_id := post ! (?m - 1 - i)\<rparr> else ?cs1 ! i)"
      using i n assms(3) by (subst nth_fill_cpus) auto
    have cs1: "?cs1 ! i = (if ?m \<le> i \<and> i < ?n
        then (cs ! i)\<lparr>cpu_stack_bottom := stack i, cpu_id := pre ! (?n - 1 - i)\<rparr> else cs ! i)"
      using i n assms(3) by (subst nth_fill_cpus) auto
    consider "i = 0" | "0 < i" "i < ?m" | "?m \<le> i" "i < ?n" | "?n \<le> i" by linarith
    then show ?thesis
    proof cases
      case 2
      moreover have "?n - 1 - i = length pre + (?m - 1 - i)" using n 2 by simp
      ultimately show ?thesis using cs3 cs1 n by (simp add: nth_append)
    next
      case 3
      moreover have "?n - 1 - i < length pre" using n 3 by simp
      ultimately show ?thesis using cs3 cs1 by (simp add: nth_append)
    qed (use cs3 cs1 n in simp_all)
  qed
  show ?thesis using run nth by auto
qed

lemma find_upt:
  assumes "i < n" and "P i" and "\<And>k. k < n \<Longrightarrow> P k \<Longrightarrow> k = i"
  shows "find P [0..<n] = Some i"
proof -
  have "find P [0..<n] \<noteq> None"
    using assms(1,2) by (auto simp: find_None_iff)
  then obtain k where "find P [0..<n] = Some k" by auto
  with assms(3) show ?thesis by (auto simp: find_Some_iff)
qed

text \<open>
  C34: Configured with distinct identifiers that include the one of the boot CPU, the table of CPUs holds
  the boot CPU at index 0 and the others behind it in reverse order, each with the stack of its index.
  Every configured CPU is then found at the index that has its identifier, and no other is found.
\<close>

theorem cpu_module_init_exact:
  assumes "distinct ids" and "cpu_id (h_cpus h ! 0) \<in> set ids" and "length ids \<le> length (h_cpus h)"
    and "cpu_stack_bottom (h_cpus h ! 0) = stack 0" and "length ids < 2 ^ 32"
  shows "\<exists>h'. cpu_module_init stack ids h = Ret h' \<and>
    map cpu_id (take (length ids) (h_cpus h')) = cpu_id (h_cpus h ! 0) # rev (remove1 (cpu_id (h_cpus h ! 0)) ids) \<and>
    (\<forall>i < length ids. cpu_stack_bottom (h_cpus h' ! i) = stack i) \<and>
    (\<forall>i < length ids. cpu_find (cpu_id (h_cpus h' ! i)) h' = Some i) \<and>
    (\<forall>cid. cid \<notin> set ids \<longrightarrow> cpu_find cid h' = None)"
proof -
  let ?b = "cpu_id (h_cpus h ! 0)" and ?n = "length ids"
  let ?L = "?b # rev (remove1 ?b ids)"
  obtain pre post where ids: "ids = pre @ ?b # post" and pre: "?b \<notin> set pre"
    using split_list_first [OF assms(2)] by blast
  have rest: "remove1 ?b ids = pre @ post"
    using pre by (subst ids) (simp add: remove1_append)
  have L: "length ?L = ?n" "distinct ?L" "set ?L = set ids"
    using assms(1,2) by (auto simp: length_remove1 set_remove1_eq) (metis Suc_pred length_pos_if_in_set)
  obtain cs where run: "cpu_init_loop stack ?b ids ?n False (h_cpus h) = Ret (True, cs)"
    and len: "length cs = length (h_cpus h)"
    and nth: "\<And>i. i < length (h_cpus h) \<Longrightarrow> cs ! i = (if 0 < i \<and> i < ?n
       then (h_cpus h ! i)\<lparr>cpu_stack_bottom := stack i, cpu_id := (pre @ post) ! (?n - 1 - i)\<rparr> else h_cpus h ! i)"
    using cpu_init_loop_found [where stack = stack, OF ids pre assms(3,4) refl] by blast
  let ?h = "h\<lparr>h_cpu_count := of_nat ?n, h_cpus := cs\<rparr>"
  have init: "cpu_module_init stack ids h = Ret ?h"
    by (simp add: cpu_module_init_def run)
  have at: "cpu_id (cs ! i) = ?L ! i" "cpu_stack_bottom (cs ! i) = stack i" if i: "i < ?n" for i
  proof -
    have "rev (pre @ post) ! (i - 1) = (pre @ post) ! (?n - 1 - i)" if "0 < i"
      using that i ids by (subst rev_nth) auto
    then show "cpu_id (cs ! i) = ?L ! i" "cpu_stack_bottom (cs ! i) = stack i"
      using i assms(3,4) nth [of i] rest by (auto simp: nth_Cons')
  qed
  have "map cpu_id (take ?n cs) = ?L"
    by (rule nth_equalityI) (use L len assms(3) at in auto)
  moreover have "cpu_find (cpu_id (cs ! i)) ?h = Some i" if i: "i < ?n" for i
    unfolding cpu_find_def
  proof (rule find_upt)
    show "i < unat (h_cpu_count ?h)" using i assms(5) by (simp add: unat_of_nat)
    fix k assume "k < unat (h_cpu_count ?h)" "cpu_id (h_cpus ?h ! k) = cpu_id (cs ! i)"
    then show "k = i"
      using at i L assms(5) nth_eq_iff_index_eq [of ?L k i] by (simp add: unat_of_nat)
  qed simp
  moreover have "cpu_find cid ?h = None" if "cid \<notin> set ids" for cid
    using that at L assms(5) nth_mem [of _ ?L] by (force simp: cpu_find_def find_None_iff unat_of_nat)
  ultimately show ?thesis
    using init at by auto
qed

theorem cpu_module_init_exact_witness:
  "\<exists>h'. cpu_module_init (\<lambda>j. 0x1000 * of_nat (j + 1)) [5, 7, 9] sample_hyp = Ret h' \<and>
     map cpu_id (h_cpus h') = [7, 9, 5]"
proof -
  have "map cpu_id (take (length [5, 7, 9]) (h_cpus h')) = map cpu_id (h_cpus h')" if "length (h_cpus h') = 3" for h' :: hyp
    using that by simp
  moreover have "length (h_cpus h') = 3"
    if "cpu_module_init (\<lambda>j. 0x1000 * of_nat (j + 1)) [5, 7, 9] sample_hyp = Ret h'" for h'
    using that by (auto simp: cpu_module_init_def sample_hyp_def split: if_splits)
  ultimately show ?thesis
    using cpu_module_init_exact [of "[5, 7, 9]" sample_hyp "\<lambda>j. 0x1000 * of_nat (j + 1)"]
    by (auto simp: sample_hyp_def)
qed

end
