(* ===== verification/VM_Mem.thy ===== *)
theory VM_Mem
  imports Hyp_Props MM_Props
begin

text \<open>
  The memory operations of a VM on top of its page table: unmapping the hypervisor
  (\<open>vm_unmap_hypervisor\<close> of \<^verbatim>\<open>src/vm.c\<close>), page faults (\<open>vcpu_handle_page_fault\<close> of \<^verbatim>\<open>src/vcpu.c\<close>), and
  the time left on the virtual timer.
\<close>

section \<open>Unmapping the hypervisor\<close>

lemma vm_unmap_stage2: "\<not> vm_el0_partition v \<Longrightarrow> vm_unmap e v b f s = mm_vm_unmap (he_mm e) (vm_ptable v) b f s"
proof -
  assume "\<not> vm_el0_partition v"
  then have "vm_unmap e v b f s =
    and_then (mm_vm_identity_prepare (he_mm e) (vm_ptable v) b f MM_MODE_UNMAPPED_MASK s)
       (\<lambda>(ok, s). if \<not> ok then Ret (False, s)
          else and_then (mm_vm_identity_commit (he_mm e) (vm_ptable v) b f MM_MODE_UNMAPPED_MASK s) (\<lambda>(_, s). Ret (True, s)))"
    by (simp add: vm_unmap_def vm_identity_map_def vm_identity_prepare_def vm_identity_commit_def cong: if_cong)
  moreover have "and_then (and_then p (\<lambda>s. Ret (b, s))) (\<lambda>(_, s). Ret (True, s)) = and_then p (\<lambda>s. Ret (True, s))"
    for p :: "mm_state outcome"
    by (cases p) simp_all
  ultimately show ?thesis
    by (simp add: mm_vm_unmap_def mm_vm_identity_map_def mm_ptable_identity_update_def
        mm_vm_identity_prepare_def mm_vm_identity_commit_def cong: if_cong)
qed

text \<open>Unmapping ranges one after the other, up to the first failure.\<close>

fun unmap_ranges :: "hyp_env \<Rightarrow> vm \<Rightarrow> (u64 \<times> u64) list \<Rightarrow> mm_state \<Rightarrow> (bool \<times> mm_state) outcome" where
  "unmap_ranges e v [] s = Ret (True, s)"
| "unmap_ranges e v ((b, f) # rs) s = and_also (vm_unmap e v b f s) (unmap_ranges e v rs)"

lemma and_also_assoc: "and_also (and_also p q) r = and_also p (\<lambda>s. and_also (q s) r)"
  by (cases p) (auto simp: and_also_def)

lemma and_also_True: "and_also p (\<lambda>s. Ret (True, s)) = p"
  by (cases p) (auto simp: and_also_def)

definition hypervisor_ranges :: "hyp_env \<Rightarrow> (u64 \<times> u64) list" where
  "hypervisor_ranges e = (let l = he_layout e
     in [(layout_text_begin l, layout_text_end l), (layout_rodata_begin l, layout_rodata_end l),
         (layout_data_begin l, layout_data_end l), (layout_stacks_begin l, layout_stacks_end l)])"

lemma vm_unmap_hypervisor_ranges: "vm_unmap_hypervisor e v = unmap_ranges e v (hypervisor_ranges e)"
proof
  fix s
  have "unmap_ranges e v [] = (\<lambda>s. Ret (True, s))" "unmap_ranges e v ((b, f) # rs) =
    (\<lambda>s. and_also (vm_unmap e v b f s) (unmap_ranges e v rs))" for b f rs
    by (simp_all add: fun_eq_iff)
  then show "vm_unmap_hypervisor e v s = unmap_ranges e v (hypervisor_ranges e) s"
    by (simp add: vm_unmap_hypervisor_def hypervisor_ranges_def Let_def and_also_assoc and_also_True
        del: unmap_ranges.simps)
qed

definition in_range :: "hyp_env \<Rightarrow> u64 \<Rightarrow> u64 \<times> u64 \<Rightarrow> bool" where
  "in_range e a = (\<lambda>(b, f). range_begin b \<le> unat a \<and> unat a < range_end (he_mm e) 0 f)"

lemma unmap_ranges_spec:
  assumes "geom_ok (he_mm e) 0" and "\<not> vm_el0_partition v"
  shows "vm_ptable_inv (he_mm e) (vm_ptable v) s \<Longrightarrow> vm_simulates (he_mm e) (vm_ptable v) s F \<Longrightarrow>
    (\<forall>(b, f) \<in> set rs. unat f \<le> 2 ^ 64 - 4096) \<Longrightarrow>
    \<exists>ok s' F'. unmap_ranges e v rs s = Ret (ok, s') \<and> vm_done (he_mm e) (vm_ptable v) s F' s' \<and>
      (\<forall>a. F' a = F a \<or> F' a = 0 \<and> (\<exists>r \<in> set rs. in_range e a r)) \<and>
      (ok \<longrightarrow> (\<forall>a. (\<exists>r \<in> set rs. in_range e a r) \<longrightarrow> F' a = 0))"
proof (induction rs arbitrary: s F)
  case Nil
  then show ?case by (auto simp: vm_done_def intro!: exI [of _ F])
next
  case (Cons r rs)
  obtain b f where r: "r = (b, f)" by (cases r)
  let ?F1 = "\<lambda>ok. if ok then map_range (he_mm e) b f 0 F else F"
  obtain ok s1 where 1: "vm_unmap e v b f s = Ret (ok, s1)"
    and d1: "vm_done (he_mm e) (vm_ptable v) s (?F1 ok) s1"
    using vm_exec_spec [OF assms(1) Cons.prems(1,2), of "Vm_unmap b f"] Cons.prems(3) r
    by (auto simp: vm_unmap_stage2 [OF assms(2)])
  show ?case
  proof (cases ok)
    case False
    then show ?thesis using 1 d1 r by (auto simp: and_also_def intro!: exI [of _ F])
  next
    case True
    obtain ok' s2 F2 where 2: "unmap_ranges e v rs s1 = Ret (ok', s2)"
      and d2: "vm_done (he_mm e) (vm_ptable v) s1 F2 s2"
      and F2: "\<And>a. F2 a = ?F1 True a \<or> F2 a = 0 \<and> (\<exists>r \<in> set rs. in_range e a r)"
        "\<And>a. ok' \<Longrightarrow> \<exists>r \<in> set rs. in_range e a r \<Longrightarrow> F2 a = 0"
      using Cons.IH [of s1 "?F1 True"] d1 True Cons.prems(3) by (auto simp: vm_done_def)
    have "unmap_ranges e v (r # rs) s = Ret (ok', s2)" using 1 2 r True by (simp add: and_also_def)
    moreover have "vm_done (he_mm e) (vm_ptable v) s F2 s2" using d1 d2 by (simp add: vm_done_def)
    moreover have "F2 a = F a \<or> F2 a = 0 \<and> (\<exists>r \<in> set (r # rs). in_range e a r)" for a
      using F2(1) [of a] r by (auto simp: map_range_def in_range_def split: if_splits)
    moreover have "F2 a = 0" if "ok'" "\<exists>r \<in> set (r # rs). in_range e a r" for a
      using F2(1) [of a] F2(2) [of a] that r by (auto simp: map_range_def in_range_def split: if_splits)
    ultimately show ?thesis by blast
  qed
qed

text \<open>
  C3: Unmapping the hypervisor from the page table of a VM always returns. When it reports success, no
  page of the hypervisor's text, read-only data, data or stacks is mapped in the VM; on success and
  on failure every other address keeps its attributes, and no page of the tables is lost.
\<close>

theorem hypervisor_not_mapped:
  assumes "geom_ok (he_mm e) 0" and "\<not> vm_el0_partition v" and "vm_ptable_inv (he_mm e) (vm_ptable v) s"
    and "\<forall>(b, f) \<in> set (hypervisor_ranges e). unat f \<le> 2 ^ 64 - 4096"
  shows "\<exists>ok s'. vm_unmap_hypervisor e v s = Ret (ok, s') \<and> vm_ptable_inv (he_mm e) (vm_ptable v) s' \<and>
    ptable_pages (he_mm e) 0 (vm_ptable v) s' = ptable_pages (he_mm e) 0 (vm_ptable v) s \<and>
    (\<forall>a. unat a < space_end (he_mm e) 0 \<longrightarrow>
      (if \<exists>r \<in> set (hypervisor_ranges e). in_range e a r
       then ok \<longrightarrow> ptable_attr (he_mm e) 0 (vm_ptable v) (mem s') a = 0
       else ptable_attr (he_mm e) 0 (vm_ptable v) (mem s') a = ptable_attr (he_mm e) 0 (vm_ptable v) (mem s) a))"
  using unmap_ranges_spec [OF assms(1,2,3) vm_simulates_self assms(4)]
  unfolding vm_unmap_hypervisor_ranges vm_done_def vm_simulates_def by metis

definition sample_hyp_env :: hyp_env where
  "sample_hyp_env = \<lparr>he_mm = sample_env, he_layout = \<lparr>layout_text_begin = 0x40000000, layout_text_end = 0x40010000,
     layout_rodata_begin = 0x40010000, layout_rodata_end = 0x40014000, layout_data_begin = 0x40014000,
     layout_data_end = 0x40020000, layout_stacks_begin = 0x40020000, layout_stacks_end = 0x40024000\<rparr>,
     MAX_VMS = 16, MAX_CPUS = 8, int_words = 2\<rparr>"

theorem hypervisor_not_mapped_witness:
  "\<exists>ok s'. vm_unmap_hypervisor sample_hyp_env ((zero_vm 8 2)\<lparr>vm_ptable := sample_ptable\<rparr>) sample_state = Ret (ok, s') \<and>
     (ok \<longrightarrow> ptable_attr sample_env 0 sample_ptable (mem s') 0x40011000 = 0)"
proof -
  let ?v = "(zero_vm 8 2)\<lparr>vm_ptable := sample_ptable\<rparr>"
  have v: "\<not> vm_el0_partition ?v" "vm_ptable ?v = sample_ptable" "he_mm sample_hyp_env = sample_env"
    by (simp_all add: zero_vm_def sample_hyp_env_def)
  have l: "\<forall>(b, f) \<in> set (hypervisor_ranges sample_hyp_env). unat f \<le> 2 ^ 64 - 4096"
    by (simp add: hypervisor_ranges_def sample_hyp_env_def)
  have r: "\<exists>r \<in> set (hypervisor_ranges sample_hyp_env). in_range sample_hyp_env 0x40011000 r"
    by (simp add: hypervisor_ranges_def in_range_def range_begin_def range_end_def sample_hyp_env_def sample_geom_ok)
  have a: "unat (0x40011000 :: u64) < space_end sample_env 0"
    by (simp add: sample_geom_ok)
  from hypervisor_not_mapped [of sample_hyp_env ?v sample_state] v l sample_geom_ok(1) sample_inv
  obtain ok s' where "vm_unmap_hypervisor sample_hyp_env ?v sample_state = Ret (ok, s')"
    and at: "\<And>a. unat a < space_end sample_env 0 \<Longrightarrow> \<exists>r \<in> set (hypervisor_ranges sample_hyp_env). in_range sample_hyp_env a r \<Longrightarrow>
      ok \<Longrightarrow> ptable_attr sample_env 0 sample_ptable (mem s') a = 0"
    by (simp only: v) (metis (no_types, lifting))
  with at [OF a r] show ?thesis by auto
qed

section \<open>Page faults\<close>

lemma same_page_index:
  assumes "unat a div 4096 = unat b div 4096"
  shows "mm_index a l = mm_index b l"
proof -
  have "drop_bit 12 a = drop_bit 12 b"
    using assms by (simp add: word_unat_eq_iff drop_bit_eq_div unat_div)
  then have "drop_bit (l * 9) (drop_bit 12 a) = drop_bit (l * 9) (drop_bit 12 b)"
    by (rule arg_cong)
  then have "drop_bit (12 + l * 9) a = drop_bit (12 + l * 9) b"
    by (simp only: drop_bit_drop_bit add.commute)
  then show ?thesis
    by (simp only: mm_index_def PAGE_BITS_def PAGE_LEVEL_BITS_def)
qed

lemma attr_at_index:
  assumes "\<And>l. mm_index a l = mm_index b l"
  shows "attr_at l m pte a = attr_at l m pte b"
  by (induction l arbitrary: pte) (simp_all add: assms)

lemma same_page_attr: "unat a div 4096 = unat b div 4096 \<Longrightarrow> ptable_attr env flags t m a = ptable_attr env flags t m b"
  using attr_at_index [of a b] same_page_index [of a b]
  by (simp add: ptable_attr_def table_attr_def)

lemma get_mode_of_page:
  assumes "geom_ok env 0" and "unat a < 2 ^ 64 - 4096"
  shows "mm_vm_get_mode env u t a (a + 1) s = Ret
    (if unat a div 4096 * 4096 + 4096 \<le> space_end env 0
     then Some (arch_mm_stage2_attrs_to_mode (ptable_attr env 0 t (mem s) a)) else None)"
proof -
  have a1: "unat (a + 1) = unat a + 1"
    using assms(2) by (simp add: unat_plus_if')
  have page: "(unat (a + 1) + 4095) div 4096 * 4096 = unat a div 4096 * 4096 + 4096"
    unfolding a1 using div_add_self1 [of 4096 "unat a"] by (simp add: add.commute)
  have same: "ptable_attr env 0 t (mem s) b = ptable_attr env 0 t (mem s) (mm_round_down_to_page a)"
    if "unat a div 4096 * 4096 \<le> unat b" "unat b < unat a div 4096 * 4096 + 4096" for b
  proof (rule same_page_attr)
    have "unat b div 4096 = unat a div 4096" using that by linarith
    then show "unat b div 4096 = unat (mm_round_down_to_page a) div 4096" by (simp add: round_down_unat)
  qed
  have here: "ptable_attr env 0 t (mem s) (mm_round_down_to_page a) = ptable_attr env 0 t (mem s) a"
    by (rule same [symmetric]) linarith+
  have b: "unat (a + 1) \<le> 2 ^ 64 - 4096" "unat a div 4096 * 4096 < (unat (a + 1) + 4095) div 4096 * 4096"
    using a1 assms(2) by (simp_all add: page)
  from mm_get_attrs_spec [OF assms(1) b refl refl, of t u s] obtain ok x
    where r: "mm_get_attrs env t a (a + 1) u 0 s = Ret (ok, x)"
      and ok: "ok \<longleftrightarrow> unat a div 4096 * 4096 + 4096 \<le> space_end env 0"
      and x: "ok \<longrightarrow> x = ptable_attr env 0 t (mem s) a"
    unfolding page here using same [unfolded here] by blast
  show ?thesis unfolding mm_vm_get_mode_def r ok [symmetric] using x by (cases ok) simp_all
qed

text \<open>
  C33: A VM whose access faulted is resumed exactly when the page is in its address space and its page
  table allows the access, that is, when the fault was spurious. In every other case the handler does
  not return.
\<close>

theorem page_fault_resumes:
  assumes "geom_ok (he_mm e) 0" and "\<not> vm_el0_partition v" and "unat (fi_ipaddr f) < 2 ^ 64 - 4096"
  shows "vcpu_handle_page_fault e u m v f s = Ret
    (if unat (fi_ipaddr f) div 4096 * 4096 + 4096 \<le> space_end (he_mm e) 0 \<and>
        arch_mm_stage2_attrs_to_mode (ptable_attr (he_mm e) 0 (vm_ptable v) (mem s) (fi_ipaddr f))
          AND (fi_mode f OR MM_MODE_INVALID) = fi_mode f
     then Some True else None)"
  using assms by (simp add: vcpu_handle_page_fault_def vm_mem_get_mode_def get_mode_of_page Let_def)

theorem page_fault_resumes_witness:
  "vcpu_handle_page_fault sample_hyp_env 0 0 ((zero_vm 8 2)\<lparr>vm_ptable := sample_ptable\<rparr>)
     \<lparr>fi_ipaddr = 0x40000010, fi_vaddr = 0, fi_pc = 0, fi_mode = MM_MODE_R\<rparr> sample_state = Ret None"
proof -
  let ?v = "(zero_vm 8 2)\<lparr>vm_ptable := sample_ptable\<rparr>"
  have v: "\<not> vm_el0_partition ?v" "vm_ptable ?v = sample_ptable" "he_mm sample_hyp_env = sample_env"
    by (simp_all add: zero_vm_def sample_hyp_env_def)
  have "arch_mm_stage2_attrs_to_mode 0 = 0x7c"
    by (simp add: attrs_to_mode_bits mode_consts)
  then show ?thesis
    using page_fault_resumes [of sample_hyp_env ?v "\<lparr>fi_ipaddr = 0x40000010, fi_vaddr = 0, fi_pc = 0, fi_mode = MM_MODE_R\<rparr>"
        0 0 sample_state] v sample_geom_ok(1)
    by (simp add: sample_attr mode_consts)
qed

section \<open>Time left on the virtual timer\<close>

text \<open>
  The conversion of timer ticks to nanoseconds is exact as long as the product fits in 64 bits.
\<close>

theorem ticks_to_ns_exact:
  assumes "msr ''CNTFRQ_EL0'' \<noteq> 0" and "unat ticks * 10 ^ 9 < 2 ^ 64"
  shows "\<exists>ns. ticks_to_ns msr ticks = Ret ns \<and> unat ns = unat ticks * 10 ^ 9 div unat (msr ''CNTFRQ_EL0'')"
proof -
  have "unat (ticks * NANOS_PER_UNIT) = unat ticks * 10 ^ 9"
    using assms(2) by (simp add: NANOS_PER_UNIT_def unat_mult_lem [THEN iffD1])
  then show ?thesis
    using assms(1) by (simp add: ticks_to_ns_def unat_div)
qed

text \<open>
  Beyond that the product wraps around: on a counter of 62.5 MHz, just under five minutes are reported as
  four nanoseconds.
\<close>

theorem ticks_to_ns_wraps:
  assumes "msr ''CNTFRQ_EL0'' = 62500000"
  shows "ticks_to_ns msr 18446744074 = Ret 4"
  using assms by (simp add: ticks_to_ns_def NANOS_PER_UNIT_def)

end
