(* ===== verification/Trap_Props.thy ===== *)
theory Trap_Props
  imports Trap_Regs
begin

text \<open>
  What a trapped access to a system register does: the fields of the syndrome identify the rows of the
  register tables, the primary VM reaches exactly the register it named, a secondary VM reaches none and
  sees the feature registers with exactly the listed fields cleared.
\<close>

section \<open>Fields and encodings\<close>

lemma bit_small: "x < 2 ^ k \<Longrightarrow> bit x n \<Longrightarrow> n < k" for x :: u64
  by (metis bit_take_bit_iff less_mask_eq take_bit_eq_mask)

lemma iss_masks:
  "ISS_OP0_MASK = push_bit ISS_OP0_SHIFT (mask 2)" "ISS_OP1_MASK = push_bit ISS_OP1_SHIFT (mask 3)"
  "ISS_OP2_MASK = push_bit ISS_OP2_SHIFT (mask 3)" "ISS_CRN_MASK = push_bit ISS_CRN_SHIFT (mask 4)"
  "ISS_CRM_MASK = push_bit ISS_CRM_SHIFT (mask 4)" "ISS_RT_MASK = push_bit ISS_RT_SHIFT (mask 5)"
  by (simp_all add: ISS_OP0_MASK_def ISS_OP1_MASK_def ISS_OP2_MASK_def ISS_CRN_MASK_def ISS_CRM_MASK_def
      ISS_RT_MASK_def ISS_OP0_SHIFT_def ISS_OP1_SHIFT_def ISS_OP2_SHIFT_def ISS_CRN_SHIFT_def
      ISS_CRM_SHIFT_def ISS_RT_SHIFT_def mask_eq_exp_minus_1)

lemmas iss_shifts = ISS_OP0_SHIFT_def ISS_OP1_SHIFT_def ISS_OP2_SHIFT_def ISS_CRN_SHIFT_def
  ISS_CRM_SHIFT_def ISS_RT_SHIFT_def

text \<open>The field of \<open>k\<close> bits at position \<open>s\<close>.\<close>

definition field :: "nat \<Rightarrow> nat \<Rightarrow> u64 \<Rightarrow> u64" where
  "field s k x = drop_bit s (push_bit s (mask k) AND x)"

lemma bit_field: "bit (field s k x) n \<longleftrightarrow> n < k \<and> bit x (s + n)"
  using bit_imp_le_length [of x "s + n"] by (auto simp: field_def bit_simps)

lemma field_or: "field s k (x OR y) = field s k x OR field s k y"
  by (rule bit_word_eqI) (auto simp: bit_field bit_or_iff)

lemma field_below: "x < 2 ^ m \<Longrightarrow> t + m \<le> s \<Longrightarrow> field s k (push_bit t x) = 0"
  by (rule bit_word_eqI) (auto simp: bit_field bit_push_bit_iff dest!: bit_small)

lemma field_above: "s + k \<le> t \<Longrightarrow> field s k (push_bit t x) = 0"
  by (rule bit_word_eqI) (auto simp: bit_field bit_push_bit_iff)

lemma field_same: "x < 2 ^ k \<Longrightarrow> s + k \<le> 64 \<Longrightarrow> field s k (push_bit s x) = x"
  by (rule bit_word_eqI) (auto simp: bit_field bit_push_bit_iff dest: bit_small)

lemmas get_iss = GET_ISS_OP0_def GET_ISS_OP1_def GET_ISS_OP2_def GET_ISS_CRN_def GET_ISS_CRM_def
  GET_ISS_RT_def iss_masks field_def [symmetric]

lemma sysreg_fields_encoding:
  assumes "op0 < 2 ^ 2" "op1 < 2 ^ 3" "crn < 2 ^ 4" "crm < 2 ^ 4" "op2 < 2 ^ 3"
  shows "GET_ISS_OP0 (GET_ISS_ENCODING op0 op1 crn crm op2) = op0"
    "GET_ISS_OP1 (GET_ISS_ENCODING op0 op1 crn crm op2) = op1"
    "GET_ISS_CRN (GET_ISS_ENCODING op0 op1 crn crm op2) = crn"
    "GET_ISS_CRM (GET_ISS_ENCODING op0 op1 crn crm op2) = crm"
    "GET_ISS_OP2 (GET_ISS_ENCODING op0 op1 crn crm op2) = op2"
  unfolding get_iss GET_ISS_ENCODING_def field_or using assms
  by (simp_all add: field_same field_above assms [THEN field_below] iss_shifts
      del: push_bit_numeral push_bit_Suc push_bit_of_Suc_0)
lemma sysreg_fields [simp]:
  "GET_ISS_OP0 (GET_ISS_SYSREG esr) = GET_ISS_OP0 esr"
  "GET_ISS_OP1 (GET_ISS_SYSREG esr) = GET_ISS_OP1 esr"
  "GET_ISS_CRN (GET_ISS_SYSREG esr) = GET_ISS_CRN esr"
  "GET_ISS_CRM (GET_ISS_SYSREG esr) = GET_ISS_CRM esr"
  "GET_ISS_OP2 (GET_ISS_SYSREG esr) = GET_ISS_OP2 esr"
  by (simp_all add: iss_defs and.assoc [symmetric])

lemma GET_ISS_RT_bound: "unat (GET_ISS_RT esr) < 32"
proof -
  have "0x3e0 AND esr \<le> 0x3e0"
    by (rule word_and_le2)
  then have "unat (0x3e0 AND esr) \<le> 0x3e0"
    by (simp add: word_le_nat_alt)
  then show ?thesis
    by (simp add: GET_ISS_RT_def ISS_RT_MASK_def ISS_RT_SHIFT_def drop_bit_eq_div unat_div)
qed

lemma rt_in_range [simp]: "unat (GET_ISS_RT esr) < Suc NUM_GP_REGS"
  using GET_ISS_RT_bound [of esr] by (simp add: NUM_GP_REGS_def)

lemma rt_not_xzr: "GET_ISS_RT esr \<noteq> RT_REG_XZR \<longleftrightarrow> unat (GET_ISS_RT esr) < NUM_GP_REGS"
  using GET_ISS_RT_bound [of esr] by (auto simp: NUM_GP_REGS_def RT_REG_XZR_def word_unat_eq_iff)

text \<open>A row whose fields fit.\<close>

fun row_ok :: "sysreg_row \<Rightarrow> bool" where
  "row_ok (_, op0, op1, crn, crm, op2) \<longleftrightarrow> op0 < 4 \<and> op1 < 8 \<and> crn < 16 \<and> crm < 16 \<and> op2 < 8"

lemma of_nat_small:
  "n < 4 \<Longrightarrow> (of_nat n :: u64) < 2 ^ 2" "n < 8 \<Longrightarrow> (of_nat n :: u64) < 2 ^ 3" "n < 16 \<Longrightarrow> (of_nat n :: u64) < 2 ^ 4"
  by (simp_all add: word_less_nat_alt unat_of_nat)

lemma row_fields:
  assumes "row_ok (name, op0, op1, crn, crm, op2)"
  shows "GET_ISS_OP0 (row_encoding (name, op0, op1, crn, crm, op2)) = of_nat op0"
    "GET_ISS_OP1 (row_encoding (name, op0, op1, crn, crm, op2)) = of_nat op1"
    "GET_ISS_CRN (row_encoding (name, op0, op1, crn, crm, op2)) = of_nat crn"
    "GET_ISS_CRM (row_encoding (name, op0, op1, crn, crm, op2)) = of_nat crm"
    "GET_ISS_OP2 (row_encoding (name, op0, op1, crn, crm, op2)) = of_nat op2"
proof -
  have "(of_nat op0 :: u64) < 2 ^ 2" "(of_nat op1 :: u64) < 2 ^ 3" "(of_nat crn :: u64) < 2 ^ 4"
    "(of_nat crm :: u64) < 2 ^ 4" "(of_nat op2 :: u64) < 2 ^ 3"
    using assms by (simp_all add: of_nat_small del: semiring_numeral_class.power_numeral)
  note sysreg_fields_encoding [OF this]
  then show "GET_ISS_OP0 (row_encoding (name, op0, op1, crn, crm, op2)) = of_nat op0"
    "GET_ISS_OP1 (row_encoding (name, op0, op1, crn, crm, op2)) = of_nat op1"
    "GET_ISS_CRN (row_encoding (name, op0, op1, crn, crm, op2)) = of_nat crn"
    "GET_ISS_CRM (row_encoding (name, op0, op1, crn, crm, op2)) = of_nat crm"
    "GET_ISS_OP2 (row_encoding (name, op0, op1, crn, crm, op2)) = of_nat op2"
    by (simp_all add: row_encoding_def)
qed

lemma small_of_nat_eq: "n < 16 \<Longrightarrow> m < 16 \<Longrightarrow> (of_nat n :: u64) = of_nat m \<longleftrightarrow> n = m"
  by (simp add: word_unat_eq_iff unat_of_nat)

lemma row_encoding_inj:
  assumes "row_ok a" and "row_ok b" and "row_encoding a = row_encoding b"
  shows "snd a = snd b"
proof -
  obtain n op0 op1 crn crm op2 where a: "a = (n, op0, op1, crn, crm, op2)" by (cases a)
  obtain n' op0' op1' crn' crm' op2' where b: "b = (n', op0', op1', crn', crm', op2')" by (cases b)
  from row_fields [OF assms(1) [unfolded a]] row_fields [OF assms(2) [unfolded b]] assms(3)
  have "(of_nat op0 :: u64) = of_nat op0'" "(of_nat op1 :: u64) = of_nat op1'"
    "(of_nat crn :: u64) = of_nat crn'" "(of_nat crm :: u64) = of_nat crm'"
    "(of_nat op2 :: u64) = of_nat op2'"
    unfolding a b by metis+
  with assms(1,2) show ?thesis
    by (simp add: a b small_of_nat_eq)
qed

lemma distinct_encodings:
  assumes "list_all row_ok t" and "distinct (map snd t)"
  shows "distinct (map row_encoding t)"
  unfolding distinct_map
proof
  show "distinct t"
    using assms(2) by (simp add: distinct_map)
  show "inj_on row_encoding (set t)"
  proof (rule inj_onI)
    fix a b
    assume "a \<in> set t" "b \<in> set t" "row_encoding a = row_encoding b"
    moreover from this have "snd a = snd b"
      using assms(1) by (intro row_encoding_inj) (auto simp: list_all_iff)
    ultimately show "a = b"
      using assms(2) by (auto simp: distinct_map dest: inj_onD)
  qed
qed

definition debug_table :: "sysreg_row list" where
  "debug_table = EL1_DEBUG_REGISTERS_READ @ EL1_DEBUG_REGISTERS_WRITE @ EL1_DEBUG_REGISTERS_READ_WRITE"

definition perfmon_table :: "sysreg_row list" where
  "perfmon_table = PERFMON_REGISTERS_READ @ PERFMON_REGISTERS_WRITE @ PERFMON_REGISTERS_READ_WRITE"

lemma tables_ok:
  "list_all row_ok debug_table" "list_all row_ok perfmon_table" "list_all row_ok FEATURE_ID_REGISTERS_READ"
  by code_simp+

lemma tables_distinct:
  "distinct (map snd debug_table)" "distinct (map snd perfmon_table)"
  "distinct (map snd FEATURE_ID_REGISTERS_READ)"
  by code_simp+

lemmas encodings_distinct = tables_ok(1) [THEN distinct_encodings, OF tables_distinct(1)]
  tables_ok(2) [THEN distinct_encodings, OF tables_distinct(2)]
  tables_ok(3) [THEN distinct_encodings, OF tables_distinct(3)]

fun is_debug_row :: "sysreg_row \<Rightarrow> bool" where
  "is_debug_row (_, op0, op1, _) \<longleftrightarrow> op0 = 2 \<and> op1 \<noteq> 1"

fun is_perfmon_row :: "sysreg_row \<Rightarrow> bool" where
  "is_perfmon_row (_, op0, op1, crn, crm, _) \<longleftrightarrow>
     op0 = 3 \<and> (op1 = 0 \<and> crn = 9 \<and> crm = 14 \<or> op1 = 3 \<and> crn = 14 \<and> 8 \<le> crm \<or>
       op1 = 3 \<and> crn = 9 \<and> 12 \<le> crm \<and> crm \<le> 14)"

lemma table_rows: "list_all is_debug_row debug_table" "list_all is_perfmon_row perfmon_table"
  by code_simp+

lemma small_of_nat_order:
  "n < 16 \<Longrightarrow> m < 16 \<Longrightarrow> (of_nat n :: u64) \<le> of_nat m \<longleftrightarrow> n \<le> m"
  by (simp add: word_le_nat_alt unat_of_nat)

lemma debug_row_access:
  assumes "row_ok row" and "is_debug_row row"
  shows "debug_el1_is_register_access (row_encoding row)"
proof -
  obtain n op0 op1 crn crm op2 where row: "row = (n, op0, op1, crn, crm, op2)" by (cases row)
  show ?thesis
    using assms unfolding row debug_el1_is_register_access_def row_fields [OF assms(1) [unfolded row]]
    using small_of_nat_eq [of op1 1] by simp
qed

lemma perfmon_row_access:
  assumes "row_ok row" and "is_perfmon_row row"
  shows "perfmon_is_register_access (row_encoding row)" "\<not> debug_el1_is_register_access (row_encoding row)"
proof -
  obtain n op0 op1 crn crm op2 where row: "row = (n, op0, op1, crn, crm, op2)" by (cases row)
  show "\<not> debug_el1_is_register_access (row_encoding row)"
    using assms unfolding row debug_el1_is_register_access_def row_fields [OF assms(1) [unfolded row]] by simp
  show "perfmon_is_register_access (row_encoding row)"
    using assms unfolding row perfmon_is_register_access_def row_fields [OF assms(1) [unfolded row]] Let_def
    using small_of_nat_order [of 8 crm] small_of_nat_order [of crm 15] small_of_nat_order [of 12 crm]
      small_of_nat_order [of crm 14]
    by auto
qed

lemma is_access_sysreg:
  "debug_el1_is_register_access (GET_ISS_SYSREG esr) = debug_el1_is_register_access esr"
  "perfmon_is_register_access (GET_ISS_SYSREG esr) = perfmon_is_register_access esr"
  by (simp_all add: debug_el1_is_register_access_def perfmon_is_register_access_def)

lemma select_reg_row:
  assumes "distinct (map row_encoding t)" and "row \<in> set t"
  shows "select_reg t (row_encoding row) = Some (row_name row)"
  unfolding select_reg_def using assms by (intro map_of_is_SomeI) (auto simp: comp_def)

section \<open>What a trapped access does\<close>

lemma parts_distinct:
  assumes "distinct (map row_encoding (a @ b @ c))"
  shows "distinct (map row_encoding (a @ c))" "distinct (map row_encoding (b @ c))"
  using assms by auto

lemmas access_tables =
  encodings_distinct(1) [unfolded debug_table_def, THEN parts_distinct(1)]
  encodings_distinct(1) [unfolded debug_table_def, THEN parts_distinct(2)]
  encodings_distinct(2) [unfolded perfmon_table_def, THEN parts_distinct(1)]
  encodings_distinct(2) [unfolded perfmon_table_def, THEN parts_distinct(2)]

lemma debug_row:
  assumes "row \<in> set debug_table" and "GET_ISS_SYSREG esr = row_encoding row"
  shows "debug_el1_is_register_access esr"
  using assms debug_row_access [of row] tables_ok(1) table_rows(1) is_access_sysreg(1) [of esr]
  by (simp add: list_all_iff)

lemma perfmon_row:
  assumes "row \<in> set perfmon_table" and "GET_ISS_SYSREG esr = row_encoding row"
  shows "perfmon_is_register_access esr" "\<not> debug_el1_is_register_access esr"
  using assms perfmon_row_access [of row] tables_ok(2) table_rows(2) is_access_sysreg [of esr]
  by (simp_all add: list_all_iff)

lemma process_access_read:
  assumes "distinct (map row_encoding readable)" and "row \<in> set readable"
    and "GET_ISS_SYSREG esr = row_encoding row" and "ISS_IS_READ esr"
  shows "process_access readable writable esr r msr = Ret (write_gp (GET_ISS_RT esr) (msr (row_name row)) r, msr)"
  using assms by (simp add: process_access_def select_reg_row Let_def)

text \<open>The value an instruction writes: the zero register reads as zero.\<close>

definition gp_value :: "u64 \<Rightarrow> arch_regs \<Rightarrow> u64" where
  "gp_value esr r = (if GET_ISS_RT esr = RT_REG_XZR then 0 else r_gp r ! unat (GET_ISS_RT esr))"

lemma xzr_in_range: "unat RT_REG_XZR < Suc NUM_GP_REGS"
  by (simp add: RT_REG_XZR_def NUM_GP_REGS_def)

lemma process_access_write:
  assumes "distinct (map row_encoding writable)" and "row \<in> set writable"
    and "GET_ISS_SYSREG esr = row_encoding row" and "\<not> ISS_IS_READ esr"
  shows "process_access readable writable esr r msr = Ret (r, msr(row_name row := gp_value esr r))"
  using assms rt_not_xzr [of esr]
  by (cases "GET_ISS_RT esr = RT_REG_XZR")
    (simp_all add: process_access_def select_reg_row read_gp_def gp_value_def Let_def xzr_in_range)

lemma write_gp_pc [simp]: "r_pc (write_gp rt x r) = r_pc r"
  by (simp add: write_gp_def)

lemma debug_rows:
  "row \<in> set (EL1_DEBUG_REGISTERS_READ @ EL1_DEBUG_REGISTERS_READ_WRITE) \<Longrightarrow> row \<in> set debug_table"
  "row \<in> set (EL1_DEBUG_REGISTERS_WRITE @ EL1_DEBUG_REGISTERS_READ_WRITE) \<Longrightarrow> row \<in> set debug_table"
  by (auto simp: debug_table_def)

lemma perfmon_rows:
  "row \<in> set (PERFMON_REGISTERS_READ @ PERFMON_REGISTERS_READ_WRITE) \<Longrightarrow> row \<in> set perfmon_table"
  "row \<in> set (PERFMON_REGISTERS_WRITE @ PERFMON_REGISTERS_READ_WRITE) \<Longrightarrow> row \<in> set perfmon_table"
  by (auto simp: perfmon_table_def)

definition skip_instruction :: "u64 \<Rightarrow> arch_regs \<times> msr_bank \<Rightarrow> (arch_regs \<times> msr_bank) outcome" where
  "skip_instruction esr = (\<lambda>(r, msr). Ret (r\<lparr>r_pc := r_pc r + GET_NEXT_PC_INC esr\<rparr>, msr))"

lemma skip_handled: "skip_instruction esr (r, msr) = Ret (r\<lparr>r_pc := r_pc r + GET_NEXT_PC_INC esr\<rparr>, msr)"
  by (simp add: skip_instruction_def)

lemma and_then_handled:
  "and_then (and_then p (\<lambda>(r, msr). Ret (True, r, msr))) (skip_or_inject cfg esr) = and_then p (skip_instruction esr)"
  by (cases p) (auto simp: skip_or_inject_def skip_instruction_def)

lemma primary_debug:
  assumes "vm_id v = HF_PRIMARY_VM_ID (cfg_secure cfg)" and "GET_ESR_EC esr = EC_MSR"
    and "debug_el1_is_register_access esr"
  shows "handle_system_register_access cfg v esr r msr =
    and_then (process_access (EL1_DEBUG_REGISTERS_READ @ EL1_DEBUG_REGISTERS_READ_WRITE)
      (EL1_DEBUG_REGISTERS_WRITE @ EL1_DEBUG_REGISTERS_READ_WRITE) esr r msr) (skip_instruction esr)"
  using assms by (simp add: handle_system_register_access_def debug_el1_process_access_def and_then_handled)

lemma primary_perfmon:
  assumes "vm_id v = HF_PRIMARY_VM_ID (cfg_secure cfg)" and "GET_ESR_EC esr = EC_MSR"
    and "perfmon_is_register_access esr" and "\<not> debug_el1_is_register_access esr"
  shows "handle_system_register_access cfg v esr r msr =
    and_then (process_access (PERFMON_REGISTERS_READ @ PERFMON_REGISTERS_READ_WRITE)
      (PERFMON_REGISTERS_WRITE @ PERFMON_REGISTERS_READ_WRITE) esr r msr) (skip_instruction esr)"
  using assms by (simp add: handle_system_register_access_def perfmon_process_access_def and_then_handled)

text \<open>
  C31: A trapped access of the primary VM to a debug or performance monitor register does what the
  instruction would have done. A read puts the value of exactly the named register into the target
  register, a write puts the value of the source register into it, nothing else changes, and the
  instruction is skipped.
\<close>

theorem primary_register_access:
  assumes "vm_id v = HF_PRIMARY_VM_ID (cfg_secure cfg)" and "GET_ESR_EC esr = EC_MSR"
    and "GET_ISS_SYSREG esr = row_encoding row"
  shows "(row \<in> set (EL1_DEBUG_REGISTERS_READ @ EL1_DEBUG_REGISTERS_READ_WRITE) \<union>
            set (PERFMON_REGISTERS_READ @ PERFMON_REGISTERS_READ_WRITE) \<and> ISS_IS_READ esr \<longrightarrow>
          handle_system_register_access cfg v esr r msr =
            Ret ((write_gp (GET_ISS_RT esr) (msr (row_name row)) r)\<lparr>r_pc := r_pc r + GET_NEXT_PC_INC esr\<rparr>, msr)) \<and>
         (row \<in> set (EL1_DEBUG_REGISTERS_WRITE @ EL1_DEBUG_REGISTERS_READ_WRITE) \<union>
            set (PERFMON_REGISTERS_WRITE @ PERFMON_REGISTERS_READ_WRITE) \<and> \<not> ISS_IS_READ esr \<longrightarrow>
          handle_system_register_access cfg v esr r msr =
            Ret (r\<lparr>r_pc := r_pc r + GET_NEXT_PC_INC esr\<rparr>, msr(row_name row := gp_value esr r)))"
proof (intro conjI impI; elim conjE UnE)
  assume "ISS_IS_READ esr" and row: "row \<in> set (EL1_DEBUG_REGISTERS_READ @ EL1_DEBUG_REGISTERS_READ_WRITE)"
  then show "handle_system_register_access cfg v esr r msr =
    Ret ((write_gp (GET_ISS_RT esr) (msr (row_name row)) r)\<lparr>r_pc := r_pc r + GET_NEXT_PC_INC esr\<rparr>, msr)"
    by (simp only: primary_debug [OF assms(1,2) debug_row [OF debug_rows(1) [OF row] assms(3)]]
        process_access_read [OF access_tables(1) _ assms(3)] and_then.simps skip_handled write_gp_pc)
next
  assume "ISS_IS_READ esr" and row: "row \<in> set (PERFMON_REGISTERS_READ @ PERFMON_REGISTERS_READ_WRITE)"
  then show "handle_system_register_access cfg v esr r msr =
    Ret ((write_gp (GET_ISS_RT esr) (msr (row_name row)) r)\<lparr>r_pc := r_pc r + GET_NEXT_PC_INC esr\<rparr>, msr)"
    by (simp only: primary_perfmon [OF assms(1,2) perfmon_row [OF perfmon_rows(1) [OF row] assms(3)]]
        process_access_read [OF access_tables(3) _ assms(3)] and_then.simps skip_handled write_gp_pc)
next
  assume "\<not> ISS_IS_READ esr" and row: "row \<in> set (EL1_DEBUG_REGISTERS_WRITE @ EL1_DEBUG_REGISTERS_READ_WRITE)"
  then show "handle_system_register_access cfg v esr r msr =
    Ret (r\<lparr>r_pc := r_pc r + GET_NEXT_PC_INC esr\<rparr>, msr(row_name row := gp_value esr r))"
    by (simp only: primary_debug [OF assms(1,2) debug_row [OF debug_rows(2) [OF row] assms(3)]]
        process_access_write [OF access_tables(2) _ assms(3)] and_then.simps skip_handled simp_thms)
next
  assume "\<not> ISS_IS_READ esr" and row: "row \<in> set (PERFMON_REGISTERS_WRITE @ PERFMON_REGISTERS_READ_WRITE)"
  then show "handle_system_register_access cfg v esr r msr =
    Ret (r\<lparr>r_pc := r_pc r + GET_NEXT_PC_INC esr\<rparr>, msr(row_name row := gp_value esr r))"
    by (simp only: primary_perfmon [OF assms(1,2) perfmon_row [OF perfmon_rows(2) [OF row] assms(3)]]
        process_access_write [OF access_tables(4) _ assms(3)] and_then.simps skip_handled simp_thms)
qed

theorem primary_register_access_witness:
  "handle_system_register_access cfg_plain ((zero_vm 0 0)\<lparr>vm_id := 1\<rparr>) 0x62240065 zero_regs
     (\<lambda>name. if name = ''MDSCR_EL1'' then 0x8000 else 0) =
   Ret ((write_gp 3 0x8000 zero_regs)\<lparr>r_pc := 4\<rparr>, \<lambda>name. if name = ''MDSCR_EL1'' then 0x8000 else 0)"
proof -
  have row: "(''MDSCR_EL1'', 2, 0, 0, 2, 2) \<in> set EL1_DEBUG_REGISTERS_READ_WRITE"
    by (simp add: EL1_DEBUG_REGISTERS_READ_WRITE_def)
  have "GET_ISS_SYSREG 0x62240065 = row_encoding (''MDSCR_EL1'', 2, 0, 0, 2, 2)"
    "GET_ESR_EC 0x62240065 = EC_MSR" "ISS_IS_READ 0x62240065" "GET_ISS_RT 0x62240065 = 3"
    "GET_NEXT_PC_INC 0x62240065 = 4"
    by (simp_all add: row_encoding_def GET_ISS_ENCODING_def iss_defs GET_ESR_EC_def ESR_EC_OFFSET_def EC_MSR_def
        GET_NEXT_PC_INC_def GET_ESR_IL_def)
  with row show ?thesis
    using primary_register_access [of "(zero_vm 0 0)\<lparr>vm_id := 1\<rparr>" cfg_plain "0x62240065"
        "(''MDSCR_EL1'', 2, 0, 0, 2, 2)" zero_regs "\<lambda>name. if name = ''MDSCR_EL1'' then 0x8000 else 0"]
    by (simp add: HF_PRIMARY_VM_ID_def cfg_plain_def row_name_def zero_regs_def)
qed

lemma feature_id_process_access_Ret:
  "feature_id_process_access a esr r msr =
     Ret (True, if ISS_IS_READ esr
       then write_gp (GET_ISS_RT esr) (mask_feature a (GET_ISS_SYSREG esr)
         (case select_reg FEATURE_ID_REGISTERS_READ (GET_ISS_SYSREG esr) of Some name \<Rightarrow> msr name | None \<Rightarrow> 0)) r
       else r)"
  by (simp add: feature_id_process_access_def Let_def)

text \<open>A system register access by any VM but the primary one.\<close>

definition feature_value :: "vm \<Rightarrow> u64 \<Rightarrow> msr_bank \<Rightarrow> u64" where
  "feature_value v esr msr = mask_feature (vm_arch v) (GET_ISS_SYSREG esr)
     (case select_reg FEATURE_ID_REGISTERS_READ (GET_ISS_SYSREG esr) of Some name \<Rightarrow> msr name | None \<Rightarrow> 0)"

lemma feature_access:
  assumes "GET_ESR_EC esr = EC_MSR"
    and "\<not> debug_el1_is_register_access esr" "\<not> perfmon_is_register_access esr" "feature_id_is_register_access esr"
  shows "handle_system_register_access cfg v esr r msr =
    Ret ((if ISS_IS_READ esr then write_gp (GET_ISS_RT esr) (feature_value v esr msr) r else r)
       \<lparr>r_pc := r_pc r + GET_NEXT_PC_INC esr\<rparr>, msr)"
  using assms by (simp add: handle_system_register_access_def feature_id_process_access_Ret skip_or_inject_def
      feature_value_def)

lemma secondary_injects:
  assumes "vm_id v \<noteq> HF_PRIMARY_VM_ID (cfg_secure cfg)" and "GET_ESR_EC esr = EC_MSR"
    and "debug_el1_is_register_access esr \<or> perfmon_is_register_access esr \<or> \<not> feature_id_is_register_access esr"
  shows "handle_system_register_access cfg v esr r msr = inject_el1_unknown_exception cfg esr r msr"
  using assms by (auto simp: handle_system_register_access_def debug_el1_process_access_def
      perfmon_process_access_def skip_or_inject_def)

lemma handler_addr_Ret:
  assumes "r_spsr r AND PSR_ARCH_MODE_32 = 0 \<or> r_spsr r AND PSR_PE_MODE_MASK = PSR_PE_MODE_EL0T"
  shows "\<exists>a. get_el1_exception_handler_addr cfg r msr = Ret a"
  using assms by (auto simp: get_el1_exception_handler_addr_def Let_def)

abbreviation exception_regs :: "arch_cfg \<Rightarrow> string set" where
  "exception_regs cfg \<equiv> {el1_reg cfg ''ESR'', el1_reg cfg ''FAR'', el1_reg cfg ''ELR'', el1_reg cfg ''SPSR''}"

lemma inject_unknown_Ret:
  assumes "r_spsr r AND PSR_ARCH_MODE_32 = 0 \<or> r_spsr r AND PSR_PE_MODE_MASK = PSR_PE_MODE_EL0T"
  shows "\<exists>r' msr'. inject_el1_unknown_exception cfg esr r msr = Ret (r', msr') \<and> r_gp r' = r_gp r \<and>
    (\<forall>n. n \<notin> exception_regs cfg \<longrightarrow> msr' n = msr n)"
  using handler_addr_Ret [OF assms, of cfg msr]
  by (auto simp: inject_el1_unknown_exception_def inject_el1_exception_def)

text \<open>
  C6: A trapped access of a secondary VM to a system register never reads or writes a register of the
  processor beyond the four that describe an exception to the VM itself, and the general purpose
  registers stay as they were, except that reading a feature register puts the masked value, or zero
  for a reserved encoding, into the target register. The access always returns when the VM runs in a
  mode in which it can take an exception.
\<close>

theorem secondary_register_access:
  assumes "vm_id v \<noteq> HF_PRIMARY_VM_ID (cfg_secure cfg)" and "GET_ESR_EC esr = EC_MSR"
    and "r_spsr r AND PSR_ARCH_MODE_32 = 0 \<or> r_spsr r AND PSR_PE_MODE_MASK = PSR_PE_MODE_EL0T"
  shows "\<exists>r' msr'. handle_system_register_access cfg v esr r msr = Ret (r', msr') \<and>
     (\<forall>n. n \<notin> exception_regs cfg \<longrightarrow> msr' n = msr n) \<and>
     (r_gp r' = r_gp r \<or>
      feature_id_is_register_access esr \<and> ISS_IS_READ esr \<and> msr' = msr \<and>
      r_gp r' = r_gp (write_gp (GET_ISS_RT esr) (feature_value v esr msr) r))"
proof (cases "debug_el1_is_register_access esr \<or> perfmon_is_register_access esr \<or> \<not> feature_id_is_register_access esr")
  case True
  with inject_unknown_Ret [OF assms(3), of cfg esr msr] show ?thesis
    by (auto simp: secondary_injects [OF assms(1,2)])
next
  case False
  then show ?thesis
    by (simp add: feature_access [OF assms(2)])
qed

theorem secondary_register_access_witness:
  "\<exists>r' msr'. handle_system_register_access cfg_plain ((zero_vm 0 0)\<lparr>vm_id := 2\<rparr>) 0x62240065 zero_regs
       (\<lambda>name. 7) = Ret (r', msr') \<and> r_gp r' = r_gp zero_regs"
proof -
  have "GET_ESR_EC 0x62240065 = EC_MSR" "\<not> feature_id_is_register_access 0x62240065"
    by (simp_all add: iss_defs GET_ESR_EC_def ESR_EC_OFFSET_def EC_MSR_def feature_id_is_register_access_def)
  with secondary_register_access [of "(zero_vm 0 0)\<lparr>vm_id := 2\<rparr>" cfg_plain "0x62240065" zero_regs "\<lambda>name. 7"]
  show ?thesis
    by (auto simp: HF_PRIMARY_VM_ID_def cfg_plain_def zero_regs_def)
qed

section \<open>Features hidden from a secondary VM\<close>

lemma secondary_features:
  assumes "vm_id v \<noteq> HF_PRIMARY_VM_ID (cfg_secure cfg)" and "trapped_features (vm_arch v) AND NOT HF_FEATURE_ALL = 0"
  shows "trapped_features (vm_arch (arch_vm_features_set cfg v)) = HF_FEATURE_ALL"
proof -
  let ?f = "trapped_features (vm_arch v)"
  have "HF_FEATURE_LOR OR HF_FEATURE_SPE OR HF_FEATURE_TRACE OR HF_FEATURE_DEBUG OR
      HF_FEATURE_PERFMON OR HF_FEATURE_RAS OR HF_FEATURE_PAUTH = HF_FEATURE_ALL"
    by (simp add: feature_bits)
  moreover have "?f OR HF_FEATURE_ALL = HF_FEATURE_ALL"
  proof (rule bit_word_eqI)
    fix n assume "n < LENGTH(64)"
    then show "bit (?f OR HF_FEATURE_ALL) n = bit HF_FEATURE_ALL n"
      using arg_cong [OF assms(2), of "\<lambda>x. bit x n"] by (auto simp: bit_simps)
  qed
  ultimately show ?thesis
    using assms(1) by (simp add: arch_vm_features_set_def Let_def or.assoc)
qed

lemma traps_all:
  assumes "trapped_features a = HF_FEATURE_ALL"
  shows "feature_set_traps a r = Ret (trap_pauth (trap_lor (trap_perfmon (trap_trace (trap_debug (trap_spe
    (trap_ras (trap_none a, r))))))))"
  using assms by (simp add: feature_set_traps_def when_feature_def feature_bits)

lemmas trap_steps = trap_none_def trap_ras_def trap_spe_def trap_debug_def trap_trace_def trap_perfmon_def
  trap_lor_def trap_pauth_def mdcr_of_def

lemma and_or_absorb: "(x AND c) OR c = c" for c :: u64
  by (rule bit_word_eqI) (auto simp: bit_simps)

lemma secondary_masks:
  assumes "vm_id v \<noteq> HF_PRIMARY_VM_ID (cfg_secure cfg)" and "trapped_features (vm_arch v) AND NOT HF_FEATURE_ALL = 0"
    and "feature_set_traps (vm_arch (arch_vm_features_set cfg v)) r = Ret (a, r')"
  shows "mask_mmfr1 a = NOT 0xf000f00" "mask_pfr0 a = NOT 0xf0000000" "mask_dfr0 a = NOT 0xfff00000ff0"
    "mask_isar1 a = NOT 0xff000f00"
    "r_hcr_el2 r' = (r_hcr_el2 r OR HCR_EL2_TERR OR HCR_EL2_TLOR) AND NOT (HCR_EL2_APK OR HCR_EL2_API)"
    "r_lazy r' Mdcr_el2 = ((r_lazy r Mdcr_el2 OR MDCR_EL2_TPMS) AND NOT MDCR_EL2_E2PB) OR MDCR_EL2_TDRA OR
       MDCR_EL2_TDOSA OR MDCR_EL2_TDA OR MDCR_EL2_TTRF OR MDCR_EL2_TPM OR MDCR_EL2_TPMCR"
  using assms(3) unfolding traps_all [OF secondary_features [OF assms(1,2)]]
  by (auto simp: trap_steps id_fields or.assoc)

text \<open>
  C32: What a secondary VM sees of the processor's features once its traps are set up. The value it reads
  from a feature register is the processor's with exactly these fields cleared: RAS in
  \<open>ID_AA64PFR0_EL1\<close>; trace filtering, the double lock, statistical profiling, the performance monitors and
  the trace unit in \<open>ID_AA64DFR0_EL1\<close>; the two generic code authentication fields and implementation defined
  address authentication in \<open>ID_AA64ISAR1_EL1\<close>; speculative SError and the virtualization host
  extensions in \<open>ID_AA64MMFR1_EL1\<close>. Every other field is passed on. In particular the LORegions field
  (bits 19 to 16 of \<open>ID_AA64MMFR1_EL1\<close>) and the architected address authentication field (bits 7 to 4 of
  \<open>ID_AA64ISAR1_EL1\<close>) stay visible, although accesses to the registers of both features are trapped,
  as are those of all the features that are hidden.
\<close>

theorem secondary_features_exact:
  assumes "vm_id v \<noteq> HF_PRIMARY_VM_ID (cfg_secure cfg)" and "trapped_features (vm_arch v) AND NOT HF_FEATURE_ALL = 0"
    and "feature_set_traps (vm_arch (arch_vm_features_set cfg v)) r = Ret (a, r')"
  shows "mask_feature a ID_AA64PFR0_EL1_ENC x = x AND NOT (push_bit 28 0xf) \<and>
    mask_feature a ID_AA64DFR0_EL1_ENC x = x AND NOT (push_bit 40 0xf OR push_bit 36 0xf OR push_bit 32 0xf OR
      push_bit 8 0xf OR push_bit 4 0xf) \<and>
    mask_feature a ID_AA64ISAR1_EL1_ENC x = x AND NOT (push_bit 28 0xf OR push_bit 24 0xf OR push_bit 8 0xf) \<and>
    mask_feature a ID_AA64MMFR1_EL1_ENC x = x AND NOT (push_bit 24 0xf OR push_bit 8 0xf) \<and>
    (enc \<notin> {ID_AA64PFR0_EL1_ENC, ID_AA64DFR0_EL1_ENC, ID_AA64ISAR1_EL1_ENC, ID_AA64MMFR1_EL1_ENC} \<longrightarrow>
      mask_feature a enc x = x) \<and>
    mask_feature a ID_AA64MMFR1_EL1_ENC x AND push_bit 16 0xf = x AND push_bit 16 0xf \<and>
    mask_feature a ID_AA64ISAR1_EL1_ENC x AND push_bit 4 0xf = x AND push_bit 4 0xf \<and>
    r_hcr_el2 r' = (r_hcr_el2 r OR HCR_EL2_TERR OR HCR_EL2_TLOR) AND NOT (HCR_EL2_APK OR HCR_EL2_API) \<and>
    r_lazy r' Mdcr_el2 = ((r_lazy r Mdcr_el2 OR MDCR_EL2_TPMS) AND NOT MDCR_EL2_E2PB) OR MDCR_EL2_TDRA OR
      MDCR_EL2_TDOSA OR MDCR_EL2_TDA OR MDCR_EL2_TTRF OR MDCR_EL2_TPM OR MDCR_EL2_TPMCR"
proof -
  note masks = secondary_masks [OF assms]
  note encs = mask_feature_def ID_AA64MMFR1_EL1_ENC_def ID_AA64PFR0_EL1_ENC_def ID_AA64DFR0_EL1_ENC_def
    ID_AA64ISAR1_EL1_ENC_def GET_ISS_ENCODING_def iss_shifts
  have "mask_feature a ID_AA64PFR0_EL1_ENC x = x AND mask_pfr0 a"
    "mask_feature a ID_AA64DFR0_EL1_ENC x = x AND mask_dfr0 a"
    "mask_feature a ID_AA64ISAR1_EL1_ENC x = x AND mask_isar1 a"
    "mask_feature a ID_AA64MMFR1_EL1_ENC x = x AND mask_mmfr1 a"
    by (simp_all add: encs)
  moreover have "mask_feature a enc x = x"
    if "enc \<notin> {ID_AA64PFR0_EL1_ENC, ID_AA64DFR0_EL1_ENC, ID_AA64ISAR1_EL1_ENC, ID_AA64MMFR1_EL1_ENC}"
    using that by (simp add: mask_feature_def)
  ultimately show ?thesis
    by (simp add: masks and.assoc)
qed

theorem secondary_features_exact_witness:
  "case feature_set_traps (vm_arch (arch_vm_features_set cfg_plain ((zero_vm 0 0)\<lparr>vm_id := 2\<rparr>))) zero_regs of
     Ret (a, r) \<Rightarrow> mask_feature a ID_AA64MMFR1_EL1_ENC 0xffffffff = 0xf0fff0ff | _ \<Rightarrow> False"
proof -
  have id: "vm_id ((zero_vm 0 0)\<lparr>vm_id := 2\<rparr>) \<noteq> HF_PRIMARY_VM_ID (cfg_secure cfg_plain)"
    by (simp add: HF_PRIMARY_VM_ID_def cfg_plain_def)
  have none: "trapped_features (vm_arch ((zero_vm 0 0)\<lparr>vm_id := 2\<rparr>)) AND NOT HF_FEATURE_ALL = 0"
    by (simp add: zero_vm_def)
  obtain a r where traps: "feature_set_traps (vm_arch (arch_vm_features_set cfg_plain ((zero_vm 0 0)\<lparr>vm_id := 2\<rparr>))) zero_regs = Ret (a, r)"
    unfolding traps_all [OF secondary_features [OF id none]] by (metis surj_pair)
  show ?thesis
    using secondary_features_exact [OF id none traps, of "0xffffffff"] by (simp add: traps)
qed

text \<open>
  An unsupported read into the zero register indexes the general purpose registers out of bounds.
\<close>

theorem unsupported_read_of_zero_register:
  assumes "vm_id v = HF_PRIMARY_VM_ID (cfg_secure cfg)" and "GET_ESR_EC esr = EC_MSR"
    and "debug_el1_is_register_access esr" and "ISS_IS_READ esr" and "GET_ISS_RT esr = RT_REG_XZR"
    and "select_reg (EL1_DEBUG_REGISTERS_READ @ EL1_DEBUG_REGISTERS_READ_WRITE) (GET_ISS_SYSREG esr) = None"
  shows "handle_system_register_access cfg v esr r msr = Undef"
  using assms by (simp add: primary_debug process_access_def Let_def read_gp_def xzr_in_range)
    (simp add: RT_REG_XZR_def NUM_GP_REGS_def)

end
