(* ===== verification/Reset.thy ===== *)
theory Reset
  imports VM_Mem Trap_Props
begin

text \<open>
  The registers with which a vCPU starts: what \<open>arch_regs_reset\<close> of \<^verbatim>\<open>src/arch/aarch64/hypervisor/cpu.c\<close>, the
  hypervisor configuration of \<^verbatim>\<open>src/arch/aarch64/sysregs.c\<close> and the feature traps of
  \<^verbatim>\<open>src/arch/aarch64/hypervisor/feature_id.c\<close> give together.
\<close>

section \<open>Registers of a new vCPU\<close>

definition keeps_isolation :: "arch_regs \<Rightarrow> arch_regs \<Rightarrow> bool" where
  "keeps_isolation r r' \<longleftrightarrow> r_hcr_el2 r' AND NOT 0x31800000000 = r_hcr_el2 r AND NOT 0x31800000000 \<and>
     (\<forall>x. x \<noteq> Mdcr_el2 \<longrightarrow> r_lazy r' x = r_lazy r x) \<and> r_gp r' = r_gp r \<and> r_pc r' = r_pc r \<and> r_spsr r' = r_spsr r \<and>
     r_ttbr0_el2 r' = r_ttbr0_el2 r"

lemma keeps_isolation_trans: "keeps_isolation r r' \<Longrightarrow> keeps_isolation r' r'' \<Longrightarrow> keeps_isolation r r''"
  by (simp add: keeps_isolation_def)

lemma keeps_isolation_mdcr: "keeps_isolation r (mdcr_of f r)"
  by (simp add: keeps_isolation_def mdcr_of_def)

lemma trap_steps_keep:
  "keeps_isolation (snd p) (snd (trap_ras p))" "keeps_isolation (snd p) (snd (trap_spe p))"
  "keeps_isolation (snd p) (snd (trap_debug p))" "keeps_isolation (snd p) (snd (trap_trace p))"
  "keeps_isolation (snd p) (snd (trap_perfmon p))" "keeps_isolation (snd p) (snd (trap_lor p))"
  "keeps_isolation (snd p) (snd (trap_pauth p))"
  by (simp_all add: trap_ras_def trap_spe_def trap_debug_def trap_trace_def trap_perfmon_def trap_lor_def
      trap_pauth_def keeps_isolation_mdcr split: prod.splits)
    (simp_all add: keeps_isolation_def trap_bits HCR_EL2_APK_def HCR_EL2_API_def bit.conj_disj_distrib2 and.assoc)

lemma when_feature_keeps:
  "keeps_isolation r (snd p) \<Longrightarrow> (\<And>q. keeps_isolation (snd q) (snd (f q))) \<Longrightarrow>
    keeps_isolation r (snd (when_feature features feature f p))"
  by (cases "features AND feature = 0") (simp_all add: when_feature_def keeps_isolation_trans [of r "snd p"])

lemma feature_set_traps_keeps:
  assumes "feature_set_traps a r = Ret (a', r')"
  shows "keeps_isolation r r'"
proof -
  have "keeps_isolation r (snd (when_feature f HF_FEATURE_PAUTH trap_pauth (when_feature f HF_FEATURE_LOR trap_lor
      (when_feature f HF_FEATURE_PERFMON trap_perfmon (when_feature f HF_FEATURE_TRACE trap_trace
      (when_feature f HF_FEATURE_DEBUG trap_debug (when_feature f HF_FEATURE_SPE trap_spe
      (when_feature f HF_FEATURE_RAS trap_ras (trap_none a, r)))))))))" for f
    by (intro when_feature_keeps trap_steps_keep) (simp add: keeps_isolation_def)
  then show ?thesis
    using assms unfolding feature_set_traps_def Let_def by (metis outcome.distinct(1) outcome.inject snd_conv)
qed

lemma hcr_bits:
  "bit (get_hcr_el2_value cfg pfr i el0) 0" "bit (get_hcr_el2_value cfg pfr i el0) 18"
  "bit (get_hcr_el2_value cfg pfr i el0) 19" "bit (get_hcr_el2_value cfg pfr i el0) 20"
  "bit (get_hcr_el2_value cfg pfr i el0) 21" "bit (get_hcr_el2_value cfg pfr i el0) 22"
  "bit (get_hcr_el2_value cfg pfr i el0) 3 \<longleftrightarrow> i \<noteq> HF_PRIMARY_VM_ID (cfg_secure cfg)"
  "bit (get_hcr_el2_value cfg pfr i el0) 4 \<longleftrightarrow> i \<noteq> HF_PRIMARY_VM_ID (cfg_secure cfg)"
  "bit (get_hcr_el2_value cfg pfr i el0) 27 \<longleftrightarrow> cfg_vhe cfg \<and> el0"
  "bit (get_hcr_el2_value cfg pfr i el0) 34 \<longleftrightarrow> cfg_vhe cfg"
  unfolding get_hcr_el2_value_def hcr_consts Let_def
  by (simp_all add: bit_or_iff bit_and_iff bit_not_iff bit_push_bit_iff bit_1_iff bit_if)

text \<open>
  C20: The registers with which a vCPU starts. The reset never meets undefined behaviour and panics
  only for an EL0 partition without VHE or for another VM that asks to trap unknown features. A VM that is not an EL0 partition then runs with stage-2
  translation in effect (\<open>VM\<close> set, \<open>TGE\<close> clear) through its own page table, tagged with its own
  identifier, at EL1 with all interrupts masked. An EL0 partition runs at EL0 of the host regime (\<open>E2H\<close> and
  \<open>TGE\<close> set, under which \<open>VM\<close> has no effect) through its own stage-1 table. In both cases SMC instructions,
  feature registers, implementation registers and set/way maintenance are trapped, physical
  interrupts of a VM other than the primary one go to EL2, and of the old program
  counter and general-purpose registers only the entry point and its argument are left.
\<close>

theorem reset_isolates:
  assumes "length (r_gp r) = NUM_GP_REGS"
  shows "case arch_regs_reset e msr cid index v r of
    Ret (a, r') \<Rightarrow>
      (\<forall>n \<in> {18, 19, 20, 21, 22}. bit (r_hcr_el2 r') n) \<and>
      (\<forall>n \<in> {3, 4}. bit (r_hcr_el2 r') n \<longleftrightarrow> vm_id v \<noteq> HF_PRIMARY_VM_ID (he_secure e)) \<and>
      (if vm_el0_partition v
       then bit (r_hcr_el2 r') 27 \<and> bit (r_hcr_el2 r') 34 \<and> r_spsr r' = 0 \<and>
         r_ttbr0_el2 r' = ptable_root (vm_ptable v) OR push_bit 48 (ucast (vm_id v))
       else bit (r_hcr_el2 r') 0 \<and> \<not> bit (r_hcr_el2 r') 27 \<and> r_spsr r' = 0x3c5 \<and>
         r_lazy r' Vttbr_el2 = ptable_root (vm_ptable v) OR push_bit 48 (ucast (vm_id v)) \<and>
         (he_secure e \<longrightarrow> r_lazy r' Vsttbr_el2 = ptable_root (vm_ptable v))) \<and>
      r_pc r' = r_pc r \<and> r_gp r' = r_gp r ! 0 # replicate (NUM_GP_REGS - 1) 0
  | Panic \<Rightarrow> (if vm_el0_partition v then \<not> cfg_vhe (he_cfg e)
      else trapped_features (vm_arch v) AND NOT HF_FEATURE_ALL \<noteq> 0)
  | Undef \<Rightarrow> False"
proof -
  let ?h = "get_hcr_el2_value (he_cfg e) (msr ''ID_AA64PFR0_EL1'') (vm_id v) (vm_el0_partition v)"
  note h = hcr_bits [of "he_cfg e" "msr ''ID_AA64PFR0_EL1''" "vm_id v" "vm_el0_partition v"]
  have same: "bit x n = bit ?h n" if "x AND NOT 0x31800000000 = ?h AND NOT 0x31800000000"
    and "n \<in> {0, 3, 4, 18, 19, 20, 21, 22, 27}" for x n
    using arg_cong [OF that(1), of "\<lambda>x. bit x n"] that(2) by (auto simp: bit_and_iff bit_not_iff bit_numeral_rec)
  have gp: "(replicate NUM_GP_REGS 0)[0 := r_gp r ! 0] = r_gp r ! 0 # replicate (NUM_GP_REGS - 1) (0 :: u64)"
    by (simp add: NUM_GP_REGS_def numeral_eq_Suc)
  show ?thesis
  proof (cases "vm_el0_partition v")
    case True
    then show ?thesis
      using h gp by (auto simp: arch_regs_reset_def Let_def check_def reset_el0_regs_def gic_regs_reset_def zero_regs_def
          PSR_PE_MODE_EL0T_def)
  next
    case False
    let ?p = "vm_id v = HF_PRIMARY_VM_ID (he_secure e)"
    define c where "c = (if ?p then if cfg_vhe (he_cfg e) then push_bit 10 1 OR push_bit 11 1
        else push_bit 0 1 OR push_bit 1 1 else (0 :: u64))"
    define s where "s = reset_el1_regs e msr (if ?p then cid else of_nat index) v (zero_regs\<lparr>r_pc := r_pc r,
      r_gp := (r_gp zero_regs)[0 := r_gp r ! 0], r_hcr_el2 := ?h, r_lazy := (\<lambda>_. 0)(Cnthctl_el2 := c)\<rparr>)"
    have run: "arch_regs_reset e msr cid index v r =
      and_then (feature_set_traps (vm_arch v) s) (\<lambda>(a, s). Ret (a, gic_regs_reset ?p s))"
      using False by (simp add: arch_regs_reset_def Let_def s_def c_def)
    have s: "r_hcr_el2 s = ?h" "r_spsr s = 0x3c5" "r_lazy s Vttbr_el2 = ptable_root (vm_ptable v) OR push_bit 48 (ucast (vm_id v))"
      "he_secure e \<longrightarrow> r_lazy s Vsttbr_el2 = ptable_root (vm_ptable v)" "r_pc s = r_pc r"
      "r_gp s = r_gp r ! 0 # replicate (NUM_GP_REGS - 1) 0"
      using gp by (simp_all add: s_def reset_el1_regs_def Let_def zero_regs_def PSR_D_def PSR_A_def PSR_I_def PSR_F_def
          PSR_PE_MODE_EL1H_def)
    show ?thesis
    proof (cases "feature_set_traps (vm_arch v) s")
      case (Ret x)
      obtain a s' where x: "x = (a, s')" by (cases x)
      from feature_set_traps_keeps [OF Ret [unfolded x]] have k: "keeps_isolation s s'" .
      note hb = same [of "r_hcr_el2 s'"]
      have "r_hcr_el2 s' AND NOT 0x31800000000 = ?h AND NOT 0x31800000000"
        using k s(1) by (simp add: keeps_isolation_def)
      note hb = hb [OF this]
      have g: "r_hcr_el2 (gic_regs_reset q s') = r_hcr_el2 s'" "r_spsr (gic_regs_reset q s') = r_spsr s'"
        "r_lazy (gic_regs_reset q s') = r_lazy s'" "r_pc (gic_regs_reset q s') = r_pc s'"
        "r_gp (gic_regs_reset q s') = r_gp s'" for q
        by (simp_all add: gic_regs_reset_def Let_def)
      have b: "bit (r_hcr_el2 s') 0 = bit ?h 0" "bit (r_hcr_el2 s') 3 = bit ?h 3" "bit (r_hcr_el2 s') 4 = bit ?h 4"
        "bit (r_hcr_el2 s') 18 = bit ?h 18" "bit (r_hcr_el2 s') 19 = bit ?h 19" "bit (r_hcr_el2 s') 20 = bit ?h 20"
        "bit (r_hcr_el2 s') 21 = bit ?h 21" "bit (r_hcr_el2 s') 22 = bit ?h 22" "bit (r_hcr_el2 s') 27 = bit ?h 27"
        by (rule hb; simp)+
      show ?thesis
        unfolding run Ret x using False h s k by (simp add: g b keeps_isolation_def)
    qed (simp_all add: run False feature_set_traps_def Let_def split: if_splits)
  qed
qed

theorem reset_isolates_witness:
  "case arch_regs_reset sample_hyp_env (\<lambda>_. 0) 0 0 ((zero_vm 1 2)\<lparr>vm_id := 2\<rparr>) zero_regs of
     Ret (a, r) \<Rightarrow> r_spsr r = 0x3c5 \<and> r_lazy r Vttbr_el2 = push_bit 48 2 | _ \<Rightarrow> False"
proof -
  let ?v = "(zero_vm 1 2)\<lparr>vm_id := 2\<rparr>"
  have f: "trapped_features (vm_arch ?v) AND NOT HF_FEATURE_ALL = 0" "\<not> vm_el0_partition ?v"
    "ptable_root (vm_ptable ?v) = 0"
    by (simp_all add: zero_vm_def)
  have "length (r_gp zero_regs) = NUM_GP_REGS" by (simp add: zero_regs_def)
  from reset_isolates [OF this, where e = sample_hyp_env and msr = "\<lambda>_. 0" and cid = 0 and index = 0 and v = ?v] f show ?thesis
    by (simp split: outcome.splits prod.splits)
qed

end
