(* ===== verification/FFA.thy ===== *)
theory FFA
  imports Hyp
begin

text \<open>
  The values that partitions and the hypervisor exchange: function identifiers, error codes and the
  packing of arguments (\<^verbatim>\<open>inc/vmapi/hf/ffa.h\<close>, \<^verbatim>\<open>inc/hf/ffa_internal.h\<close>, \<^verbatim>\<open>inc/vmapi/hf/abi.h\<close>).
\<close>

section \<open>Identifiers\<close>

definition FFA_ERROR_32 :: u32 where "FFA_ERROR_32 = 0x84000060"
definition FFA_SUCCESS_32 :: u32 where "FFA_SUCCESS_32 = 0x84000061"
definition FFA_SUCCESS_64 :: u32 where "FFA_SUCCESS_64 = 0xC4000061"
definition FFA_INTERRUPT_32 :: u32 where "FFA_INTERRUPT_32 = 0x84000062"
definition FFA_MSG_WAIT_32 :: u32 where "FFA_MSG_WAIT_32 = 0x8400006B"
definition FFA_YIELD_32 :: u32 where "FFA_YIELD_32 = 0x8400006C"
definition FFA_RUN_32 :: u32 where "FFA_RUN_32 = 0x8400006D"
definition HF_FFA_RUN_WAIT_FOR_INTERRUPT :: u32 where "HF_FFA_RUN_WAIT_FOR_INTERRUPT = 0xff06"

text \<open>The error codes are negative 32-bit integers.\<close>

definition FFA_NOT_SUPPORTED :: "32 word" where "FFA_NOT_SUPPORTED = - 1"
definition FFA_INVALID_PARAMETERS :: "32 word" where "FFA_INVALID_PARAMETERS = - 2"
definition FFA_NO_MEMORY :: "32 word" where "FFA_NO_MEMORY = - 3"
definition FFA_BUSY :: "32 word" where "FFA_BUSY = - 4"
definition FFA_INTERRUPTED :: "32 word" where "FFA_INTERRUPTED = - 5"
definition FFA_DENIED :: "32 word" where "FFA_DENIED = - 6"
definition FFA_RETRY :: "32 word" where "FFA_RETRY = - 7"
definition FFA_ABORTED :: "32 word" where "FFA_ABORTED = - 8"
definition FFA_NO_DATA :: "32 word" where "FFA_NO_DATA = - 9"

definition FFA_SLEEP_INDEFINITE :: u64 where "FFA_SLEEP_INDEFINITE = 0"
definition HF_INVALID_INTID :: u32 where "HF_INVALID_INTID = 0xffffffff"

lemmas ffa_errors = FFA_NOT_SUPPORTED_def FFA_INVALID_PARAMETERS_def FFA_NO_MEMORY_def FFA_BUSY_def
  FFA_INTERRUPTED_def FFA_DENIED_def FFA_RETRY_def FFA_ABORTED_def FFA_NO_DATA_def

lemmas ffa_functions = FFA_ERROR_32_def FFA_SUCCESS_32_def FFA_SUCCESS_64_def FFA_INTERRUPT_32_def
  FFA_MSG_WAIT_32_def FFA_YIELD_32_def FFA_RUN_32_def HF_FFA_RUN_WAIT_FOR_INTERRUPT_def

section \<open>Packing of arguments\<close>

text \<open>A value whose members are zero except the function identifier.\<close>

definition ffa_call :: "u32 \<Rightarrow> ffa_value" where
  "ffa_call f = \<lparr>func = ucast f, arg1 = 0, arg2 = 0, arg3 = 0, arg4 = 0, arg5 = 0, arg6 = 0, arg7 = 0\<rparr>"

definition ffa_error :: "32 word \<Rightarrow> ffa_value" where
  "ffa_error error_code = (ffa_call FFA_ERROR_32)\<lparr>arg2 := ucast error_code\<rparr>"

definition ffa_func_id :: "ffa_value \<Rightarrow> u32" where
  "ffa_func_id args = ucast (func args)"

definition ffa_error_code :: "ffa_value \<Rightarrow> 32 word" where
  "ffa_error_code val = ucast (arg2 val)"

definition ffa_sender :: "ffa_value \<Rightarrow> u16" where
  "ffa_sender args = ucast (drop_bit 16 (arg1 args) AND 0xffff)"

definition ffa_receiver :: "ffa_value \<Rightarrow> u16" where
  "ffa_receiver args = ucast (arg1 args AND 0xffff)"

definition ffa_assemble_handle :: "u32 \<Rightarrow> u32 \<Rightarrow> u64" where
  "ffa_assemble_handle a1 a2 = ucast a1 OR push_bit 32 (ucast a2)"

definition ffa_mem_success_handle :: "ffa_value \<Rightarrow> u64" where
  "ffa_mem_success_handle args = ffa_assemble_handle (ucast (arg2 args)) (ucast (arg3 args))"

definition ffa_frag_handle :: "ffa_value \<Rightarrow> u64" where
  "ffa_frag_handle args = ffa_assemble_handle (ucast (arg1 args)) (ucast (arg2 args))"

definition ffa_mem_success :: "u64 \<Rightarrow> ffa_value" where
  "ffa_mem_success handle = (ffa_call FFA_SUCCESS_32)\<lparr>arg2 := ucast (ucast handle :: u32),
     arg3 := ucast (ucast (drop_bit 32 handle) :: u32)\<rparr>"

definition ffa_vm_id :: "ffa_value \<Rightarrow> u16" where
  "ffa_vm_id args = ucast (drop_bit 16 (arg1 args) AND 0xffff)"

definition ffa_vcpu_index :: "ffa_value \<Rightarrow> u16" where
  "ffa_vcpu_index args = ucast (arg1 args AND 0xffff)"

definition ffa_vm_vcpu :: "u16 \<Rightarrow> u16 \<Rightarrow> u64" where
  "ffa_vm_vcpu i vcpu = ucast (push_bit 16 (ucast i :: u32) OR ucast vcpu)"

definition ffa_notifications_bitmap :: "u32 \<Rightarrow> u32 \<Rightarrow> u64" where
  "ffa_notifications_bitmap lo hi = push_bit 32 (ucast hi) OR ucast lo"

definition ffa_notification_get_from_sp :: "ffa_value \<Rightarrow> u64" where
  "ffa_notification_get_from_sp val = ffa_notifications_bitmap (ucast (arg2 val)) (ucast (arg3 val))"

definition ffa_notification_get_from_vm :: "ffa_value \<Rightarrow> u64" where
  "ffa_notification_get_from_vm val = ffa_notifications_bitmap (ucast (arg4 val)) (ucast (arg5 val))"

definition ffa_notification_get_from_framework :: "ffa_value \<Rightarrow> u64" where
  "ffa_notification_get_from_framework val = ffa_notifications_bitmap (ucast (arg6 val)) (ucast (arg7 val))"

lemma low_half: "(x :: u64) AND 0xffff = take_bit 16 x"
  by (simp add: take_bit_eq_mask mask_eq_exp_minus_1)

lemma ffa_vm_id_vm_vcpu: "ffa_vm_id (v\<lparr>arg1 := ffa_vm_vcpu i c\<rparr>) = i"
  by (rule bit_word_eqI) (auto simp: ffa_vm_id_def ffa_vm_vcpu_def low_half bit_simps dest: bit_imp_le_length)

lemma ffa_vcpu_index_vm_vcpu: "ffa_vcpu_index (v\<lparr>arg1 := ffa_vm_vcpu i c\<rparr>) = c"
  by (rule bit_word_eqI) (auto simp: ffa_vcpu_index_def ffa_vm_vcpu_def low_half bit_simps)

lemma ffa_mem_success_handle_roundtrip: "ffa_mem_success_handle (ffa_mem_success h) = h"
  by (rule bit_word_eqI)
    (auto simp: ffa_mem_success_handle_def ffa_mem_success_def ffa_assemble_handle_def bit_simps)

lemma ffa_error_code_error: "ffa_error_code (ffa_error c) = c"
  by (rule bit_word_eqI) (auto simp: ffa_error_code_def ffa_error_def bit_simps)

end
