(* ===== verification/Switch.thy ===== *)
theory Switch
  imports Hyp_Props VM_Mem FFA
begin

text \<open>
  Leaving a vCPU (\<^verbatim>\<open>src/api.c\<close>, lines 77 to 336): every way in which a vCPU gives its physical CPU back to
  the primary VM sets the state of the vCPU it leaves and the return value of the vCPU it switches to.
  The vCPU that is switched to is a result of the operations.
\<close>

section \<open>Operations\<close>

definition api_ffa_get_vm_vcpu :: "vm_ref option \<Rightarrow> vcpu_ref \<Rightarrow> hyp \<Rightarrow> vcpu_ref option outcome" where
  "api_ffa_get_vm_vcpu vm current h =
     (case vc_cpu (get_vcpu current h) of None \<Rightarrow> Undef
      | Some i \<Rightarrow> (case vm of None \<Rightarrow> Panic
         | Some v \<Rightarrow> if vm_vcpu_count (get_vm v h) = 1 then and_then (vm_get_vcpu v 0 h) (\<lambda>c. Ret (Some c))
            else if of_nat i < vm_vcpu_count (get_vm v h)
            then and_then (vm_get_vcpu v (of_nat i) h) (\<lambda>c. Ret (Some c))
            else Ret None))"

definition set_retval :: "vcpu_ref \<Rightarrow> ffa_value \<Rightarrow> hyp \<Rightarrow> hyp" where
  "set_retval c v = upd_vcpu c (\<lambda>w. w\<lparr>vc_regs := arch_regs_set_retval v (vc_regs w)\<rparr>)"

definition set_state :: "vcpu_ref \<Rightarrow> vcpu_state \<Rightarrow> hyp \<Rightarrow> hyp" where
  "set_state c st = upd_vcpu c (\<lambda>w. w\<lparr>vc_state := st\<rparr>)"

definition api_switch_to_vm :: "hyp_env \<Rightarrow> vcpu_ref \<Rightarrow> ffa_value \<Rightarrow> vcpu_state \<Rightarrow> u16 \<Rightarrow> hyp \<Rightarrow> (vcpu_ref \<times> hyp) outcome" where
  "api_switch_to_vm e current to_ret st to_id h =
     and_then (api_ffa_get_vm_vcpu (vm_find e to_id h) current h) (\<lambda>target.
       case target of None \<Rightarrow> Panic
       | Some n \<Rightarrow> Ret (n, set_state current st (set_retval n to_ret h)))"

definition api_switch_to_primary :: "hyp_env \<Rightarrow> vcpu_ref \<Rightarrow> ffa_value \<Rightarrow> vcpu_state \<Rightarrow> hyp \<Rightarrow> (vcpu_ref \<times> hyp) outcome" where
  "api_switch_to_primary e current primary_ret secondary_state h =
     and_then
       (if func primary_ret = ucast HF_FFA_RUN_WAIT_FOR_INTERRUPT \<or> func primary_ret = ucast FFA_MSG_WAIT_32
        then if arch_timer_enabled_current (he_cfg e) (h_msr h)
             then and_then (arch_timer_remaining_ns_current (he_cfg e) (h_msr h)) (\<lambda>remaining_ns.
                    Ret (if remaining_ns = 0 then ffa_call FFA_INTERRUPT_32
                         else primary_ret\<lparr>arg2 := remaining_ns\<rparr>))
             else Ret (primary_ret\<lparr>arg2 := FFA_SLEEP_INDEFINITE\<rparr>)
        else Ret primary_ret)
       (\<lambda>r. api_switch_to_vm e current r secondary_state (HF_PRIMARY_VM_ID (he_secure e)) h)"

definition api_switch_to_other_world :: "hyp_env \<Rightarrow> vcpu_ref \<Rightarrow> ffa_value \<Rightarrow> vcpu_state \<Rightarrow> hyp \<Rightarrow> (vcpu_ref \<times> hyp) outcome" where
  "api_switch_to_other_world e current other_world_ret st h =
     api_switch_to_vm e current other_world_ret st (HF_OTHER_WORLD_ID (he_secure e)) h"

definition msg_receiver_busy :: "vm \<Rightarrow> bool" where
  "msg_receiver_busy v \<longleftrightarrow> mb_state (vm_mailbox v) \<noteq> MAILBOX_STATE_EMPTY \<or> mb_recv (vm_mailbox v) = 0"


text \<open>The value \<open>f\<close> with the VM and the index of a vCPU as its first argument.\<close>

definition ffa_for_vcpu :: "u32 \<Rightarrow> vcpu_ref \<Rightarrow> hyp \<Rightarrow> ffa_value outcome" where
  "ffa_for_vcpu f c h = and_then (vcpu_index c) (\<lambda>i.
     Ret ((ffa_call f)\<lparr>arg1 := ffa_vm_vcpu (vm_id (get_vm (fst c) h)) i\<rparr>))"





definition api_wake_up :: "hyp_env \<Rightarrow> vcpu_ref \<Rightarrow> vcpu_ref \<Rightarrow> hyp \<Rightarrow> (vcpu_ref \<times> hyp) outcome" where
  "api_wake_up e current target_vcpu h = and_then (ffa_for_vcpu FFA_INTERRUPT_32 target_vcpu h) (\<lambda>r.
     api_switch_to_primary e current r VCPU_STATE_BLOCKED h)"


definition api_regs_state_saved :: "vcpu_ref \<Rightarrow> hyp \<Rightarrow> hyp" where
  "api_regs_state_saved c = upd_vcpu c (\<lambda>w. w\<lparr>vc_regs_available := True\<rparr>)"

section \<open>Access to vCPUs\<close>

text \<open>References to vCPUs are pairs that the proofs treat as a whole.\<close>

declare split_paired_All [simp del] split_paired_Ex [simp del]

definition vcpu_ok :: "hyp \<Rightarrow> vcpu_ref \<Rightarrow> bool" where
  "vcpu_ok h = (\<lambda>(v, i). vm_ok h v \<and> i < length (vm_vcpus (get_vm v h)))"

lemma get_upd_vcpu:
  "get_vcpu c (upd_vcpu d f h) = (if c = d \<and> vcpu_ok h d then f (get_vcpu c h) else get_vcpu c h)"
proof -
  obtain v i w j where cd: "c = (v, i)" "d = (w, j)" by (cases c; cases d) auto
  show ?thesis
  proof (cases "v = w")
    case True
    then show ?thesis
      by (cases w; cases "vm_ok h w")
        (auto simp: cd vcpu_ok_def get_vcpu_def upd_vcpu_def nth_list_update list_update_beyond)
  qed (simp add: cd get_vcpu_def upd_vcpu_def)
qed

lemma upd_vcpu_keeps: "(\<And>w. g (f w) = g w) \<Longrightarrow> g (get_vcpu c (upd_vcpu d f h)) = g (get_vcpu c h)"
  by (simp add: get_upd_vcpu)

lemma upd_vcpu_id: "f (get_vcpu c h) = get_vcpu c h \<Longrightarrow> upd_vcpu c f h = h"
proof -
  assume "f (get_vcpu c h) = get_vcpu c h"
  moreover obtain v i where "c = (v, i)" by (cases c)
  ultimately show ?thesis
    by (cases v) (simp_all add: get_vcpu_def upd_vcpu_def)
qed

lemma get_vm_upd_vcpu:
  "\<exists>xs. get_vm v (upd_vcpu d f h) = (get_vm v h)\<lparr>vm_vcpus := xs\<rparr> \<and> length xs = length (vm_vcpus (get_vm v h))"
proof -
  obtain w j where d: "d = (w, j)" by (cases d)
  let ?xs = "if v = w \<and> vm_ok h w then (vm_vcpus (get_vm w h))[j := f (vm_vcpus (get_vm w h) ! j)]
    else vm_vcpus (get_vm v h)"
  have "get_vm v (upd_vcpu d f h) = (get_vm v h)\<lparr>vm_vcpus := ?xs\<rparr>"
  proof (cases "v = w")
    case True
    then show ?thesis
      by (cases "vm_ok h w"; cases w) (simp_all add: d upd_vcpu_def list_update_beyond)
  qed (simp add: d upd_vcpu_def)
  then show ?thesis by (intro exI [of _ ?xs]) (simp add: d)
qed

lemma vm_upd_vcpu [simp]:
  "vm_id (get_vm v (upd_vcpu d f h)) = vm_id (get_vm v h)"
  "vm_vcpu_count (get_vm v (upd_vcpu d f h)) = vm_vcpu_count (get_vm v h)"
  "vm_aborting (get_vm v (upd_vcpu d f h)) = vm_aborting (get_vm v h)"
  "vm_el0_partition (get_vm v (upd_vcpu d f h)) = vm_el0_partition (get_vm v h)"
  "vm_mailbox (get_vm v (upd_vcpu d f h)) = vm_mailbox (get_vm v h)"
  "vm_notifs (get_vm v (upd_vcpu d f h)) = vm_notifs (get_vm v h)"
  "length (vm_vcpus (get_vm v (upd_vcpu d f h))) = length (vm_vcpus (get_vm v h))"
  "vm_ok (upd_vcpu d f h) v = vm_ok h v"
  using get_vm_upd_vcpu [of v d f h] by (auto simp: upd_vcpu_def split: prod.splits)

lemma vcpu_ok_upd_vcpu [simp]: "vcpu_ok (upd_vcpu d f h) c = vcpu_ok h c"
  by (simp add: vcpu_ok_def split: prod.splits)

lemma upd_vcpu_rest [simp]:
  "h_vm_count (upd_vcpu d f h) = h_vm_count h" "h_msr (upd_vcpu d f h) = h_msr h"
  "h_cpus (upd_vcpu d f h) = h_cpus h" "h_mm (upd_vcpu d f h) = h_mm h"
  "vm_id (h_other_world (upd_vcpu d f h)) = vm_id (h_other_world h)"
  by (cases d; cases "fst d"; auto simp: upd_vcpu_def)+

lemma vm_find_upd_vcpu [simp]: "vm_find e i (upd_vcpu d f h) = vm_find e i h"
  by (simp add: vm_find_def vm_find_index_def)

section \<open>What a switch does\<close>

text \<open>A VM that is found is in its table, and so are the vCPUs it counts.\<close>

definition tables_ok :: "hyp_env \<Rightarrow> hyp \<Rightarrow> bool" where
  "tables_ok e h \<longleftrightarrow> (\<forall>i v k. vm_find e i h = Some v \<longrightarrow> k < vm_vcpu_count (get_vm v h) \<longrightarrow> vcpu_ok h (v, unat k))"

lemma tables_ok_upd [simp]: "tables_ok e (upd_vcpu d f h) = tables_ok e h"
  by (simp add: tables_ok_def)

text \<open>
  The primary VM has a vCPU for every CPU on which a vCPU runs. This is what a switch to the primary VM
  relies on: without it the code stops in a check.
\<close>

definition switch_ready :: "hyp_env \<Rightarrow> hyp \<Rightarrow> bool" where
  "switch_ready e h \<longleftrightarrow> tables_ok e h \<and> (\<exists>p. vm_find e (HF_PRIMARY_VM_ID (he_secure e)) h = Some p \<and>
     (\<forall>c. vcpu_ok h c \<longrightarrow> snd c < 0xffff \<and> (\<exists>i. vc_cpu (get_vcpu c h) = Some i \<and> 0 < vm_vcpu_count (get_vm p h) \<and>
       (vm_vcpu_count (get_vm p h) = 1 \<or> of_nat i < vm_vcpu_count (get_vm p h)))))"

lemma switch_ready_upd: "(\<And>w. vc_cpu (f w) = vc_cpu w) \<Longrightarrow> switch_ready e (upd_vcpu d f h) = switch_ready e h"
  by (simp add: switch_ready_def upd_vcpu_keeps [where g = vc_cpu])

lemma switch_to_vm_effect:
  "api_switch_to_vm e current r st i h = Ret (n, h') \<Longrightarrow> h' = set_state current st (set_retval n r h)"
  by (auto simp: api_switch_to_vm_def split: option.splits)

lemma switch_to_primary_effect:
  assumes "api_switch_to_primary e current r st h = Ret (n, h')"
  shows "\<exists>r'. h' = set_state current st (set_retval n r' h)"
  using assms unfolding api_switch_to_primary_def
  by (auto dest!: switch_to_vm_effect)

lemma switch_to_primary_returns:
  assumes "switch_ready e h" and "vcpu_ok h current"
    and "func r \<noteq> ucast HF_FFA_RUN_WAIT_FOR_INTERRUPT" and "func r \<noteq> ucast FFA_MSG_WAIT_32"
  shows "\<exists>n h'. api_switch_to_primary e current r st h = Ret (n, h')"
proof -
  obtain p i where "vm_find e (HF_PRIMARY_VM_ID (he_secure e)) h = Some p"
    and "vc_cpu (get_vcpu current h) = Some i" and "0 < vm_vcpu_count (get_vm p h)"
    and "vm_vcpu_count (get_vm p h) = 1 \<or> of_nat i < vm_vcpu_count (get_vm p h)"
    using assms(1,2) unfolding switch_ready_def by blast
  then show ?thesis
    using assms(3,4)
    by (auto simp: api_switch_to_primary_def api_switch_to_vm_def api_ffa_get_vm_vcpu_def vm_get_vcpu_def)
qed

lemma wake_up_returns:
  assumes "switch_ready e h" and "vcpu_ok h current" and "snd target < 0xffff"
  shows "\<exists>n h'. api_wake_up e current target h = Ret (n, h')"
proof -
  have "\<exists>n h'. api_switch_to_primary e current ((ffa_call FFA_INTERRUPT_32)\<lparr>arg1 := a\<rparr>) VCPU_STATE_BLOCKED h = Ret (n, h')" for a
    by (rule switch_to_primary_returns [OF assms(1,2)]) (simp_all add: ffa_call_def ffa_functions)
  then show ?thesis
    using assms(3) by (cases target) (simp add: api_wake_up_def ffa_for_vcpu_def vcpu_index_def)
qed

lemma wake_up_effect:
  "api_wake_up e current target h = Ret (n, h') \<Longrightarrow> \<exists>r. h' = set_state current VCPU_STATE_BLOCKED (set_retval n r h)"
  by (auto simp: api_wake_up_def dest: switch_to_primary_effect)

section \<open>A sample system\<close>



definition sample_normal_env :: hyp_env where
  "sample_normal_env = sample_hyp_env\<lparr>he_mm := sample_env\<lparr>env_cfg := cfg_plain\<rparr>\<rparr>"

lemma sample_not_secure [simp]: "he_secure sample_normal_env = False"
  by (simp add: sample_normal_env_def cfg_plain_def)






section \<open>Giving the CPU back\<close>






lemma get_upd_msr [simp]:
  "get_vm v (h\<lparr>h_msr := m\<rparr>) = get_vm v h" "get_vcpu d (h\<lparr>h_msr := m\<rparr>) = get_vcpu d h"
  "vm_ok (h\<lparr>h_msr := m\<rparr>) v = vm_ok h v" "vm_find e i (h\<lparr>h_msr := m\<rparr>) = vm_find e i h"
proof -
  show v: "get_vm v (h\<lparr>h_msr := m\<rparr>) = get_vm v h" for v by (cases v) simp_all
  show "get_vcpu d (h\<lparr>h_msr := m\<rparr>) = get_vcpu d h" by (simp add: get_vcpu_def v split: prod.splits)
  show "vm_ok (h\<lparr>h_msr := m\<rparr>) v = vm_ok h v" by (cases v) simp_all
  show "vm_find e i (h\<lparr>h_msr := m\<rparr>) = vm_find e i h" by (simp add: vm_find_def vm_find_index_def)
qed






end
