(* ===== verification/Interrupts.thy ===== *)
theory Interrupts
  imports Switch
begin

text \<open>
  Virtual interrupts: the bitmaps of \<^verbatim>\<open>inc/hf/interrupt_desc.h\<close>, the counters of
  \<^verbatim>\<open>inc/hf/vcpu.h\<close> and the calls \<open>api_interrupt_enable\<close>, \<open>api_interrupt_get\<close> and
  \<open>api_interrupt_inject\<close> of \<^verbatim>\<open>src/api.c\<close>. The number of interrupts is chosen by the build; it is
  32 for every word of a bitmap.
\<close>

section \<open>Bitmaps\<close>

definition INTERRUPT_REGISTER_BITS :: u32 where "INTERRUPT_REGISTER_BITS = 32"

definition HF_NUM_INTIDS :: "hyp_env \<Rightarrow> u32" where
  "HF_NUM_INTIDS e = of_nat (int_words e) * INTERRUPT_REGISTER_BITS"

definition interrupt_bitmap_get_value :: "u32 list \<Rightarrow> u32 \<Rightarrow> u32" where
  "interrupt_bitmap_get_value bitmap intid =
     (let index = intid div INTERRUPT_REGISTER_BITS; shift = intid mod INTERRUPT_REGISTER_BITS
      in drop_bit (unat shift) (bitmap ! unat index) AND 1)"

definition interrupt_bitmap_set_value :: "u32 \<Rightarrow> u32 list \<Rightarrow> u32 list" where
  "interrupt_bitmap_set_value intid bitmap =
     (let index = intid div INTERRUPT_REGISTER_BITS; shift = intid mod INTERRUPT_REGISTER_BITS
      in bitmap[unat index := bitmap ! unat index OR push_bit (unat shift) 1])"

definition interrupt_bitmap_clear_value :: "u32 \<Rightarrow> u32 list \<Rightarrow> u32 list" where
  "interrupt_bitmap_clear_value intid bitmap =
     (let index = intid div INTERRUPT_REGISTER_BITS; shift = intid mod INTERRUPT_REGISTER_BITS
      in bitmap[unat index := bitmap ! unat index AND NOT (push_bit (unat shift) 1)])"

section \<open>State and counters of a vCPU\<close>

definition vcpu_is_virt_interrupt_enabled :: "interrupts \<Rightarrow> u32 \<Rightarrow> bool" where
  "vcpu_is_virt_interrupt_enabled i intid \<longleftrightarrow> interrupt_bitmap_get_value (int_enabled i) intid = 1"

definition vcpu_virt_interrupt_set_enabled :: "u32 \<Rightarrow> interrupts \<Rightarrow> interrupts" where
  "vcpu_virt_interrupt_set_enabled intid i = i\<lparr>int_enabled := interrupt_bitmap_set_value intid (int_enabled i)\<rparr>"

definition vcpu_virt_interrupt_clear_enabled :: "u32 \<Rightarrow> interrupts \<Rightarrow> interrupts" where
  "vcpu_virt_interrupt_clear_enabled intid i = i\<lparr>int_enabled := interrupt_bitmap_clear_value intid (int_enabled i)\<rparr>"

definition vcpu_is_virt_interrupt_pending :: "interrupts \<Rightarrow> u32 \<Rightarrow> bool" where
  "vcpu_is_virt_interrupt_pending i intid \<longleftrightarrow> interrupt_bitmap_get_value (int_pending i) intid = 1"

definition vcpu_virt_interrupt_set_pending :: "u32 \<Rightarrow> interrupts \<Rightarrow> interrupts" where
  "vcpu_virt_interrupt_set_pending intid i = i\<lparr>int_pending := interrupt_bitmap_set_value intid (int_pending i)\<rparr>"

definition vcpu_virt_interrupt_clear_pending :: "u32 \<Rightarrow> interrupts \<Rightarrow> interrupts" where
  "vcpu_virt_interrupt_clear_pending intid i = i\<lparr>int_pending := interrupt_bitmap_clear_value intid (int_pending i)\<rparr>"

definition vcpu_virt_interrupt_get_type :: "interrupts \<Rightarrow> u32 \<Rightarrow> interrupt_type" where
  "vcpu_virt_interrupt_get_type i intid =
     (if interrupt_bitmap_get_value (int_type i) intid = 0 then INTERRUPT_TYPE_IRQ else INTERRUPT_TYPE_FIQ)"

definition vcpu_virt_interrupt_set_type :: "u32 \<Rightarrow> interrupt_type \<Rightarrow> interrupts \<Rightarrow> interrupts" where
  "vcpu_virt_interrupt_set_type intid ty i =
     (if ty = INTERRUPT_TYPE_IRQ then i\<lparr>int_type := interrupt_bitmap_clear_value intid (int_type i)\<rparr>
      else i\<lparr>int_type := interrupt_bitmap_set_value intid (int_type i)\<rparr>)"

definition vcpu_irq_count_increment :: "interrupts \<Rightarrow> interrupts" where
  "vcpu_irq_count_increment i = i\<lparr>irq_count := irq_count i + 1\<rparr>"

definition vcpu_irq_count_decrement :: "interrupts \<Rightarrow> interrupts" where
  "vcpu_irq_count_decrement i = i\<lparr>irq_count := irq_count i - 1\<rparr>"

definition vcpu_fiq_count_increment :: "interrupts \<Rightarrow> interrupts" where
  "vcpu_fiq_count_increment i = i\<lparr>fiq_count := fiq_count i + 1\<rparr>"

definition vcpu_fiq_count_decrement :: "interrupts \<Rightarrow> interrupts" where
  "vcpu_fiq_count_decrement i = i\<lparr>fiq_count := fiq_count i - 1\<rparr>"

definition vcpu_interrupt_count_increment :: "u32 \<Rightarrow> interrupts \<Rightarrow> interrupts" where
  "vcpu_interrupt_count_increment intid i =
     (if vcpu_virt_interrupt_get_type i intid = INTERRUPT_TYPE_IRQ then vcpu_irq_count_increment i
      else vcpu_fiq_count_increment i)"

definition vcpu_interrupt_count_decrement :: "u32 \<Rightarrow> interrupts \<Rightarrow> interrupts" where
  "vcpu_interrupt_count_decrement intid i =
     (if vcpu_virt_interrupt_get_type i intid = INTERRUPT_TYPE_IRQ then vcpu_irq_count_decrement i
      else vcpu_fiq_count_decrement i)"

definition vcpu_interrupt_irq_count_get :: "interrupts \<Rightarrow> u32" where
  "vcpu_interrupt_irq_count_get i = irq_count i"

definition vcpu_interrupt_fiq_count_get :: "interrupts \<Rightarrow> u32" where
  "vcpu_interrupt_fiq_count_get i = fiq_count i"

definition vcpu_interrupt_count_get :: "interrupts \<Rightarrow> u32" where
  "vcpu_interrupt_count_get i = irq_count i + fiq_count i"

section \<open>Calls\<close>

definition upd_interrupts :: "vcpu_ref \<Rightarrow> (interrupts \<Rightarrow> interrupts) \<Rightarrow> hyp \<Rightarrow> hyp" where
  "upd_interrupts c f = upd_vcpu c (\<lambda>w. w\<lparr>vc_interrupts := f (vc_interrupts w)\<rparr>)"

text \<open>What \<open>api_interrupt_enable\<close> does to the interrupts of the vCPU.\<close>

definition interrupt_enable :: "u32 \<Rightarrow> bool \<Rightarrow> interrupt_type \<Rightarrow> interrupts \<Rightarrow> interrupts" where
  "interrupt_enable intid enable ty i =
     (if enable
      then let i = (if vcpu_is_virt_interrupt_pending i intid \<and> \<not> vcpu_is_virt_interrupt_enabled i intid
                    then vcpu_interrupt_count_increment intid i else i)
           in vcpu_virt_interrupt_set_type intid ty (vcpu_virt_interrupt_set_enabled intid i)
      else let i = (if vcpu_is_virt_interrupt_pending i intid \<and> vcpu_is_virt_interrupt_enabled i intid
                    then vcpu_interrupt_count_decrement intid i else i)
           in vcpu_virt_interrupt_set_type intid INTERRUPT_TYPE_IRQ (vcpu_virt_interrupt_clear_enabled intid i))"

definition api_interrupt_enable :: "hyp_env \<Rightarrow> u32 \<Rightarrow> bool \<Rightarrow> interrupt_type \<Rightarrow> vcpu_ref \<Rightarrow> hyp \<Rightarrow> int \<times> hyp" where
  "api_interrupt_enable e intid enable ty current h =
     (if intid \<ge> HF_NUM_INTIDS e then (- 1, h)
      else (0, upd_interrupts current (interrupt_enable intid enable ty) h))"

text \<open>The number of trailing zeros of a word that is not zero.\<close>

definition ctz :: "u32 \<Rightarrow> nat" where
  "ctz x = length (takeWhile (\<lambda>n. \<not> bit x n) [0..<32])"

text \<open>The loop of \<open>api_interrupt_get\<close>, from index \<open>k\<close> on.\<close>

fun first_interrupt :: "nat \<Rightarrow> u32 list \<Rightarrow> u32 list \<Rightarrow> u32" where
  "first_interrupt k (x # xs) (y # ys) =
     (if x AND y \<noteq> 0 then of_nat k * INTERRUPT_REGISTER_BITS + of_nat (ctz (x AND y))
      else first_interrupt (Suc k) xs ys)"
| "first_interrupt k [] ys = HF_INVALID_INTID"
| "first_interrupt k (x # xs) [] = HF_INVALID_INTID"

definition interrupt_get :: "interrupts \<Rightarrow> u32 \<times> interrupts" where
  "interrupt_get i =
     (let intid = first_interrupt 0 (int_enabled i) (int_pending i)
      in if intid = HF_INVALID_INTID then (intid, i)
         else (intid, vcpu_interrupt_count_decrement intid (vcpu_virt_interrupt_clear_pending intid i)))"

definition api_interrupt_get :: "vcpu_ref \<Rightarrow> hyp \<Rightarrow> u32 \<times> hyp" where
  "api_interrupt_get current h =
     (fst (interrupt_get (vc_interrupts (get_vcpu current h))), upd_interrupts current (\<lambda>i. snd (interrupt_get i)) h)"

text \<open>
  The result is the return value, the vCPU to switch to and the new state. \<open>can_switch\<close> tells that the
  caller passed a place for the vCPU to switch to. An access past the bitmaps is undefined.
\<close>

definition api_interrupt_inject_locked :: "hyp_env \<Rightarrow> vcpu_ref \<Rightarrow> u32 \<Rightarrow> vcpu_ref \<Rightarrow> bool \<Rightarrow> hyp
    \<Rightarrow> (int \<times> vcpu_ref option \<times> hyp) outcome" where
  "api_interrupt_inject_locked e target intid current can_switch h =
     (let i = vc_interrupts (get_vcpu target h);
          out = (\<lambda>(r, n, h). Ret (r, n, upd_interrupts target (vcpu_virt_interrupt_set_pending intid) h))
      in if \<not> intid < HF_NUM_INTIDS e then Undef
         else if \<not> (vcpu_is_virt_interrupt_enabled i intid \<and> \<not> vcpu_is_virt_interrupt_pending i intid)
         then out (0, None, h)
         else let h = upd_interrupts target (vcpu_interrupt_count_increment intid) h
           in if vcpu_interrupt_count_get (vc_interrupts (get_vcpu target h)) \<noteq> 1 then out (0, None, h)
              else if vm_id (get_vm (fst current) h) = HF_PRIMARY_VM_ID (he_secure e) then out (1, None, h)
              else if current \<noteq> target \<and> can_switch
              then and_then (api_wake_up e current target h) (\<lambda>(n, h). out (0, Some n, h))
              else out (0, None, h))"

definition internal_interrupt_inject :: "hyp_env \<Rightarrow> vcpu_ref \<Rightarrow> u32 \<Rightarrow> vcpu_ref \<Rightarrow> bool \<Rightarrow> hyp
    \<Rightarrow> (int \<times> vcpu_ref option \<times> hyp) outcome" where
  "internal_interrupt_inject e target_vcpu intid current can_switch h =
     api_interrupt_inject_locked e target_vcpu intid current can_switch h"

definition is_injection_allowed :: "hyp_env \<Rightarrow> u32 \<Rightarrow> vcpu_ref \<Rightarrow> hyp \<Rightarrow> bool" where
  "is_injection_allowed e target_vm_id current h \<longleftrightarrow>
     (let current_vm_id = ucast (vm_id (get_vm (fst current) h))
      in current_vm_id = ucast (HF_PRIMARY_VM_ID (he_secure e)) \<or> current_vm_id = target_vm_id)"

definition api_interrupt_inject :: "hyp_env \<Rightarrow> u16 \<Rightarrow> u16 \<Rightarrow> u32 \<Rightarrow> vcpu_ref \<Rightarrow> hyp
    \<Rightarrow> (int \<times> vcpu_ref option \<times> hyp) outcome" where
  "api_interrupt_inject e target_vm_id target_vcpu_idx intid current h =
     (if intid \<ge> HF_NUM_INTIDS e then Ret (- 1, None, h)
      else case vm_find e target_vm_id h of None \<Rightarrow> Ret (- 1, None, h)
      | Some v \<Rightarrow>
        if target_vcpu_idx \<ge> vm_vcpu_count (get_vm v h) then Ret (- 1, None, h)
        else if \<not> is_injection_allowed e (ucast target_vm_id) current h then Ret (- 1, None, h)
        else and_then (vm_get_vcpu v target_vcpu_idx h) (\<lambda>target.
             internal_interrupt_inject e target intid current True h))"

end
