(* ===== verification/Std.thy ===== *)
theory Std
  imports Prelude
begin

text \<open>
  The freestanding C library: the byte loops of \<^verbatim>\<open>src/arch/aarch64/std.c\<close> and the checked
  wrappers of \<^verbatim>\<open>src/std.c\<close>, on a byte-addressed memory. The lemmas say what each routine
  computes; the properties are that \<open>memmove\<close> is exact under overlap and the contract of
  \<open>memcpy_s\<close>.
\<close>

section \<open>Memory and the C library routines\<close>

type_synonym byte_mem = "u64 \<Rightarrow> u8"

text \<open>
  The loops count \<open>n\<close> down; a pointer is an address, and \<open>char\<close> is unsigned on this
  architecture.
\<close>

primrec memset_loop :: "nat \<Rightarrow> u64 \<Rightarrow> u8 \<Rightarrow> byte_mem \<Rightarrow> byte_mem" where
  "memset_loop 0 p c m = m"
| "memset_loop (Suc n) p c m = memset_loop n (p + 1) c (m(p := c))"

definition memset :: "u64 \<Rightarrow> u8 \<Rightarrow> u64 \<Rightarrow> byte_mem \<Rightarrow> byte_mem" where
  "memset s c n m = memset_loop (unat n) s c m"

primrec memcpy_loop :: "nat \<Rightarrow> u64 \<Rightarrow> u64 \<Rightarrow> byte_mem \<Rightarrow> byte_mem" where
  "memcpy_loop 0 x y m = m"
| "memcpy_loop (Suc n) x y m = memcpy_loop n (x + 1) (y + 1) (m(x := m y))"

definition memcpy :: "u64 \<Rightarrow> u64 \<Rightarrow> u64 \<Rightarrow> byte_mem \<Rightarrow> byte_mem" where
  "memcpy dst src n m = memcpy_loop (unat n) dst src m"

primrec memmove_loop :: "nat \<Rightarrow> u64 \<Rightarrow> u64 \<Rightarrow> byte_mem \<Rightarrow> byte_mem" where
  "memmove_loop 0 x y m = m"
| "memmove_loop (Suc n) x y m = memmove_loop n (x - 1) (y - 1) (m(x := m y))"

definition memmove :: "u64 \<Rightarrow> u64 \<Rightarrow> u64 \<Rightarrow> byte_mem \<Rightarrow> byte_mem" where
  "memmove dst src n m =
     (if dst < src then memcpy dst src n m
      else memmove_loop (unat n) (dst + n - 1) (src + n - 1) m)"

primrec memcmp_loop :: "nat \<Rightarrow> u64 \<Rightarrow> u64 \<Rightarrow> byte_mem \<Rightarrow> int" where
  "memcmp_loop 0 x y m = 0"
| "memcmp_loop (Suc n) x y m =
     (if m x \<noteq> m y then uint (m x) - uint (m y) else memcmp_loop n (x + 1) (y + 1) m)"

definition memcmp :: "u64 \<Rightarrow> u64 \<Rightarrow> u64 \<Rightarrow> byte_mem \<Rightarrow> int" where
  "memcmp a b n m = memcmp_loop (unat n) a b m"

text \<open>
  A string argument is read through its successive bytes: those of memory from an address
  on, or those of a string literal, which ends in a zero byte.
\<close>

definition at :: "byte_mem \<Rightarrow> u64 \<Rightarrow> nat \<Rightarrow> u8" where
  "at m p i = m (p + of_nat i)"

definition literal :: "string \<Rightarrow> nat \<Rightarrow> u8" where
  "literal s i = (if i < length s then of_char (s ! i) else 0)"

primrec strncmp_loop :: "nat \<Rightarrow> nat \<Rightarrow> (nat \<Rightarrow> u8) \<Rightarrow> (nat \<Rightarrow> u8) \<Rightarrow> u8 \<Rightarrow> u8 \<Rightarrow> int" where
  "strncmp_loop 0 i a b x y = uint x - uint y"
| "strncmp_loop (Suc n) i a b x y =
     (let x = a i; y = b i
      in if x = 0 \<or> x \<noteq> y then uint x - uint y else strncmp_loop n (i + 1) a b x y)"

definition strncmp :: "(nat \<Rightarrow> u8) \<Rightarrow> (nat \<Rightarrow> u8) \<Rightarrow> u64 \<Rightarrow> int" where
  "strncmp a b n = strncmp_loop (unat n) 0 a b 0 0"

section \<open>Checked routines\<close>

definition RSIZE_MAX :: u64 where "RSIZE_MAX = 128 * 1024 * 1024"

text \<open>A failed check fills the destination where it can and panics; the panic is the outcome.\<close>

definition memset_s :: "u64 \<Rightarrow> u64 \<Rightarrow> u8 \<Rightarrow> u64 \<Rightarrow> byte_mem \<Rightarrow> byte_mem outcome" where
  "memset_s dest destsz ch cnt m =
     (if dest = 0 \<or> destsz > RSIZE_MAX then Panic
      else Ret (memset dest ch (if cnt \<le> destsz then cnt else destsz) m))"

definition CHECK_OR_FILL :: "bool \<Rightarrow> u64 \<Rightarrow> u64 \<Rightarrow> u8 \<Rightarrow> byte_mem \<Rightarrow> byte_mem outcome" where
  "CHECK_OR_FILL cond dest destsz ch m =
     (if \<not> cond
      then and_then (if dest \<noteq> 0 \<and> destsz \<le> RSIZE_MAX then memset_s dest destsz ch destsz m else Ret m) (\<lambda>_. Panic)
      else Ret m)"

definition memcpy_s :: "u64 \<Rightarrow> u64 \<Rightarrow> u64 \<Rightarrow> u64 \<Rightarrow> byte_mem \<Rightarrow> byte_mem outcome" where
  "memcpy_s dest destsz src cnt m =
     and_then (CHECK_OR_FILL (dest \<noteq> 0) dest destsz 0 m) (\<lambda>m.
     and_then (CHECK_OR_FILL (src \<noteq> 0) dest destsz 0 m) (\<lambda>m.
     and_then (CHECK_OR_FILL (destsz \<le> RSIZE_MAX) dest destsz 0 m) (\<lambda>m.
     and_then (CHECK_OR_FILL (cnt \<le> destsz) dest destsz 0 m) (\<lambda>m.
     and_then (CHECK_OR_FILL (dest \<noteq> src) dest destsz 0 m) (\<lambda>m.
     and_then (CHECK_OR_FILL (dest < src \<or> dest \<ge> src + cnt) dest destsz 0 m) (\<lambda>m.
     and_then (CHECK_OR_FILL (dest > src \<or> src \<ge> dest + cnt) dest destsz 0 m) (\<lambda>m.
     Ret (memcpy dest src cnt m))))))))"

definition memmove_s :: "u64 \<Rightarrow> u64 \<Rightarrow> u64 \<Rightarrow> u64 \<Rightarrow> byte_mem \<Rightarrow> byte_mem outcome" where
  "memmove_s dest destsz src cnt m =
     and_then (CHECK_OR_FILL (dest \<noteq> 0) dest destsz 0 m) (\<lambda>m.
     and_then (CHECK_OR_FILL (src \<noteq> 0) dest destsz 0 m) (\<lambda>m.
     and_then (CHECK_OR_FILL (destsz \<le> RSIZE_MAX) dest destsz 0 m) (\<lambda>m.
     and_then (CHECK_OR_FILL (cnt \<le> destsz) dest destsz 0 m) (\<lambda>m.
     Ret (memmove dest src cnt m)))))"

text \<open>\<open>i\<close> is the loop counter, the number of bytes still to examine is the first argument.\<close>

primrec memchr_loop :: "nat \<Rightarrow> u64 \<Rightarrow> u8 \<Rightarrow> u64 \<Rightarrow> byte_mem \<Rightarrow> u64 option" where
  "memchr_loop 0 p ch i m = None"
| "memchr_loop (Suc n) p ch i m = (if m (p + i) = ch then Some (p + i) else memchr_loop n p ch (i + 1) m)"

definition memchr :: "u64 \<Rightarrow> u8 \<Rightarrow> u64 \<Rightarrow> byte_mem \<Rightarrow> u64 option outcome" where
  "memchr ptr ch cnt m = check (ptr \<noteq> 0) (Ret (memchr_loop (unat cnt) ptr ch 0 m))"

primrec strnlen_loop :: "nat \<Rightarrow> u64 \<Rightarrow> u64 \<Rightarrow> byte_mem \<Rightarrow> u64" where
  "strnlen_loop 0 str i m = i"
| "strnlen_loop (Suc n) str i m = (if m (str + i) = 0 then i else strnlen_loop n str (i + 1) m)"

definition strnlen_s :: "u64 \<Rightarrow> u64 \<Rightarrow> byte_mem \<Rightarrow> u64" where
  "strnlen_s str strsz m = (if str = 0 then 0 else strnlen_loop (unat strsz) str 0 m)"

text \<open>Evaluating the loops at a numeral count.\<close>

lemma loops_numeral [simp]:
  "memset_loop (numeral k) p c m = memset_loop (pred_numeral k) (p + 1) c (m(p := c))"
  "memcpy_loop (numeral k) x y m = memcpy_loop (pred_numeral k) (x + 1) (y + 1) (m(x := m y))"
  "memchr_loop (numeral k) p ch i m = (if m (p + i) = ch then Some (p + i) else memchr_loop (pred_numeral k) p ch (i + 1) m)"
  by (simp_all add: numeral_eq_Suc)

section \<open>Bytes\<close>

definition bytes :: "byte_mem \<Rightarrow> u64 \<Rightarrow> nat \<Rightarrow> u8 list" where
  "bytes m a n = map (\<lambda>i. m (a + of_nat i)) [0..<n]"

lemma bytes_length [simp]: "length (bytes m a n) = n"
  by (simp add: bytes_def)

lemma bytes_0 [simp]: "bytes m a 0 = []"
  by (simp add: bytes_def)

lemma bytes_Suc: "bytes m a (Suc n) = m a # bytes m (a + 1) n"
proof -
  have "[0..<Suc n] = 0 # map Suc [0..<n]" by (simp add: upt_conv_Cons map_Suc_upt del: upt_Suc)
  then show ?thesis by (simp add: bytes_def comp_def add.assoc del: upt_Suc)
qed

text \<open>A memory that holds given bytes from an address on.\<close>

definition mem_of :: "u64 \<Rightarrow> u8 list \<Rightarrow> byte_mem" where
  "mem_of base bs a = (if unat (a - base) < length bs then bs ! unat (a - base) else 0)"

lemma mem_of_bytes: "length bs < 2 ^ 64 \<Longrightarrow> i + n \<le> length bs \<Longrightarrow>
    bytes (mem_of base bs) (base + of_nat i) n = take n (drop i bs)"
  by (rule nth_equalityI) (auto simp: bytes_def mem_of_def unat_of_nat_less add.assoc simp flip: of_nat_add)

text \<open>Being one of the \<open>n\<close> addresses from \<open>a\<close> on.\<close>

definition inside :: "u64 \<Rightarrow> nat \<Rightarrow> u64 \<Rightarrow> bool" where
  "inside a n x \<longleftrightarrow> unat (x - a) < n"

lemma unat_minus_one: "x \<noteq> a \<Longrightarrow> unat (x - (a + 1) :: u64) = unat (x - a) - 1"
proof -
  assume "x \<noteq> a"
  then have "0 < x - a" by (simp add: word_gt_0)
  then show ?thesis using unat_sub [of 1 "x - a"] by (simp add: diff_diff_eq word_le_nat_alt word_less_nat_alt)
qed

lemma inside_Suc: "inside a (Suc n) x \<longleftrightarrow> x = a \<or> inside (a + 1) n x \<and> x \<noteq> a"
proof (cases "x = a")
  case False
  then have "0 < unat (x - a)" by (simp add: unat_gt_0)
  then show ?thesis using unat_minus_one [OF False] False by (auto simp: inside_def)
qed (simp add: inside_def)

lemma memcpy_loop_outside: "\<not> inside x n p \<Longrightarrow> memcpy_loop n x y m p = m p"
  by (induction n arbitrary: x y m) (auto simp: inside_Suc)

lemma neg_offset_ne:
  assumes "unat (y - x :: u64) + k < 2 ^ 64" "0 < k"
  shows "y + of_nat k \<noteq> x"
proof
  assume "y + of_nat k = x"
  then have "(y - x) + of_nat k = 0" by (simp add: algebra_simps)
  moreover have k: "unat (of_nat k :: u64) = k" using assms(1) by (intro unat_of_nat_less) simp
  moreover have "unat ((y - x) + of_nat k) = unat (y - x) + k"
    using assms(1) unat_add_no_wrap [of "y - x" "of_nat k"] k by simp
  ultimately show False using assms(2) by simp
qed

lemma not_inside_next: "n < 2 ^ 64 \<Longrightarrow> \<not> inside (x + 1) n x"
proof -
  assume "n < 2 ^ 64"
  moreover have "unat (- 1 :: u64) = 2 ^ 64 - 1" by (simp add: unsigned_minus_1_eq_mask mask_eq_exp_minus_1)
  ultimately show "\<not> inside (x + 1) n x" by (simp add: inside_def)
qed

lemma memcpy_loop_inside:
  "unat (y - x) + n \<le> 2 ^ 64 \<Longrightarrow> n < 2 ^ 64 \<Longrightarrow> i < n \<Longrightarrow> memcpy_loop n x y m (x + of_nat i) = m (y + of_nat i)"
proof (induction n arbitrary: x y m i)
  case (Suc n)
  show ?case
  proof (cases i)
    case 0
    then show ?thesis using memcpy_loop_outside [OF not_inside_next] Suc.prems(2) by simp
  next
    case (Suc j)
    have "y + of_nat (Suc j) \<noteq> x" using Suc.prems Suc by (intro neg_offset_ne) simp_all
    moreover have "memcpy_loop n (x + 1) (y + 1) (m(x := m y)) (x + 1 + of_nat j) =
        (m(x := m y)) (y + 1 + of_nat j)"
      using Suc.prems Suc by (intro Suc.IH) simp_all
    ultimately show ?thesis using Suc by (simp add: add.assoc)
  qed
qed simp

lemma memmove_loop_mirror:
  "memmove_loop n x y m a = memcpy_loop n (- x) (- y) (\<lambda>b. m (- b)) (- a)"
proof (induction n arbitrary: x y m)
  case (Suc n)
  have "(\<lambda>b. (m(x := m y)) (- b)) = (\<lambda>b. m (- b))(- x := m y)" by (auto simp: fun_eq_iff)
  then show ?case by (simp add: Suc.IH)
qed simp

text \<open>
  Both directions of \<open>memmove\<close>: the destination receives the bytes the source had before,
  whether or not the two overlap, and nothing else changes.
\<close>

lemma memmove_spec:
  assumes "unat dst + unat n \<le> 2 ^ 64" "unat src + unat n \<le> 2 ^ 64"
  shows "i < unat n \<Longrightarrow> memmove dst src n m (dst + of_nat i) = m (src + of_nat i)"
    "\<not> inside dst (unat n) p \<Longrightarrow> memmove dst src n m p = m p"
proof -
  have n: "unat n < 2 ^ 64" using unsigned_less [of n] by simp
  show "memmove dst src n m (dst + of_nat i) = m (src + of_nat i)" if i: "i < unat n"
  proof (cases "dst < src")
    case True
    then have "unat (src - dst) = unat src - unat dst" by (intro unat_sub) simp
    then have "unat (src - dst) + unat n \<le> 2 ^ 64" using assms(2) by simp
    then show ?thesis using True memcpy_loop_inside [OF _ n i] by (simp add: memmove_def memcpy_def)
  next
    case False
    then have "unat (dst - src) = unat dst - unat src" by (intro unat_sub) simp
    then have "unat (dst - src) + unat n \<le> 2 ^ 64" using assms(1) by simp
    moreover define j where "j = unat n - 1 - i"
    have j: "j < unat n" "n = of_nat j + 1 + of_nat i"
    proof -
      have "unat n = j + 1 + i" using i by (simp add: j_def)
      then have "(of_nat (unat n) :: u64) = of_nat j + 1 + of_nat i" by simp
      then show "n = of_nat j + 1 + of_nat i" by simp
      show "j < unat n" using i by (simp add: j_def)
    qed
    ultimately have "memcpy_loop (unat n) (- (dst + n - 1)) (- (src + n - 1)) (\<lambda>b. m (- b)) (- (dst + n - 1) + of_nat j) =
        m (- (- (src + n - 1) + of_nat j))"
      using n by (intro memcpy_loop_inside) simp_all
    moreover have "- (dst + n - 1) + of_nat j = - (dst + of_nat i)" "- (- (src + n - 1) + of_nat j) = src + of_nat i"
      by (subst j(2), simp)+
    ultimately have "memcpy_loop (unat n) (- (dst + n - 1)) (- (src + n - 1)) (\<lambda>b. m (- b)) (- (dst + of_nat i)) =
        m (src + of_nat i)" by (simp only:)
    then show ?thesis using False unfolding memmove_def memmove_loop_mirror by (simp only: if_False)
  qed
  show "memmove dst src n m p = m p" if p: "\<not> inside dst (unat n) p"
  proof (cases "dst < src")
    case True
    then show ?thesis using memcpy_loop_outside [OF p] by (simp add: memmove_def memcpy_def)
  next
    case False
    have "\<not> inside (- (dst + n - 1)) (unat n) (- p)"
    proof
      assume "inside (- (dst + n - 1)) (unat n) (- p)"
      then have k: "unat (dst + n - 1 - p) < unat n" by (simp add: inside_def algebra_simps)
      define q where "q = dst + n - 1 - p"
      have q: "unat q < unat n" using k by (simp add: q_def)
      have "1 \<le> n" using q by (simp add: word_le_nat_alt)
      then have n1: "unat (n - 1) = unat n - 1" by (simp add: unat_sub)
      then have "q \<le> n - 1" using q by (simp add: word_le_nat_alt)
      moreover have "p - dst = (n - 1) - q" by (simp add: q_def)
      ultimately have "unat (p - dst) = unat n - 1 - unat q" using n1 by (simp add: unat_sub)
      then have "unat (p - dst) < unat n" using q by linarith
      then show False using p by (simp add: inside_def)
    qed
    from memcpy_loop_outside [OF this] show ?thesis using False by (simp add: memmove_def memmove_loop_mirror)
  qed
qed


lemma memcpy_spec:
  assumes "unat (src - dst) + unat n \<le> 2 ^ 64"
  shows "i < unat n \<Longrightarrow> memcpy dst src n m (dst + of_nat i) = m (src + of_nat i)"
    "\<not> inside dst (unat n) p \<Longrightarrow> memcpy dst src n m p = m p"
  using memcpy_loop_inside [OF assms] unsigned_less [of n] by (simp_all add: memcpy_def memcpy_loop_outside)

lemma memset_loop_outside: "\<not> inside p n q \<Longrightarrow> memset_loop n p c m q = m q"
  by (induction n arbitrary: p m) (auto simp: inside_Suc)

lemma memset_loop_inside: "n < 2 ^ 64 \<Longrightarrow> inside p n q \<Longrightarrow> memset_loop n p c m q = c"
proof (induction n arbitrary: p m)
  case (Suc n)
  show ?case
  proof (cases "q = p")
    case True
    then show ?thesis using memset_loop_outside [OF not_inside_next] Suc.prems(1) by simp
  next
    case False
    then show ?thesis using Suc by (simp add: inside_Suc)
  qed
qed (simp add: inside_def)

lemma memset_apply: "memset p c n m q = (if inside p (unat n) q then c else m q)"
  using memset_loop_inside [of "unat n" p q c m] memset_loop_outside [of p "unat n" q c m] unsigned_less [of n]
  by (simp add: memset_def)

lemma inside_iff_offset: "n < 2 ^ 64 \<Longrightarrow> inside a n x \<longleftrightarrow> (\<exists>i<n. x = a + of_nat i)"
proof
  assume "inside a n x"
  then show "\<exists>i<n. x = a + of_nat i" by (intro exI [of _ "unat (x - a)"]) (simp add: inside_def)
next
  assume "n < 2 ^ 64" "\<exists>i<n. x = a + of_nat i"
  then show "inside a n x" by (auto simp: inside_def unat_of_nat_less)
qed

lemma memcmp_loop_eq_0: "memcmp_loop n x y m = 0 \<longleftrightarrow> bytes m x n = bytes m y n"
  by (induction n arbitrary: x y) (simp_all add: bytes_Suc word_uint_eq_iff)

lemma memcmp_eq_0: "memcmp a b n m = 0 \<longleftrightarrow> bytes m a (unat n) = bytes m b (unat n)"
  by (simp add: memcmp_def memcmp_loop_eq_0)

text \<open>Equality up to and including the first zero byte, or of all \<open>n\<close> bytes.\<close>

fun str_agree :: "nat \<Rightarrow> (nat \<Rightarrow> u8) \<Rightarrow> (nat \<Rightarrow> u8) \<Rightarrow> bool" where
  "str_agree n a b \<longleftrightarrow> (\<forall>i<n. (\<forall>j<i. a j \<noteq> 0) \<longrightarrow> a i = b i)"

lemma strncmp_loop_eq_0:
  "strncmp_loop n i a b x x = 0 \<longleftrightarrow> str_agree n (\<lambda>k. a (i + k)) (\<lambda>k. b (i + k))"
proof (induction n arbitrary: i x)
  case (Suc n)
  have "str_agree (Suc n) (\<lambda>k. a (i + k)) (\<lambda>k. b (i + k)) \<longleftrightarrow>
      a i = b i \<and> (a i \<noteq> 0 \<longrightarrow> str_agree n (\<lambda>k. a (i + 1 + k)) (\<lambda>k. b (i + 1 + k)))"
    by (simp add: All_less_Suc2) blast
  moreover have "uint (a i) = uint (b i) \<longleftrightarrow> a i = b i" by (simp add: word_uint_eq_iff)
  ultimately show ?case using Suc.IH [of "i + 1" "a i"] by (cases "a i = b i") (auto simp: Let_def simp del: str_agree.simps)
qed simp

lemma strncmp_eq_0: "strncmp a b n = 0 \<longleftrightarrow> str_agree (unat n) a b"
  unfolding strncmp_def strncmp_loop_eq_0 by simp

lemma strnlen_loop_spec:
  "unat i + n < 2 ^ 64 \<Longrightarrow> \<exists>k\<le>n. strnlen_loop n str i m = i + of_nat k \<and>
     (\<forall>j<k. m (str + i + of_nat j) \<noteq> 0) \<and> (k < n \<longrightarrow> m (str + i + of_nat k) = 0)"
proof (induction n arbitrary: i)
  case (Suc n)
  show ?case
  proof (cases "m (str + i) = 0")
    case False
    have "unat (i + 1) + n < 2 ^ 64" using Suc.prems by (simp add: unat_add_no_wrap)
    from Suc.IH [OF this] obtain k where k: "k \<le> n" "strnlen_loop n str (i + 1) m = i + 1 + of_nat k"
      "\<forall>j<k. m (str + (i + 1) + of_nat j) \<noteq> 0" "k < n \<longrightarrow> m (str + (i + 1) + of_nat k) = 0" by blast
    then show ?thesis using False
      by (intro exI [of _ "Suc k"]) (auto simp: All_less_Suc2 add.assoc)
  qed auto
qed auto

lemma strnlen_s_spec:
  assumes "str \<noteq> 0"
  shows "strnlen_s str n m \<le> n" "j < unat (strnlen_s str n m) \<Longrightarrow> m (str + of_nat j) \<noteq> 0"
    "strnlen_s str n m < n \<Longrightarrow> m (str + strnlen_s str n m) = 0"
proof -
  obtain k where k: "k \<le> unat n" "strnlen_s str n m = of_nat k" "\<forall>j<k. m (str + of_nat j) \<noteq> 0"
    "k < unat n \<longrightarrow> m (str + of_nat k) = 0"
    using strnlen_loop_spec [of 0 "unat n" str m] assms by (auto simp: strnlen_s_def)
  moreover have "unat (of_nat k :: u64) = k" using k(1) u64_bound [of n] by (intro unat_of_nat_less) (simp add: order_le_less_trans)
  ultimately show "strnlen_s str n m \<le> n" "j < unat (strnlen_s str n m) \<Longrightarrow> m (str + of_nat j) \<noteq> 0"
    "strnlen_s str n m < n \<Longrightarrow> m (str + strnlen_s str n m) = 0"
    by (simp_all add: word_le_nat_alt word_less_nat_alt)
qed

lemma CHECK_OR_FILL_eq_Ret: "CHECK_OR_FILL c d z ch m = Ret m' \<longleftrightarrow> c \<and> m' = m"
  by (auto simp: CHECK_OR_FILL_def)

lemma memcpy_s_eq_Ret:
  "memcpy_s dest destsz src cnt m = Ret m' \<longleftrightarrow>
     dest \<noteq> 0 \<and> src \<noteq> 0 \<and> destsz \<le> RSIZE_MAX \<and> cnt \<le> destsz \<and> dest \<noteq> src \<and>
     (dest < src \<or> src + cnt \<le> dest) \<and> (src < dest \<or> dest + cnt \<le> src) \<and> m' = memcpy dest src cnt m"
  by (auto simp: memcpy_s_def CHECK_OR_FILL_eq_Ret)

lemma memmove_s_eq_Ret:
  "memmove_s dest destsz src cnt m = Ret m' \<longleftrightarrow>
     dest \<noteq> 0 \<and> src \<noteq> 0 \<and> destsz \<le> RSIZE_MAX \<and> cnt \<le> destsz \<and> m' = memmove dest src cnt m"
  by (auto simp: memmove_s_def CHECK_OR_FILL_eq_Ret)

lemma ordered_disjoint:
  fixes a b n :: u64
  assumes "unat a + unat n \<le> 2 ^ 64" "unat b + unat n \<le> 2 ^ 64" "a < b" "0 < n"
  shows "a + n \<le> b \<longleftrightarrow> (\<forall>p. \<not> (inside a (unat n) p \<and> inside b (unat n) p))"
proof -
  have lt: "unat a < unat b" using assms(3) by (simp add: word_less_nat_alt)
  have n: "0 < unat n" using assms(4) by (simp add: word_less_nat_alt)
  have "unat a + unat n < 2 ^ 64" using lt assms(2) by linarith
  then have an: "unat (a + n) = unat a + unat n" by (intro unat_add_no_wrap) simp
  have ba: "unat (b - a) = unat b - unat a" using assms(3) by (intro unat_sub) simp
  show ?thesis
  proof
    assume "a + n \<le> b"
    then have le: "unat a + unat n \<le> unat b" using an by (simp add: word_le_nat_alt)
    show "\<forall>p. \<not> (inside a (unat n) p \<and> inside b (unat n) p)"
    proof (intro allI notI, elim conjE)
      fix p assume "inside a (unat n) p" "inside b (unat n) p"
      then have p: "unat (p - a) < unat n" "unat (p - b) < unat n" by (simp_all add: inside_def)
      have "unat (p - b) + unat (b - a) < 2 ^ 64" using p(2) ba le assms(2) by linarith
      then have "unat ((p - b) + (b - a)) = unat (p - b) + unat (b - a)" by (intro unat_add_no_wrap) simp
      then have "unat (p - a) = unat (p - b) + unat (b - a)" by simp
      then show False using p ba le lt by linarith
    qed
  next
    assume *: "\<forall>p. \<not> (inside a (unat n) p \<and> inside b (unat n) p)"
    have "inside b (unat n) b" using n by (simp add: inside_def)
    then have "\<not> inside a (unat n) b" using * by blast
    then show "a + n \<le> b" using ba an lt by (simp add: inside_def word_le_nat_alt)
  qed
qed

definition disjoint_ranges :: "u64 \<Rightarrow> u64 \<Rightarrow> u64 \<Rightarrow> bool" where
  "disjoint_ranges a b n \<longleftrightarrow> (\<forall>p. \<not> (inside a (unat n) p \<and> inside b (unat n) p))"

text \<open>For two buffers that do not wrap, the overlap test is disjointness.\<close>

lemma overlap_test:
  assumes "unat dst + unat n \<le> 2 ^ 64" "unat src + unat n \<le> 2 ^ 64" "0 < n"
  shows "dst \<noteq> src \<and> (dst < src \<or> src + n \<le> dst) \<and> (src < dst \<or> dst + n \<le> src) \<longleftrightarrow> disjoint_ranges dst src n"
proof (cases dst src rule: linorder_cases)
  case less
  then show ?thesis using ordered_disjoint [OF assms(1,2) less assms(3)] by (auto simp: disjoint_ranges_def)
next
  case equal
  have "inside a (unat n) a" for a using assms(3) by (simp add: inside_def word_less_nat_alt)
  then show ?thesis using equal by (auto simp: disjoint_ranges_def)
next
  case greater
  then show ?thesis using ordered_disjoint [OF assms(2,1) greater assms(3)] by (auto simp: disjoint_ranges_def)
qed

lemma memcpy_s_copies:
  assumes "unat dst + unat n \<le> 2 ^ 64" "unat src + unat n \<le> 2 ^ 64" "0 < n"
    and "memcpy_s dst destsz src n m = Ret m'"
  shows "bytes m' dst (unat n) = bytes m src (unat n) \<and> (\<forall>p. \<not> inside dst (unat n) p \<longrightarrow> m' p = m p)"
proof -
  have sep: "dst \<noteq> src" "dst < src \<or> src + n \<le> dst" and m': "m' = memcpy dst src n m"
    using assms(4) by (simp_all add: memcpy_s_eq_Ret)
  have "unat (src - dst) + unat n \<le> 2 ^ 64"
  proof (cases "dst < src")
    case True
    then show ?thesis using assms(2) by (simp add: unat_sub)
  next
    case False
    then have gt: "src < dst" and le: "src + n \<le> dst" using sep by auto
    have "unat src + unat n < 2 ^ 64" using gt assms(1) by (simp add: word_less_nat_alt)
    then have "unat (src + n) = unat src + unat n" by (intro unat_add_no_wrap) simp
    then have "unat src + unat n \<le> unat dst" using le by (simp add: word_le_nat_alt)
    moreover have "unat dst < 2 ^ 64" by (rule u64_lt)
    moreover have "unat (src - dst) = unat src + 2 ^ 64 - unat dst"
      using gt by (simp add: unat_sub_if' word_less_nat_alt)
    ultimately show ?thesis by linarith
  qed
  then show ?thesis using memcpy_spec by (auto simp: bytes_def m')
qed

section \<open>Properties\<close>

text \<open>
  C29: \<open>memmove\<close> is exact for any two buffers that do not wrap around the address space,
  overlapping or not: every destination byte is the byte the source had before the call, and
  every byte outside the destination is unchanged.
\<close>

theorem memmove_exact:
  assumes "unat dst + unat n \<le> 2 ^ 64" "unat src + unat n \<le> 2 ^ 64"
  shows "bytes (memmove dst src n m) dst (unat n) = bytes m src (unat n) \<and>
         (\<forall>p. \<not> inside dst (unat n) p \<longrightarrow> memmove dst src n m p = m p)"
  using memmove_spec [OF assms] by (auto simp: bytes_def)

theorem memmove_exact_witness:
  "unat (0x1004 :: u64) + unat (8 :: u64) \<le> 2 ^ 64 \<and> unat (0x1000 :: u64) + unat (8 :: u64) \<le> 2 ^ 64 \<and>
   bytes (memmove 0x1004 0x1000 8 (\<lambda>a. ucast a)) 0x1004 8 = [0, 1, 2, 3, 4, 5, 6, 7] \<and>
   memmove 0x1004 0x1000 8 (\<lambda>a. ucast a) 0x1003 = 3"
proof -
  have "unat (0x1004 :: u64) + unat (8 :: u64) \<le> 2 ^ 64" "unat (0x1000 :: u64) + unat (8 :: u64) \<le> 2 ^ 64"
    by simp_all
  from memmove_exact [OF this, of "\<lambda>a. ucast a"]
  have "bytes (memmove 0x1004 0x1000 8 (\<lambda>a. ucast a)) 0x1004 8 = bytes (\<lambda>a. ucast a) 0x1000 8"
    "memmove 0x1004 0x1000 8 (\<lambda>a. ucast a) 0x1003 = ucast (0x1003 :: u64)"
    by (auto simp: inside_def unsigned_minus_1_eq_mask mask_eq_exp_minus_1 dest!: spec [of _ "0x1003"])
  then show ?thesis by (simp add: bytes_def upt_rec)
qed

text \<open>
  C30: the contract of \<open>memcpy_s\<close> on buffers that do not wrap: it returns exactly when both
  pointers are non-null and different, the count fits the destination, the destination is at
  most \<open>RSIZE_MAX\<close> bytes and the two ranges are disjoint (otherwise it panics), and when it
  returns the destination holds the bytes of the source and nothing else has changed.
\<close>

theorem memcpy_s_contract:
  assumes "unat dst + unat n \<le> 2 ^ 64" "unat src + unat n \<le> 2 ^ 64" "0 < n"
  shows "(if dst \<noteq> 0 \<and> src \<noteq> 0 \<and> n \<le> destsz \<and> destsz \<le> RSIZE_MAX \<and> disjoint_ranges dst src n
          then \<exists>m'. memcpy_s dst destsz src n m = Ret m' \<and> bytes m' dst (unat n) = bytes m src (unat n) \<and>
            (\<forall>p. \<not> inside dst (unat n) p \<longrightarrow> m' p = m p)
          else memcpy_s dst destsz src n m = Panic)"
proof -
  have "memcpy_s dst destsz src n m = Panic \<or> (\<exists>m'. memcpy_s dst destsz src n m = Ret m')"
    by (simp add: memcpy_s_def CHECK_OR_FILL_def memset_s_def)
  then show ?thesis
    using overlap_test [OF assms] memcpy_s_copies [OF assms] memcpy_s_eq_Ret [of dst destsz src n m] by auto
qed

theorem memcpy_s_contract_witness:
  "\<exists>m'. memcpy_s 0x2000 16 0x1000 4 (\<lambda>a. ucast a) = Ret m' \<and> bytes m' 0x2000 4 = [0, 1, 2, 3]"
proof -
  have "disjoint_ranges 0x2000 0x1000 4"
  proof (unfold disjoint_ranges_def, intro allI notI, elim conjE)
    fix p :: u64
    assume "inside 0x2000 (unat (4 :: u64)) p" "inside 0x1000 (unat (4 :: u64)) p"
    then obtain i j where "i < 4" "j < 4" "p = 0x2000 + of_nat i" "p = 0x1000 + of_nat j"
      by (auto simp: inside_iff_offset)
    then have "(0x1000 :: u64) + of_nat i = of_nat j" by (simp add: algebra_simps)
    then have "unat ((0x1000 :: u64) + of_nat i) = unat (of_nat j :: u64)" by simp
    moreover have "unat (of_nat i :: u64) = i" "unat (of_nat j :: u64) = j"
      using \<open>i < 4\<close> \<open>j < 4\<close> by (simp_all add: unat_of_nat_less)
    ultimately show False using \<open>i < 4\<close> \<open>j < 4\<close> unat_add_no_wrap [of "0x1000 :: u64" "of_nat i"] by simp
  qed
  then show ?thesis
    using memcpy_s_contract [of "0x2000" 4 "0x1000" 16 "\<lambda>a. ucast a"] by (auto simp: RSIZE_MAX_def bytes_def upt_rec)
qed

end
