(* ===== verification/Memiter.thy ===== *)
theory Memiter
  imports Std
begin

text \<open>
  Views of memory (\<^verbatim>\<open>src/memiter.c\<close>) and bounded strings (\<^verbatim>\<open>src/string.c\<close>). Every operation
  is described by what it does to the list of bytes a view covers; the scanning loops are
  total functions, their measure the bytes left. The properties are that \<open>memiter_consume\<close>
  splits a view and never panics, and that a string accepted by \<open>string_init\<close> is equal to
  exactly the terminated views with the same bytes.
\<close>

section \<open>Views of memory\<close>

record memiter =
  it_next :: u64
  it_limit :: u64

definition memiter_init :: "u64 \<Rightarrow> u64 \<Rightarrow> memiter" where
  "memiter_init data sz = \<lparr>it_next = data, it_limit = data + sz\<rparr>"

definition isspace :: "u8 \<Rightarrow> bool" where
  "isspace c \<longleftrightarrow> c = 0x20 \<or> c = 0x09 \<or> c = 0x0A \<or> c = 0x0D"

definition memiter_isspace :: "byte_mem \<Rightarrow> memiter \<Rightarrow> bool" where
  "memiter_isspace m it = isspace (m (it_next it))"

definition memiter_base :: "memiter \<Rightarrow> u64" where
  "memiter_base it = it_next it"

definition memiter_size :: "memiter \<Rightarrow> u64" where
  "memiter_size it = it_limit it - it_next it"

text \<open>Moving \<open>next\<close> up by one keeps it at most \<open>limit\<close> as long as it is below.\<close>

lemma step_down: "a < b \<Longrightarrow> unat (b - (a + 1) :: u64) < unat (b - a)"
proof -
  assume "a < b"
  then have "b \<noteq> a" by auto
  moreover have "0 < unat (b - a)" using \<open>a < b\<close> by (simp add: unat_gt_0)
  ultimately show ?thesis using unat_minus_one by simp
qed

function memiter_skip_space :: "byte_mem \<Rightarrow> memiter \<Rightarrow> memiter" where
  "memiter_skip_space m it =
     (if it_next it < it_limit it \<and> memiter_isspace m it
      then memiter_skip_space m (it\<lparr>it_next := it_next it + 1\<rparr>) else it)"
  by pat_completeness auto
termination
  by (relation "measure (\<lambda>(m, it). unat (it_limit it - it_next it))") (auto simp: step_down)

function skip_word :: "byte_mem \<Rightarrow> memiter \<Rightarrow> memiter" where
  "skip_word m it =
     (if it_next it < it_limit it \<and> \<not> memiter_isspace m it
      then skip_word m (it\<lparr>it_next := it_next it + 1\<rparr>) else it)"
  by pat_completeness auto
termination
  by (relation "measure (\<lambda>(m, it). unat (it_limit it - it_next it))") (auto simp: step_down)

declare memiter_skip_space.simps [simp del] skip_word.simps [simp del]

definition memiter_iseq :: "byte_mem \<Rightarrow> memiter \<Rightarrow> u64 \<Rightarrow> bool" where
  "memiter_iseq m it str =
     (let it_len = it_limit it - it_next it;
          len = strnlen_s str (it_len + 1) m
      in if len \<noteq> it_len then False else memcmp (it_next it) str len m = 0)"

text \<open>The result is whether a string was found, the iterator and the string's view.\<close>

definition memiter_parse_str :: "byte_mem \<Rightarrow> memiter \<Rightarrow> memiter \<Rightarrow> bool \<times> memiter \<times> memiter" where
  "memiter_parse_str m it str =
     (let it = memiter_skip_space m it
      in if it_next it \<ge> it_limit it then (False, it, str)
         else let str = str\<lparr>it_next := it_next it\<rparr>;
                  it = skip_word m it
              in (True, it, str\<lparr>it_limit := it_next it\<rparr>))"

definition isdigit :: "u8 \<Rightarrow> bool" where
  "isdigit c \<longleftrightarrow> \<not> (c < 0x30 \<or> c > 0x39)"

text \<open>
  The do-while loop takes a first digit and then, as long as the condition holds, the next.
  The characters are promoted to \<open>uint64_t\<close> by the arithmetic.
\<close>

definition add_digit :: "u64 \<Rightarrow> u8 \<Rightarrow> u64" where
  "add_digit v c = v * 10 + ucast c - 0x30"

function parse_digits :: "byte_mem \<Rightarrow> memiter \<Rightarrow> u64 \<Rightarrow> memiter \<times> u64" where
  "parse_digits m it v =
     (if it_next it < it_limit it \<and> m (it_next it) \<ge> 0x30 \<and> m (it_next it) \<le> 0x39
      then parse_digits m (it\<lparr>it_next := it_next it + 1\<rparr>) (add_digit v (m (it_next it))) else (it, v))"
  by pat_completeness auto
termination
  by (relation "measure (\<lambda>(m, it, v). unat (it_limit it - it_next it))") (auto simp: step_down)

declare parse_digits.simps [simp del]

text \<open>The result is the iterator, and the value where a number was parsed.\<close>

definition memiter_parse_uint :: "byte_mem \<Rightarrow> memiter \<Rightarrow> memiter \<times> u64 option" where
  "memiter_parse_uint m it =
     (let it = memiter_skip_space m it
      in if it_next it \<ge> it_limit it then (it, None)
         else if m (it_next it) < 0x30 \<or> m (it_next it) > 0x39 then (it, None)
         else let (it, v) = parse_digits m (it\<lparr>it_next := it_next it + 1\<rparr>) (add_digit 0 (m (it_next it)))
              in (it, Some v))"

definition memiter_advance :: "memiter \<Rightarrow> u64 \<Rightarrow> bool \<times> memiter" where
  "memiter_advance it v =
     (let p = it_next it + v
      in if p < it_next it \<or> p > it_limit it then (False, it) else (True, it\<lparr>it_next := p\<rparr>))"

definition memiter_restrict :: "memiter \<Rightarrow> u64 \<Rightarrow> bool \<times> memiter" where
  "memiter_restrict it v =
     (let s = memiter_size it
      in if v > s then (False, it) else (True, it\<lparr>it_limit := it_next it + (s - v)\<rparr>))"

text \<open>The iterator, and the new view where there is one.\<close>

definition memiter_consume :: "memiter \<Rightarrow> u64 \<Rightarrow> (memiter \<times> memiter option) outcome" where
  "memiter_consume it v =
     (if v > memiter_size it then Ret (it, None)
      else let newit = memiter_init (memiter_base it) v;
               (ok, it) = memiter_advance it v
           in check ok (Ret (it, Some newit)))"

section \<open>The bytes of a view\<close>

definition it_ok :: "memiter \<Rightarrow> bool" where
  "it_ok it \<longleftrightarrow> it_next it \<le> it_limit it"

definition view :: "byte_mem \<Rightarrow> memiter \<Rightarrow> u8 list" where
  "view m it = bytes m (it_next it) (unat (it_limit it - it_next it))"

lemma view_length [simp]: "length (view m it) = unat (memiter_size it)"
  by (simp add: view_def memiter_size_def)

lemma memiter_init_size [simp]: "memiter_size (memiter_init b v) = v"
  by (simp add: memiter_init_def memiter_size_def)

lemma view_upd: "view m (it\<lparr>it_limit := l, it_next := n\<rparr>) = view m (it\<lparr>it_next := n, it_limit := l\<rparr>)"
  by (simp add: view_def)

lemma view_Cons:
  assumes "it_next it < it_limit it"
  shows "view m it = m (it_next it) # view m (it\<lparr>it_next := it_next it + 1\<rparr>)"
proof -
  have "it_limit it \<noteq> it_next it" using assms by auto
  moreover have "0 < unat (it_limit it - it_next it)" using assms by (simp add: unat_gt_0)
  ultimately have "unat (it_limit it - it_next it) = Suc (unat (it_limit it - (it_next it + 1)))"
    using unat_minus_one by simp
  then show ?thesis by (simp add: view_def bytes_Suc)
qed

lemma view_Nil: "it_ok it \<Longrightarrow> \<not> it_next it < it_limit it \<Longrightarrow> view m it = []"
  by (simp add: it_ok_def view_def)

lemma less_Suc_of_less: "a < b \<Longrightarrow> a < a + (1 :: u64)"
proof -
  assume "a < b"
  then have "unat a < unat b" by (simp add: word_less_nat_alt)
  then have "unat a + 1 < 2 ^ 64" using u64_lt [of b] by linarith
  then have "unat (a + 1) = unat a + 1" using unat_add_no_wrap [of a 1] by simp
  then show ?thesis by (simp add: word_less_nat_alt)
qed

lemma it_ok_next: "it_next it < it_limit it \<Longrightarrow> it_ok (it\<lparr>it_next := it_next it + 1\<rparr>)"
  by (simp add: it_ok_def inc_le)

lemma view_stop:
  assumes "it_ok it" "\<not> (it_next it < it_limit it \<and> P (m (it_next it)))"
  shows "dropWhile P (view m it) = view m it" "takeWhile P (view m it) = []"
  using assms view_Cons [of it m] view_Nil [of it m] by (cases "it_next it < it_limit it"; simp)+

lemma view_eq_Nil: "it_ok it \<Longrightarrow> view m it = [] \<longleftrightarrow> \<not> it_next it < it_limit it"
  using view_Cons view_Nil by (metis list.distinct(1))

lemma memiter_skip_space_spec:
  "it_ok it \<Longrightarrow> it_ok (memiter_skip_space m it) \<and> it_limit (memiter_skip_space m it) = it_limit it \<and>
     view m (memiter_skip_space m it) = dropWhile isspace (view m it)"
proof (induction m it rule: memiter_skip_space.induct)
  case (1 m it)
  show ?case
  proof (cases "it_next it < it_limit it \<and> memiter_isspace m it")
    case True
    then show ?thesis using 1 it_ok_next [of it] view_Cons [of it m]
      by (simp add: memiter_skip_space.simps [of m it] memiter_isspace_def)
  next
    case False
    then have "memiter_skip_space m it = it" by (auto simp: memiter_skip_space.simps [of m it])
    moreover have "dropWhile isspace (view m it) = view m it"
      using False "1.prems" by (intro view_stop) (auto simp: memiter_isspace_def)
    ultimately show ?thesis using "1.prems" by simp
  qed
qed

lemma skip_word_spec:
  "it_ok it \<Longrightarrow> it_ok (skip_word m it) \<and> it_limit (skip_word m it) = it_limit it \<and>
     it_next it \<le> it_next (skip_word m it) \<and>
     view m (skip_word m it) = dropWhile (\<lambda>c. \<not> isspace c) (view m it) \<and>
     view m (it\<lparr>it_limit := it_next (skip_word m it)\<rparr>) = takeWhile (\<lambda>c. \<not> isspace c) (view m it)"
proof (induction m it rule: skip_word.induct)
  case (1 m it)
  let ?it = "it\<lparr>it_next := it_next it + 1\<rparr>"
  show ?case
  proof (cases "it_next it < it_limit it \<and> \<not> memiter_isspace m it")
    case True
    then have eq: "skip_word m it = skip_word m ?it" by (simp add: skip_word.simps [of m it])
    have IH: "it_ok (skip_word m ?it)" "it_limit (skip_word m ?it) = it_limit it" "it_next it + 1 \<le> it_next (skip_word m ?it)"
      "view m (skip_word m ?it) = dropWhile (\<lambda>c. \<not> isspace c) (view m ?it)"
      "view m (?it\<lparr>it_limit := it_next (skip_word m ?it)\<rparr>) = takeWhile (\<lambda>c. \<not> isspace c) (view m ?it)"
      using 1(1) [OF True] it_ok_next [of it] True by simp_all
    have lt: "it_next it < it_next (skip_word m ?it)" using less_Suc_of_less [of "it_next it" "it_limit it"] IH(3) True by simp
    then show ?thesis
      using IH True view_Cons [of it m] view_Cons [of "it\<lparr>it_limit := it_next (skip_word m ?it)\<rparr>" m]
      by (simp add: eq memiter_isspace_def view_upd order.strict_implies_order)
  next
    case False
    then have "skip_word m it = it" by (auto simp: skip_word.simps [of m it])
    moreover have "view m (it\<lparr>it_limit := it_next it\<rparr>) = []" by (simp add: view_def)
    ultimately show ?thesis
      using False "1.prems" view_stop [of it "\<lambda>c. \<not> isspace c" m] by (simp add: memiter_isspace_def)
  qed
qed

text \<open>The value of a decimal numeral, most significant digit first.\<close>

fun decimal :: "nat \<Rightarrow> u8 list \<Rightarrow> nat" where
  "decimal v [] = v"
| "decimal v (c # cs) = decimal (v * 10 + (unat c - 0x30)) cs"

lemma add_digit_of_nat: "isdigit c \<Longrightarrow> add_digit (of_nat v) c = of_nat (v * 10 + (unat c - 0x30))"
proof -
  assume "isdigit c"
  then have "0x30 \<le> unat c" by (simp add: isdigit_def word_le_nat_alt not_less)
  moreover have "(ucast c :: u64) = of_nat (unat c)" by simp
  ultimately show ?thesis by (simp add: add_digit_def of_nat_diff algebra_simps)
qed

lemma parse_digits_spec:
  "it_ok it \<Longrightarrow> case parse_digits m it (of_nat v) of (it', w) \<Rightarrow>
     it_ok it' \<and> it_limit it' = it_limit it \<and> view m it' = dropWhile isdigit (view m it) \<and>
     w = of_nat (decimal v (takeWhile isdigit (view m it)))"
proof (induction m it "of_nat v :: u64" arbitrary: v rule: parse_digits.induct)
  case (1 m it)
  have digit: "m (it_next it) \<ge> 0x30 \<and> m (it_next it) \<le> 0x39 \<longleftrightarrow> isdigit (m (it_next it))"
    by (auto simp: isdigit_def)
  show ?case
  proof (cases "it_next it < it_limit it \<and> isdigit (m (it_next it))")
    case True
    then have eq: "parse_digits m it (of_nat v) = parse_digits m (it\<lparr>it_next := it_next it + 1\<rparr>)
        (of_nat (v * 10 + (unat (m (it_next it)) - 0x30)))"
      using digit by (simp only: parse_digits.simps [of m it] add_digit_of_nat [symmetric]) simp
    show ?thesis unfolding eq
      using 1(1) [OF _ add_digit_of_nat] True digit it_ok_next [of it] view_Cons [of it m] by simp
  next
    case False
    then have "parse_digits m it (of_nat v) = (it, of_nat v)"
      using digit by (auto simp: parse_digits.simps [of m it])
    then show ?thesis using False "1.prems" view_stop [of it isdigit m] by simp
  qed
qed


lemma memiter_parse_uint_spec:
  assumes "it_ok it"
  shows "case memiter_parse_uint m it of (it', r) \<Rightarrow>
     it_ok it' \<and> it_limit it' = it_limit it \<and>
     (let cs = dropWhile isspace (view m it)
      in view m it' = dropWhile isdigit cs \<and>
         r = (if takeWhile isdigit cs = [] then None else Some (of_nat (decimal 0 (takeWhile isdigit cs)))))"
proof -
  define jt where "jt = memiter_skip_space m it"
  have jt: "it_ok jt" "it_limit jt = it_limit it" "view m jt = dropWhile isspace (view m it)"
    using memiter_skip_space_spec [OF assms] by (simp_all add: jt_def)
  show ?thesis
  proof (cases "it_next jt < it_limit jt \<and> isdigit (m (it_next jt))")
    case True
    define kt where "kt = jt\<lparr>it_next := it_next jt + 1\<rparr>"
    have dig: "add_digit 0 (m (it_next jt)) = of_nat (unat (m (it_next jt)) - 0x30)"
      using add_digit_of_nat [of "m (it_next jt)" 0] True by simp
    have v: "view m jt = m (it_next jt) # view m kt" using view_Cons [of jt m] True by (simp add: kt_def)
    have "memiter_parse_uint m it = (let (it, v) = parse_digits m kt (add_digit 0 (m (it_next jt))) in (it, Some v))"
      using True by (auto simp: memiter_parse_uint_def jt_def [symmetric] kt_def Let_def isdigit_def)
    moreover have "it_ok kt" "it_limit kt = it_limit it" using it_ok_next [of jt] True jt(2) by (simp_all add: kt_def)
    ultimately show ?thesis
      using parse_digits_spec [of kt m "unat (m (it_next jt)) - 0x30"] True v
      unfolding dig jt(3) [symmetric] by (auto split: prod.splits)
  next
    case False
    then have "memiter_parse_uint m it = (jt, None)"
      by (auto simp: memiter_parse_uint_def jt_def [symmetric] Let_def isdigit_def)
    then show ?thesis using view_stop [of jt isdigit m] False jt by simp
  qed
qed

lemma memiter_parse_str_spec:
  assumes "it_ok it"
  shows "case memiter_parse_str m it s of (ok, it', s') \<Rightarrow>
     it_ok it' \<and> it_limit it' = it_limit it \<and>
     (let cs = dropWhile isspace (view m it)
      in view m it' = dropWhile (\<lambda>c. \<not> isspace c) cs \<and> (ok \<longleftrightarrow> cs \<noteq> []) \<and>
         (if ok then it_ok s' \<and> view m s' = takeWhile (\<lambda>c. \<not> isspace c) cs else s' = s))"
proof -
  define jt where "jt = memiter_skip_space m it"
  have jt: "it_ok jt" "it_limit jt = it_limit it" "view m jt = dropWhile isspace (view m it)"
    using memiter_skip_space_spec [OF assms] by (simp_all add: jt_def)
  show ?thesis
  proof (cases "it_next jt < it_limit jt")
    case True
    then have "memiter_parse_str m it s =
        (True, skip_word m jt, s\<lparr>it_next := it_next jt, it_limit := it_next (skip_word m jt)\<rparr>)"
      by (auto simp: memiter_parse_str_def jt_def [symmetric] Let_def)
    moreover have "view m jt \<noteq> []" using view_eq_Nil [OF jt(1)] True by simp
    moreover have "view m (s\<lparr>it_next := it_next jt, it_limit := it_next (skip_word m jt)\<rparr>) =
        view m (jt\<lparr>it_limit := it_next (skip_word m jt)\<rparr>)" by (simp add: view_def)
    moreover have "it_ok (s\<lparr>it_next := it_next jt, it_limit := it_next (skip_word m jt)\<rparr>)"
      using skip_word_spec [OF jt(1), of m] by (simp add: it_ok_def)
    ultimately show ?thesis using skip_word_spec [OF jt(1), of m] jt by simp
  next
    case False
    then have "memiter_parse_str m it s = (False, jt, s)"
      by (auto simp: memiter_parse_str_def jt_def [symmetric] Let_def)
    moreover have "view m jt = []" using view_Nil [OF jt(1)] False by simp
    ultimately show ?thesis using jt(1,2) unfolding jt(3) [symmetric] by simp
  qed
qed

lemma bytes_append: "bytes m a (i + j) = bytes m a i @ bytes m (a + of_nat i) j"
  by (induction i arbitrary: a) (simp_all add: bytes_Suc add.assoc)

lemma memiter_advance_iff:
  assumes "it_ok it"
  shows "memiter_advance it v =
    (if v \<le> memiter_size it then (True, it\<lparr>it_next := it_next it + v\<rparr>) else (False, it))"
proof -
  have sz: "unat (memiter_size it) = unat (it_limit it) - unat (it_next it)"
    using assms by (simp add: memiter_size_def it_ok_def unat_sub)
  have le: "unat (it_next it) \<le> unat (it_limit it)" using assms by (simp add: it_ok_def word_le_nat_alt)
  show ?thesis
  proof (cases "unat (it_next it) + unat v < 2 ^ 64")
    case True
    then have "unat (it_next it + v) = unat (it_next it) + unat v" by (intro unat_add_no_wrap) simp
    then show ?thesis using sz le by (auto simp: memiter_advance_def Let_def word_le_nat_alt word_less_nat_alt)
  next
    case False
    then have "unat (it_next it + v) + 2 ^ 64 = unat (it_next it) + unat v" by (simp add: unat_plus_if')
    then have "it_next it + v < it_next it" using u64_lt [of v] unfolding word_less_nat_alt by linarith
    moreover have "\<not> v \<le> memiter_size it"
      using False sz le u64_lt [of "it_limit it"] unfolding word_le_nat_alt by linarith
    ultimately show ?thesis by (simp add: memiter_advance_def)
  qed
qed

lemma advance_ok:
  assumes "it_ok it" "v \<le> memiter_size it"
  shows "it_ok (it\<lparr>it_next := it_next it + v\<rparr>)" "view m (it\<lparr>it_next := it_next it + v\<rparr>) = drop (unat v) (view m it)"
    "view m (memiter_init (it_next it) v) = take (unat v) (view m it)" "it_ok (memiter_init (it_next it) v)"
    "memiter_size (it\<lparr>it_next := it_next it + v\<rparr>) = memiter_size it - v"
proof -
  have le: "unat (it_next it) + unat v \<le> unat (it_limit it)"
    using assms unat_sub [of "it_next it" "it_limit it"]
    by (simp add: it_ok_def memiter_size_def word_le_nat_alt)
  then have lt: "unat (it_next it) + unat v < 2 ^ 64" using u64_lt [of "it_limit it"] by (rule order_le_less_trans)
  then have add: "unat (it_next it + v) = unat (it_next it) + unat v" by (intro unat_add_no_wrap) simp
  then show "it_ok (it\<lparr>it_next := it_next it + v\<rparr>)" "it_ok (memiter_init (it_next it) v)"
    using le by (simp_all add: it_ok_def memiter_init_def word_le_nat_alt)
  show "memiter_size (it\<lparr>it_next := it_next it + v\<rparr>) = memiter_size it - v"
    by (simp add: memiter_size_def algebra_simps)
  have "unat (memiter_size it) = unat v + unat (it_limit it - (it_next it + v))"
    using assms(2) unat_sub [of v "memiter_size it"] by (simp add: memiter_size_def word_le_nat_alt algebra_simps)
  then have "view m it = bytes m (it_next it) (unat v) @ view m (it\<lparr>it_next := it_next it + v\<rparr>)"
    using bytes_append [of m "it_next it" "unat v"] by (simp add: view_def memiter_size_def)
  then show "view m (it\<lparr>it_next := it_next it + v\<rparr>) = drop (unat v) (view m it)"
    "view m (memiter_init (it_next it) v) = take (unat v) (view m it)"
    by (simp_all add: view_def memiter_init_def)
qed

lemma memiter_consume_spec:
  assumes "it_ok it"
  shows "memiter_consume it v =
    (if v \<le> memiter_size it then Ret (it\<lparr>it_next := it_next it + v\<rparr>, Some (memiter_init (it_next it) v))
     else Ret (it, None))"
  using memiter_advance_iff [OF assms] by (auto simp: memiter_consume_def memiter_base_def Let_def)

lemma restrict_view:
  assumes "it_ok it" "v \<le> memiter_size it"
  shows "view m (snd (memiter_restrict it v)) = take (unat (memiter_size it - v)) (view m it)"
    "it_ok (snd (memiter_restrict it v))"
proof -
  have "memiter_size it - v \<le> memiter_size it" using assms(2) by (rule word_sub_le)
  from advance_ok(3,4) [OF assms(1) this]
  show "view m (snd (memiter_restrict it v)) = take (unat (memiter_size it - v)) (view m it)"
    "it_ok (snd (memiter_restrict it v))"
    using assms(2) by (simp_all add: memiter_restrict_def memiter_init_def Let_def view_def it_ok_def leD)
qed

lemma strnlen_s_exact:
  assumes "str \<noteq> 0" "n < n + 1"
  shows "strnlen_s str (n + 1) m = n \<longleftrightarrow> (\<forall>c\<in>set (bytes m str (unat n)). c \<noteq> 0) \<and> m (str + n) = 0"
proof -
  let ?len = "strnlen_s str (n + 1) m"
  note spec = strnlen_s_spec [OF assms(1), where n = "n + 1" and m = m]
  have set: "(\<forall>c\<in>set (bytes m str k). c \<noteq> 0) \<longleftrightarrow> (\<forall>j<k. m (str + of_nat j) \<noteq> 0)" for k
    by (auto simp: bytes_def)
  show ?thesis
  proof
    assume "?len = n"
    then show "(\<forall>c\<in>set (bytes m str (unat n)). c \<noteq> 0) \<and> m (str + n) = 0"
      using spec(2,3) assms(2) unfolding set by auto
  next
    assume *: "(\<forall>c\<in>set (bytes m str (unat n)). c \<noteq> 0) \<and> m (str + n) = 0"
    show "?len = n"
    proof (cases ?len n rule: linorder_cases)
      case less
      then have "m (str + ?len) = 0" using spec(3) assms(2) by simp
      moreover have "\<forall>j<unat n. m (str + of_nat j) \<noteq> 0" using * unfolding set by simp
      then have "m (str + of_nat (unat ?len)) \<noteq> 0" using less [unfolded word_less_nat_alt] by blast
      ultimately show ?thesis by simp
    next
      case greater
      then have "m (str + of_nat (unat n)) \<noteq> 0" by (intro spec(2)) (simp add: word_less_nat_alt)
      then show ?thesis using * by simp
    qed
  qed
qed

lemma memiter_iseq_spec:
  assumes "str \<noteq> 0" "memiter_size it < memiter_size it + 1"
  shows "memiter_iseq m it str \<longleftrightarrow>
    bytes m str (unat (memiter_size it)) = view m it \<and> 0 \<notin> set (view m it) \<and> m (str + memiter_size it) = 0"
proof -
  have "memiter_iseq m it str \<longleftrightarrow> strnlen_s str (memiter_size it + 1) m = memiter_size it \<and>
      bytes m str (unat (memiter_size it)) = view m it"
    by (auto simp: memiter_iseq_def Let_def memcmp_eq_0 view_def memiter_size_def)
  then show ?thesis unfolding strnlen_s_exact [OF assms] by auto
qed

section \<open>Bounded strings\<close>

text \<open>A \<open>struct string\<close> is its 32-byte buffer, named by its address.\<close>

definition STRING_MAX_SIZE :: u64 where "STRING_MAX_SIZE = 32"

datatype string_return_code = STRING_SUCCESS | STRING_ERROR_INVALID_INPUT | STRING_ERROR_TOO_LONG

definition string_init_empty :: "u64 \<Rightarrow> byte_mem \<Rightarrow> byte_mem" where
  "string_init_empty str m = m(str := 0)"

definition string_init :: "u64 \<Rightarrow> memiter \<Rightarrow> byte_mem \<Rightarrow> (string_return_code \<times> byte_mem) outcome" where
  "string_init str data m =
     (let base = memiter_base data;
          sz = memiter_size data
      in and_then (if sz < 1 then Ret True
                   else and_then (memchr base 0 sz m) (\<lambda>r. Ret (r \<noteq> Some (base + (sz - 1))))) (\<lambda>bad.
         if bad then Ret (STRING_ERROR_INVALID_INPUT, m)
         else if sz > STRING_MAX_SIZE then Ret (STRING_ERROR_TOO_LONG, m)
         else and_then (memcpy_s str STRING_MAX_SIZE base sz m) (\<lambda>m. Ret (STRING_SUCCESS, m))))"

definition string_is_empty :: "u64 \<Rightarrow> byte_mem \<Rightarrow> bool" where
  "string_is_empty str m \<longleftrightarrow> m str = 0"

definition string_data :: "u64 \<Rightarrow> u64" where
  "string_data str = str"

definition string_eq :: "u64 \<Rightarrow> memiter \<Rightarrow> byte_mem \<Rightarrow> bool" where
  "string_eq str data m =
     (let base = memiter_base data;
          len = memiter_size data
      in len \<le> STRING_MAX_SIZE \<and> strncmp (at m str) (at m base) len = 0)"

lemma memchr_loop_spec:
  "memchr_loop n p ch i m = (case find (\<lambda>k. m (p + i + of_nat k) = ch) [0..<n] of
     None \<Rightarrow> None | Some k \<Rightarrow> Some (p + i + of_nat k))"
proof (induction n arbitrary: i)
  case (Suc n)
  have upt: "[0..<Suc n] = 0 # map Suc [0..<n]" by (simp add: upt_conv_Cons map_Suc_upt del: upt_Suc)
  have find_map: "find P (map Suc ks) = map_option Suc (find (\<lambda>k. P (Suc k)) ks)" for P ks
    by (induction ks) simp_all
  show ?case unfolding upt
    by (simp add: Suc.IH find_map add.assoc option.case_eq_if map_option_case)
qed simp

lemma find_upt_last:
  "find P [0..<n] = Some k \<longleftrightarrow> k < n \<and> P k \<and> (\<forall>j<k. \<not> P j)"
  by (auto simp: find_Some_iff intro: exI [of _ k])

text \<open>The views \<open>string_init\<close> takes: one zero byte, in the last position.\<close>

lemma bytes_snoc: "bytes m a (Suc n) = bytes m a n @ [m (a + of_nat n)]"
  by (simp add: bytes_def)

lemma string_init_terminated:
  assumes "memiter_base data \<noteq> 0" "0 < memiter_size data"
  shows "memchr (memiter_base data) 0 (memiter_size data) m = Ret (Some (memiter_base data + (memiter_size data - 1))) \<longleftrightarrow>
     last (view m data) = 0 \<and> 0 \<notin> set (butlast (view m data))"
proof -
  let ?p = "memiter_base data" and ?n = "memiter_size data"
  obtain k where k: "unat ?n = Suc k" using assms(2) by (cases "unat ?n") (auto simp: unat_eq_0)
  then have "of_nat (unat ?n) = (of_nat (Suc k) :: u64)" by (simp only:)
  then have n: "?n - 1 = of_nat k" by simp
  have small: "i < unat ?n \<Longrightarrow> unat (of_nat i :: u64) = i" for i
    using u64_bound [of ?n] by (intro unat_of_nat_less) (simp add: order.strict_trans)
  have inj: "i < unat ?n \<Longrightarrow> ?p + of_nat i = ?p + of_nat k \<longleftrightarrow> i = k" for i
  proof
    assume "i < unat ?n" "?p + of_nat i = ?p + of_nat k"
    then have "unat (of_nat i :: u64) = unat (of_nat k :: u64)" by simp
    then show "i = k" using small [of i] small [of k] k \<open>i < unat ?n\<close> by simp
  qed simp
  have v: "view m data = bytes m ?p k @ [m (?p + of_nat k)]"
    using k by (simp add: view_def memiter_base_def memiter_size_def bytes_snoc)
  have "memchr ?p 0 ?n m = Ret (Some (?p + (?n - 1))) \<longleftrightarrow> find (\<lambda>i. m (?p + of_nat i) = 0) [0..<Suc k] = Some k"
  proof (cases "find (\<lambda>i. m (?p + of_nat i) = 0) [0..<Suc k]")
    case (Some i)
    then have "i < unat ?n" using k unfolding find_upt_last by simp
    then show ?thesis using assms(1) inj Some by (simp add: memchr_def memchr_loop_spec n k del: upt_Suc)
  qed (simp add: memchr_def memchr_loop_spec k assms(1) del: upt_Suc)
  also have "\<dots> \<longleftrightarrow> m (?p + of_nat k) = 0 \<and> (\<forall>j<k. m (?p + of_nat j) \<noteq> 0)"
    unfolding find_upt_last by simp
  also have "\<dots> \<longleftrightarrow> last (view m data) = 0 \<and> 0 \<notin> set (butlast (view m data))"
    by (auto simp: v bytes_def)
  finally show ?thesis .
qed

text \<open>The bytes of a null-terminated string, the terminator included.\<close>

definition cstr :: "u8 list \<Rightarrow> bool" where
  "cstr xs \<longleftrightarrow> xs \<noteq> [] \<and> last xs = 0 \<and> 0 \<notin> set (butlast xs)"

lemma cstr_nth:
  assumes "cstr xs" "i < length xs"
  shows "xs ! i = 0 \<longleftrightarrow> i = length xs - 1"
proof -
  obtain ys where xs: "xs = ys @ [0]" "0 \<notin> set ys"
    using assms(1) by (metis append_butlast_last_id cstr_def)
  show ?thesis
  proof (cases "i < length ys")
    case True
    then have "ys ! i \<noteq> 0" using xs(2) by (metis nth_mem)
    then show ?thesis using True xs(1) by (simp add: nth_append)
  next
    case False
    then have "i = length ys" using assms(2) xs by simp
    then show ?thesis using xs by simp
  qed
qed

lemma cstr_agree:
  assumes "cstr xs" "cstr ys" "length xs \<le> n \<or> length ys \<le> n"
    and a: "\<And>i. i < length xs \<Longrightarrow> a i = xs ! i" and b: "\<And>i. i < length ys \<Longrightarrow> b i = ys ! i"
  shows "str_agree n a b \<longleftrightarrow> xs = ys"
proof
  assume agree: "str_agree n a b"
  obtain k l where k: "length xs = Suc k" and l: "length ys = Suc l"
    using assms(1,2) by (metis cstr_def Suc_pred length_greater_0_conv)
  have az: "i \<le> k \<Longrightarrow> a i = 0 \<longleftrightarrow> i = k" for i using cstr_nth [OF assms(1), of i] a k by simp
  have bz: "i \<le> l \<Longrightarrow> b i = 0 \<longleftrightarrow> i = l" for i using cstr_nth [OF assms(2), of i] b l by simp
  have eq: "i \<le> k \<Longrightarrow> i < n \<Longrightarrow> a i = b i" for i using agree az by auto
  have "k = l"
  proof (cases k l rule: linorder_cases)
    case less
    then show ?thesis using eq [of k] az [of k] bz [of k] assms(3) k l by auto
  next
    case greater
    then show ?thesis using eq [of l] az [of l] bz [of l] assms(3) k l by auto
  qed
  then show "xs = ys" using eq a b assms(3) k l by (intro nth_equalityI) auto
next
  assume eq: "xs = ys"
  show "str_agree n a b"
  proof (unfold str_agree.simps, intro allI impI)
    fix i assume "i < n" "\<forall>j<i. a j \<noteq> 0"
    have ne: "length xs \<noteq> 0" using assms(1) by (simp add: cstr_def)
    then have "a (length xs - 1) = 0" using cstr_nth [OF assms(1), of "length xs - 1"] a [of "length xs - 1"] by simp
    then have "\<not> length xs - 1 < i" using \<open>\<forall>j<i. a j \<noteq> 0\<close> by blast
    then have "i < length xs" using ne by linarith
    then show "a i = b i" using a b eq by simp
  qed
qed

lemma view_at: "i < length (view m it) \<Longrightarrow> at m (it_next it) i = view m it ! i"
  by (simp add: view_def at_def bytes_def)

lemma string_init_success:
  assumes "string_init str data m = Ret (STRING_SUCCESS, m')"
  shows "cstr (view m data)" "memiter_size data \<le> STRING_MAX_SIZE"
    "memcpy_s str STRING_MAX_SIZE (memiter_base data) (memiter_size data) m = Ret m'"
proof -
  have "memiter_size data \<noteq> 0"
    using assms by (auto simp: string_init_def Let_def split: if_splits)
  then have pos: "0 < memiter_size data" by (simp add: word_gt_0)
  moreover have nn: "memiter_base data \<noteq> 0"
    using assms pos by (auto simp: string_init_def Let_def memchr_def memcpy_s_eq_Ret split: if_splits)
  moreover have "memchr (memiter_base data) 0 (memiter_size data) m = Ret (Some (memiter_base data + (memiter_size data - 1)))"
    using assms pos by (auto simp: string_init_def Let_def split: if_splits)
  ultimately show "cstr (view m data)" using string_init_terminated [of data m]
    by (auto simp: cstr_def word_gt_0 unat_eq_0 simp flip: length_0_conv)
  show "memiter_size data \<le> STRING_MAX_SIZE"
    "memcpy_s str STRING_MAX_SIZE (memiter_base data) (memiter_size data) m = Ret m'"
    using assms pos by (auto simp: string_init_def Let_def split: if_splits)
qed

text \<open>
  What \<open>strncmp\<close> over the bytes \<open>ys\<close> decides about a null-terminated text: equality up to the terminator of
  \<open>ys\<close> if it has one, and otherwise only that \<open>ys\<close> is a prefix of the text.
\<close>

lemma str_agree_Suc: "str_agree (Suc n) a b \<longleftrightarrow> a 0 = b 0 \<and> (a 0 \<noteq> 0 \<longrightarrow> str_agree n (\<lambda>i. a (Suc i)) (\<lambda>i. b (Suc i)))"
  by (auto simp: All_less_Suc2)

lemma text_agree:
  assumes "0 \<notin> set ts"
    and "\<And>i. i \<le> length ts \<Longrightarrow> a i = (ts @ [0]) ! i" and "\<And>i. i < length ys \<Longrightarrow> b i = ys ! i"
  shows "str_agree (length ys) a b \<longleftrightarrow>
    (if 0 \<in> set ys then takeWhile (\<lambda>c. c \<noteq> 0) ys = ts else ys = take (length ys) ts)"
  using assms
proof (induction ys arbitrary: ts a b)
  case (Cons y ys)
  have b: "b 0 = y" "\<And>i. i < length ys \<Longrightarrow> b (Suc i) = ys ! i"
    using Cons.prems(3) [of 0] Cons.prems(3) [of "Suc i" for i] by auto
  show ?case
  proof (cases ts)
    case Nil
    then have "a 0 = 0" using Cons.prems(2) [of 0] by simp
    then show ?thesis using Nil b(1) by (auto simp: str_agree_Suc simp del: str_agree.simps)
  next
    case (Cons t ts')
    have "a 0 = t" "t \<noteq> 0" "0 \<notin> set ts'" "\<And>i. i \<le> length ts' \<Longrightarrow> a (Suc i) = (ts' @ [0]) ! i"
      using Cons.prems(1) Cons.prems(2) [of 0] Cons.prems(2) [of "Suc i" for i] Cons by auto
    with Cons.IH [of ts' "\<lambda>i. a (Suc i)" "\<lambda>i. b (Suc i)"] b Cons show ?thesis
      by (auto simp: str_agree_Suc simp del: str_agree.simps)
  qed
qed simp

text \<open>
  C28: \<open>string_init\<close> followed by \<open>string_eq\<close> on any iterator, terminated or not. The string is equal to the
  iterator exactly when the iterator is no longer than a string can be and its bytes agree with the
  text: up to its first null byte if it has one, and otherwise as a prefix. So for an unterminated
  iterator the comparison does not tell a name from a longer one that begins with it.
\<close>

theorem string_init_then_eq:
  assumes "string_init str data m = Ret (STRING_SUCCESS, m')"
    and "unat str + unat STRING_MAX_SIZE \<le> 2 ^ 64" "unat (it_next data) + unat STRING_MAX_SIZE \<le> 2 ^ 64"
    and "view m' data' = view m data'"
  shows "string_eq str data' m' \<longleftrightarrow> memiter_size data' \<le> STRING_MAX_SIZE \<and>
    (let chars = butlast (view m data); other = view m data'
     in if 0 \<in> set other then takeWhile (\<lambda>c. c \<noteq> 0) other = chars else other = take (length other) chars)"
proof -
  note s = string_init_success [OF assms(1)]
  have le: "unat (memiter_size data) \<le> unat STRING_MAX_SIZE" using s(2) by (simp add: word_le_nat_alt)
  have pos: "0 < memiter_size data" using s(1) by (auto simp: cstr_def word_gt_0 view_def memiter_size_def)
  have "bytes m' str (unat (memiter_size data)) = view m data"
    using memcpy_s_copies [OF _ _ pos s(3)] assms(2,3) le by (simp add: memiter_base_def view_def memiter_size_def)
  then have a: "i < length (view m data) \<Longrightarrow> at m' str i = view m data ! i" for i
    by (metis (no_types, lifting) at_def bytes_def diff_zero length_map length_upt nth_map_upt view_length add_0)
  have b: "i < length (view m data') \<Longrightarrow> at m' (memiter_base data') i = view m data' ! i" for i
    using view_at [of i m' data'] assms(4) by (simp add: memiter_base_def)
  have ts: "view m data = butlast (view m data) @ [0]" "0 \<notin> set (butlast (view m data))"
    using s(1) by (auto simp: cstr_def) (metis append_butlast_last_id)
  have "at m' str i = (butlast (view m data) @ [0]) ! i" if "i \<le> length (butlast (view m data))" for i
    using a [of i] that ts(1) by (metis length_append_singleton less_Suc_eq_le)
  from text_agree [OF ts(2) this b] show ?thesis
    by (simp add: string_eq_def Let_def strncmp_eq_0 view_length)
qed

theorem string_init_then_eq_witness:
  "string_eq 0x2000 (memiter_init 0x1000 1) (memcpy 0x2000 0x1000 3 (mem_of 0x1000 [0x61, 0x62, 0]))"
proof -
  let ?m = "mem_of 0x1000 [0x61, 0x62, 0]" and ?d = "memiter_init 0x1000 3" and ?d' = "memiter_init 0x1000 1"
  have v: "view ?m ?d = [0x61, 0x62, 0]" "view ?m ?d' = [0x61]"
    by (simp_all add: view_def memiter_init_def bytes_def upt_rec mem_of_def)
  have i: "string_init 0x2000 ?d ?m = Ret (STRING_SUCCESS, memcpy 0x2000 0x1000 3 ?m)"
    by (simp add: string_init_def memiter_init_def memiter_base_def memiter_size_def memchr_def
        memcpy_s_def CHECK_OR_FILL_def RSIZE_MAX_def STRING_MAX_SIZE_def mem_of_def)
  have k: "view (memcpy 0x2000 0x1000 3 ?m) ?d' = view ?m ?d'"
    by (simp add: view_def memiter_init_def bytes_def upt_rec memcpy_def)
  show ?thesis
    using string_init_then_eq [OF i _ _ k] by (simp add: v Let_def) (simp add: STRING_MAX_SIZE_def memiter_init_def memiter_size_def)
qed

text \<open>
  \<open>memiter_consume\<close> on a well-formed view never fails its check. When the view has at
  least \<open>v\<close> bytes it splits the view: the new view and the remaining one are well formed and
  their bytes, in that order, are the bytes of the original; otherwise nothing changes.
\<close>

theorem memiter_consume_splits:
  assumes "it_next it \<le> it_limit it"
  shows "(\<exists>it' newit. memiter_consume it v = Ret (it', Some newit) \<and> v \<le> memiter_size it \<and>
            it_next it' \<le> it_limit it' \<and> it_next newit \<le> it_limit newit \<and> memiter_size newit = v \<and>
            (\<forall>m. view m newit @ view m it' = view m it)) \<or>
         memiter_consume it v = Ret (it, None) \<and> memiter_size it < v"
proof -
  have ok: "it_ok it" using assms by (simp add: it_ok_def)
  show ?thesis
  proof (cases "v \<le> memiter_size it")
    case True
    from memiter_consume_spec [OF ok, of v] advance_ok [OF ok True] True show ?thesis by (simp add: it_ok_def)
  next
    case False
    then show ?thesis using memiter_consume_spec [OF ok, of v] by auto
  qed
qed

theorem memiter_consume_splits_witness:
  "memiter_consume \<lparr>it_next = 0x1000, it_limit = 0x1008\<rparr> 3 =
     Ret (\<lparr>it_next = 0x1003, it_limit = 0x1008\<rparr>, Some \<lparr>it_next = 0x1000, it_limit = 0x1003\<rparr>) \<and>
   (\<exists>it' newit. memiter_consume \<lparr>it_next = 0x1000, it_limit = 0x1008\<rparr> 3 = Ret (it', Some newit))"
  using memiter_consume_splits [of "\<lparr>it_next = 0x1000, it_limit = 0x1008\<rparr>" 3]
  by (auto simp: memiter_consume_def memiter_size_def memiter_init_def memiter_base_def memiter_advance_def)

end
