(* ===== verification/Cpio.thy ===== *)
theory Cpio
  imports Memiter
begin

text \<open>
  The reader of the cpio archive that holds the images of the partitions (\<^verbatim>\<open>src/cpio.c\<close>).
  \<open>cpio_get_file\<close> is a total function, its measure the bytes left. The properties are that it
  reads back what an archive holds, and that on arbitrary bytes its result stays inside.
\<close>

section \<open>Reading an archive\<close>

text \<open>
  The header of an entry is 26 bytes, thirteen little-endian halfwords; \<open>namesize\<close> is the
  eleventh and \<open>filesize\<close> the last two, the high half first.
\<close>

definition le16 :: "byte_mem \<Rightarrow> u64 \<Rightarrow> u16" where
  "le16 m a = ucast (m a) OR push_bit 8 (ucast (m (a + 1)))"

definition sizeof_cpio_header :: u64 where "sizeof_cpio_header = 26"

definition h_namesize :: "byte_mem \<Rightarrow> u64 \<Rightarrow> u16" where
  "h_namesize m h = le16 m (h + 20)"

definition h_filesize :: "byte_mem \<Rightarrow> u64 \<Rightarrow> nat \<Rightarrow> u16" where
  "h_filesize m h i = le16 m (h + 22 + 2 * of_nat i)"

definition trailer :: string where "trailer = ''TRAILER!!!''"

text \<open>
  The result, where there is one, is the advanced iterator, the addresses of the name and of
  the contents and the size. (The C function also writes \<open>name\<close> and \<open>contents\<close> on some of
  the paths on which it returns false; its caller does not read them then.)
\<close>

definition cpio_next :: "byte_mem \<Rightarrow> memiter \<Rightarrow> (memiter \<times> u64 \<times> u64 \<times> u64) option" where
  "cpio_next m iter =
     (let lit = iter; h = it_next lit;
          (ok, lit) = memiter_advance lit sizeof_cpio_header
      in if \<not> ok then None else
      let name = it_next lit;
          len = (ucast (h_namesize m h) + 1) AND NOT 1;
          (ok, lit) = memiter_advance lit len
      in if \<not> ok then None else
      let contents = it_next lit;
          len = push_bit 16 (ucast (h_filesize m h 0)) OR ucast (h_filesize m h 1);
          (ok, lit) = memiter_advance lit ((len + 1) AND NOT 1)
      in if \<not> ok then None
      else if strncmp (at m name) (literal trailer) (of_nat (length trailer) + 1) = 0 then None
      else Some (lit, name, contents, len))"

lemma advance_measure:
  assumes "memiter_advance it v = (True, it')"
  shows "it_limit it' = it_limit it" "unat (it_next it') = unat (it_next it) + unat v"
    "unat (it_next it') \<le> unat (it_limit it)"
proof -
  have *: "it' = it\<lparr>it_next := it_next it + v\<rparr>" "it_next it \<le> it_next it + v" "it_next it + v \<le> it_limit it"
    using assms by (auto simp: memiter_advance_def Let_def split: if_splits)
  have "unat (it_next it + v) = unat (it_next it) + unat v" using *(2) by (simp add: unat_plus_simple)
  then show "it_limit it' = it_limit it" "unat (it_next it') = unat (it_next it) + unat v"
    "unat (it_next it') \<le> unat (it_limit it)"
    using * by (simp_all add: word_le_nat_alt)
qed

lemma cpio_next_progress:
  assumes "cpio_next m iter = Some (iter', name, contents, sz)"
  shows "it_limit iter' = it_limit iter" "unat (it_limit iter - it_next iter') < unat (it_limit iter - it_next iter)"
proof -
  obtain j k v w where s: "memiter_advance iter sizeof_cpio_header = (True, j)" "memiter_advance j v = (True, k)"
    "memiter_advance k w = (True, iter')"
    using assms by (auto simp: cpio_next_def Let_def split: if_splits prod.splits)
  note adv = advance_measure [OF s(1)] advance_measure [OF s(2)] advance_measure [OF s(3)]
  show "it_limit iter' = it_limit iter" using adv by simp
  have "unat (it_next iter) + 26 \<le> unat (it_next iter')" "unat (it_next iter') \<le> unat (it_limit iter)"
    using adv by (simp_all add: sizeof_cpio_header_def)
  then show "unat (it_limit iter - it_next iter') < unat (it_limit iter - it_next iter)"
    by (simp add: unat_sub word_le_nat_alt)
qed

function cpio_get_file :: "byte_mem \<Rightarrow> memiter \<Rightarrow> u64 \<Rightarrow> memiter option" where
  "cpio_get_file m iter name =
     (case cpio_next m iter of
        None \<Rightarrow> None
      | Some (iter, fname, fcontents, fsize) \<Rightarrow>
          if strncmp (at m fname) (at m (string_data name)) STRING_MAX_SIZE = 0
          then Some (memiter_init fcontents fsize)
          else cpio_get_file m iter name)"
  by pat_completeness auto
termination
  by (relation "measure (\<lambda>(m, iter, name). unat (it_limit iter - it_next iter))") (auto simp: cpio_next_progress)

declare cpio_get_file.simps [simp del]

section \<open>Archives\<close>

text \<open>
  What an archive is: a sequence of entries, each a header whose first ten halfwords are not
  looked at, a null-terminated name and the contents, both padded to an even length.
\<close>

record cpio_file =
  f_header :: "u8 list"
  f_name :: "u8 list"
  f_contents :: "u8 list"

definition halfword :: "nat \<Rightarrow> u8 list" where
  "halfword n = [of_nat n, of_nat (n div 256)]"

definition padded :: "u8 list \<Rightarrow> u8 list" where
  "padded xs = xs @ (if odd (length xs) then [0] else [])"

definition cpio_entry :: "cpio_file \<Rightarrow> u8 list" where
  "cpio_entry f = f_header f @ halfword (length (f_name f)) @ halfword (length (f_contents f) div 2 ^ 16)
     @ halfword (length (f_contents f) mod 2 ^ 16) @ padded (f_name f) @ padded (f_contents f)"

definition wf_file :: "cpio_file \<Rightarrow> bool" where
  "wf_file f \<longleftrightarrow> length (f_header f) = 20 \<and> cstr (f_name f) \<and> length (f_name f) < 2 ^ 16 \<and> length (f_contents f) < 2 ^ 32"

definition trailer_name :: "u8 list" where
  "trailer_name = map of_char trailer @ [0]"

definition cpio_archive :: "cpio_file list \<Rightarrow> u8 list" where
  "cpio_archive fs = concat (map cpio_entry fs)"

lemma le16_halfword:
  assumes "n < 2 ^ 16" "m a = of_nat n" "m (a + 1) = of_nat (n div 256)"
  shows "le16 m a = of_nat n"
proof -
  have "(ucast (of_nat n :: u8) :: u16) OR push_bit 8 (ucast (of_nat (n div 256) :: u8)) = of_nat n"
  proof (rule bit_word_eqI)
    fix k assume "k < LENGTH(16)"
    have "n div 256 = drop_bit 8 n" by (simp add: drop_bit_eq_div)
    then show "bit ((ucast (of_nat n :: u8) :: u16) OR push_bit 8 (ucast (of_nat (n div 256) :: u8))) k =
        bit (of_nat n :: u16) k"
      using \<open>k < LENGTH(16)\<close> by (auto simp: bit_simps)
  qed
  then show ?thesis using assms by (simp add: le16_def)
qed

lemma padded_length: "length (padded xs) = (length xs + 1) div 2 * 2"
  by (auto simp: padded_def elim: oddE evenE)

lemma round_even:
  assumes "n < 2 ^ 32"
  shows "unat ((of_nat n + 1 :: u64) AND NOT 1) = (n + 1) div 2 * 2"
proof -
  have "of_nat n + 1 = (of_nat (n + 1) :: u64)" by simp
  moreover have "unat (of_nat (n + 1) :: u64) = n + 1" using assms by (intro unat_of_nat_less) simp
  ultimately have "unat (of_nat n + 1 :: u64) = n + 1" by (simp only:)
  then show ?thesis using unat_and_not_low_mask [of "of_nat n + 1 :: u64" 1] by simp
qed

lemma filesize_halves:
  assumes "n < 2 ^ 32"
  shows "push_bit 16 (ucast (of_nat (n div 2 ^ 16) :: u16)) OR ucast (of_nat (n mod 2 ^ 16) :: u16) = (of_nat n :: u64)"
proof (rule bit_word_eqI)
  fix k assume k: "k < LENGTH(64)"
  have "n div 2 ^ 16 = drop_bit 16 n" "n mod 2 ^ 16 = take_bit 16 n" by (simp_all add: drop_bit_eq_div take_bit_eq_mod)
  moreover have "bit n k \<Longrightarrow> k < 32" using assms bit_take_bit_iff by (metis take_bit_nat_eq_self_iff)
  ultimately show "bit (push_bit 16 (ucast (of_nat (n div 2 ^ 16) :: u16)) OR ucast (of_nat (n mod 2 ^ 16) :: u16) :: u64) k =
      bit (of_nat n :: u64) k"
    using k by (auto simp: bit_simps)
qed


lemma view_nth:
  "view m it = xs \<Longrightarrow> i < length xs \<Longrightarrow> m (it_next it + of_nat i) = xs ! i"
  using view_at [of i m it] by (simp add: at_def)

lemma view_size: "view m it = xs \<Longrightarrow> unat (memiter_size it) = length xs"
  using view_length by metis

lemma literal_nth: "i < Suc (length s) \<Longrightarrow> literal s i = (map of_char s @ [0]) ! i"
  by (auto simp: literal_def nth_append less_Suc_eq)

lemma cstr_trailer_name: "cstr trailer_name"
  by (simp add: cstr_def trailer_name_def trailer_def)

text \<open>One step of the reader on one well-formed entry.\<close>

lemma advance_view:
  assumes "it_ok it" "view m it = xs @ ys" "unat v = length xs"
  shows "memiter_advance it v = (True, it\<lparr>it_next := it_next it + v\<rparr>)" "it_ok (it\<lparr>it_next := it_next it + v\<rparr>)"
    "view m (it\<lparr>it_next := it_next it + v\<rparr>) = ys"
proof -
  have "v \<le> memiter_size it" using view_size [OF assms(2)] assms(3) by (simp add: word_le_nat_alt)
  then show "memiter_advance it v = (True, it\<lparr>it_next := it_next it + v\<rparr>)" "it_ok (it\<lparr>it_next := it_next it + v\<rparr>)"
    "view m (it\<lparr>it_next := it_next it + v\<rparr>) = ys"
    using memiter_advance_iff [OF assms(1)] advance_ok [OF assms(1)] assms(2,3) by simp_all
qed

lemma halfword_length [simp]: "length (halfword n) = 2"
  by (simp add: halfword_def)

lemma header_halfword:
  assumes "view m it = xs @ halfword n @ ys" "n < 2 ^ 16"
  shows "le16 m (it_next it + of_nat (length xs)) = of_nat n"
proof (rule le16_halfword [OF assms(2)])
  show "m (it_next it + of_nat (length xs)) = of_nat n"
    using view_nth [OF assms(1), of "length xs"] by (simp add: halfword_def)
  show "m (it_next it + of_nat (length xs) + 1) = of_nat (n div 256)"
    using view_nth [OF assms(1), of "length xs + 1"] by (simp add: halfword_def nth_append ac_simps)
qed

lemma cpio_next_entry:
  assumes "it_ok it" "view m it = cpio_entry f @ rest" "wf_file f"
  shows "\<exists>it' name contents. it_ok it' \<and> view m it' = rest \<and>
     (\<forall>i<length (f_name f). at m name i = f_name f ! i) \<and>
     view m (memiter_init contents (of_nat (length (f_contents f)))) = f_contents f \<and>
     cpio_next m it = (if f_name f = trailer_name then None
       else Some (it', name, contents, of_nat (length (f_contents f))))"
proof -
  let ?n = "length (f_name f)" and ?c = "length (f_contents f)"
  have wf: "length (f_header f) = 20" "cstr (f_name f)" "?n < 2 ^ 16" "?c < 2 ^ 32"
    using assms(3) by (simp_all add: wf_file_def)
  let ?hdr = "f_header f @ halfword ?n @ halfword (?c div 2 ^ 16) @ halfword (?c mod 2 ^ 16)"
  have v: "view m it = ?hdr @ padded (f_name f) @ padded (f_contents f) @ rest"
    using assms(2) by (simp add: cpio_entry_def)
  have ns: "h_namesize m (it_next it) = of_nat ?n"
    using header_halfword [of m it "f_header f" ?n] v wf by (simp add: h_namesize_def)
  have "?c div 2 ^ 16 < 2 ^ 16" using wf(4) by (simp add: less_mult_imp_div_less)
  then have f0: "h_filesize m (it_next it) 0 = of_nat (?c div 2 ^ 16)"
    using header_halfword [of m it "f_header f @ halfword ?n" "?c div 2 ^ 16"] v wf
    by (simp add: h_filesize_def ac_simps)
  have f1: "h_filesize m (it_next it) 1 = of_nat (?c mod 2 ^ 16)"
    using header_halfword [of m it "f_header f @ halfword ?n @ halfword (?c div 2 ^ 16)" "?c mod 2 ^ 16"] v wf
    by (simp add: h_filesize_def ac_simps)
  have fs: "push_bit 16 (ucast (h_filesize m (it_next it) 0)) OR ucast (h_filesize m (it_next it) 1) = (of_nat ?c :: u64)"
    using filesize_halves [OF wf(4)] unfolding f0 f1 .
  define j where "j = it\<lparr>it_next := it_next it + sizeof_cpio_header\<rparr>"
  have j: "memiter_advance it sizeof_cpio_header = (True, j)" "it_ok j"
    "view m j = padded (f_name f) @ padded (f_contents f) @ rest"
    using advance_view [OF assms(1) v] wf(1) by (simp_all add: j_def sizeof_cpio_header_def)
  define len where "len = (of_nat ?n + 1 :: u64) AND NOT 1"
  have "unat len = length (padded (f_name f))" using round_even [of ?n] wf(3) by (simp add: len_def padded_length)
  note k1 = advance_view [OF j(2,3) this]
  define k where "k = j\<lparr>it_next := it_next j + len\<rparr>"
  have k: "memiter_advance j len = (True, k)" "it_ok k" "view m k = padded (f_contents f) @ rest"
    using k1 by (simp_all add: k_def)
  define clen where "clen = (of_nat ?c + 1 :: u64) AND NOT 1"
  have "unat clen = length (padded (f_contents f))" using round_even [of ?c] wf(4) by (simp add: clen_def padded_length)
  note l1 = advance_view [OF k(2,3) this]
  define l where "l = k\<lparr>it_next := it_next k + clen\<rparr>"
  have l: "memiter_advance k clen = (True, l)" "it_ok l" "view m l = rest" using l1 by (simp_all add: l_def)
  have name: "i < ?n \<Longrightarrow> at m (it_next j) i = f_name f ! i" for i
    using view_nth [OF j(3), of i] by (simp add: at_def padded_def nth_append)
  have "length trailer = 10" by (simp add: trailer_def)
  then have trl: "strncmp (at m (it_next j)) (literal trailer) (of_nat (length trailer) + 1) = 0 \<longleftrightarrow> f_name f = trailer_name"
    unfolding strncmp_eq_0 using name wf(2) cstr_trailer_name literal_nth [of _ trailer]
    by (intro cstr_agree) (simp_all add: trailer_name_def)
  have "of_nat ?c \<le> memiter_size k"
    using view_size [OF k(3)] wf(4) by (simp add: word_le_nat_alt unat_of_nat_less padded_length)
  from advance_ok(3) [OF k(2) this]
  have cont: "view m (memiter_init (it_next k) (of_nat ?c)) = f_contents f"
    using wf(4) k(3) by (simp add: unat_of_nat_less padded_def)
  have "(ucast (of_nat ?n :: u16) :: u64) = of_nat ?n" 
    using wf(3) by (intro word_eq_unatI) (simp add: unat_of_nat_less unsigned_ucast_eq take_bit_nat_eq_self)
  then have "cpio_next m it = (if f_name f = trailer_name then None else Some (l, it_next j, it_next k, of_nat ?c))"
    using j(1) k(1) l(1) trl fs by (simp add: cpio_next_def Let_def ns len_def clen_def del: One_nat_def)
  then show ?thesis using l name cont by blast
qed


lemma cpio_archive_Cons: "cpio_archive (f # fs) @ rest = cpio_entry f @ cpio_archive fs @ rest"
  by (simp add: cpio_archive_def)

lemma cpio_get_file_archive:
  assumes "it_ok it" "view m it = cpio_archive fs @ cpio_entry t @ rest" "wf_file t" "f_name t = trailer_name"
    and "\<forall>f\<in>set fs. wf_file f \<and> f_name f \<noteq> trailer_name"
    and "cstr nm" "length nm \<le> 32" "\<forall>i<length nm. at m name i = nm ! i"
  shows "map_option (view m) (cpio_get_file m it name) = map_option f_contents (find (\<lambda>f. f_name f = nm) fs)"
  using assms
proof (induction fs arbitrary: it)
  case Nil
  then have "cpio_next m it = None" using cpio_next_entry [of it m t rest] by (auto simp: cpio_archive_def)
  then show ?case by (simp add: cpio_get_file.simps)
next
  case (Cons f fs)
  have f: "wf_file f" "f_name f \<noteq> trailer_name" using Cons.prems(5) by simp_all
  obtain it' fname contents where s: "it_ok it'" "view m it' = cpio_archive fs @ cpio_entry t @ rest"
    "\<forall>i<length (f_name f). at m fname i = f_name f ! i"
    "view m (memiter_init contents (of_nat (length (f_contents f)))) = f_contents f"
    "cpio_next m it = Some (it', fname, contents, of_nat (length (f_contents f)))"
    using cpio_next_entry [of it m f "cpio_archive fs @ cpio_entry t @ rest"] Cons.prems(1,2) f
    by (auto simp: cpio_archive_Cons)
  have "strncmp (at m fname) (at m (string_data name)) STRING_MAX_SIZE = 0 \<longleftrightarrow> f_name f = nm"
    unfolding strncmp_eq_0 using s(3) Cons.prems(6-8) f(1)
    by (intro cstr_agree) (auto simp: STRING_MAX_SIZE_def string_data_def wf_file_def)
  moreover have "map_option (view m) (cpio_get_file m it' name) = map_option f_contents (find (\<lambda>f. f_name f = nm) fs)"
    using Cons.IH s(1,2) Cons.prems by simp
  ultimately show ?case using s(4,5) by (simp add: cpio_get_file.simps [of m it])
qed

text \<open>
  C26: reading back an archive: if a view holds the entries of \<open>fs\<close>, in the format the reader
  expects, followed by the end marker and anything else, then \<open>cpio_get_file\<close> returns a view
  of exactly the contents of the first file of the given name, and fails when there is none.
\<close>

theorem cpio_get_file_roundtrip:
  assumes "it_next it \<le> it_limit it" "view m it = cpio_archive fs @ cpio_entry t @ rest"
    and "wf_file t" "f_name t = trailer_name" "\<forall>f\<in>set fs. wf_file f \<and> f_name f \<noteq> trailer_name"
    and "cstr nm" "length nm \<le> unat STRING_MAX_SIZE" "bytes m name (length nm) = nm"
  shows "map_option (view m) (cpio_get_file m it name) = map_option f_contents (find (\<lambda>f. f_name f = nm) fs)"
proof (rule cpio_get_file_archive)
  have "at m name i = bytes m name (length nm) ! i" if "i < length nm" for i
    using that by (simp add: at_def bytes_def)
  then show "\<forall>i<length nm. at m name i = nm ! i" using assms(8) by simp
qed (use assms in \<open>simp_all add: it_ok_def STRING_MAX_SIZE_def\<close>)


lemma mem_of_view: "length bs < 2 ^ 64 \<Longrightarrow> view (mem_of base bs) (memiter_init base (of_nat (length bs))) = bs"
  using mem_of_bytes [of bs 0 "length bs" base] by (simp add: view_def memiter_init_def unat_of_nat_less)

definition sample_file :: cpio_file where
  "sample_file = \<lparr>f_header = replicate 20 0, f_name = [0x6D, 0], f_contents = [1, 2, 3]\<rparr>"

definition sample_trailer :: cpio_file where
  "sample_trailer = \<lparr>f_header = replicate 20 0, f_name = trailer_name, f_contents = []\<rparr>"

definition sample_archive :: "u8 list" where
  "sample_archive = cpio_archive [sample_file] @ cpio_entry sample_trailer @ []"

definition sample_iter :: memiter where
  "sample_iter = memiter_init 0x1000 70"

lemma sample_facts:
  "it_next sample_iter \<le> it_limit sample_iter"
  "view (mem_of 0x1000 sample_archive) sample_iter = cpio_archive [sample_file] @ cpio_entry sample_trailer @ []"
  "wf_file sample_trailer" "f_name sample_trailer = trailer_name"
  "\<forall>f\<in>set [sample_file]. wf_file f \<and> f_name f \<noteq> trailer_name"
  "cstr [0x6D, 0]" "length [0x6D, 0 :: u8] \<le> unat STRING_MAX_SIZE"
  "bytes (mem_of 0x1000 sample_archive) 0x101A (length [0x6D, 0 :: u8]) = [0x6D, 0]"
proof -
  note defs = sample_archive_def cpio_archive_def cpio_entry_def sample_file_def sample_trailer_def
    trailer_name_def trailer_def padded_def halfword_def wf_file_def cstr_def
  have len: "length sample_archive = 70" by (simp add: defs)
  show "view (mem_of 0x1000 sample_archive) sample_iter = cpio_archive [sample_file] @ cpio_entry sample_trailer @ []"
    using mem_of_view [of sample_archive "0x1000"] len unfolding sample_archive_def [symmetric] sample_iter_def by simp
  have "bytes (mem_of 0x1000 sample_archive) (0x1000 + of_nat 26) (length [0x6D, 0 :: u8]) =
      take (length [0x6D, 0 :: u8]) (drop 26 sample_archive)"
    by (rule mem_of_bytes) (simp_all add: len)
  then show "bytes (mem_of 0x1000 sample_archive) 0x101A (length [0x6D, 0 :: u8]) = [0x6D, 0]" by (simp add: defs)
qed (simp_all add: sample_iter_def memiter_init_def sample_file_def sample_trailer_def trailer_name_def trailer_def
    wf_file_def cstr_def STRING_MAX_SIZE_def)

theorem cpio_get_file_roundtrip_witness:
  "map_option (view (mem_of 0x1000 sample_archive)) (cpio_get_file (mem_of 0x1000 sample_archive) sample_iter 0x101A) =
     Some [1, 2, 3]"
  using cpio_get_file_roundtrip [OF sample_facts] by (simp add: sample_file_def)

lemma memiter_advance_inside:
  assumes "memiter_advance it v = (True, it')"
  shows "it_next it \<le> it_next it'" "it_next it' \<le> it_limit it" "it_limit it' = it_limit it" "it_next it' = it_next it + v"
  using assms by (auto simp: memiter_advance_def Let_def split: if_splits)

lemma round_even_ge: "unat (x :: u64) < 2 ^ 32 \<Longrightarrow> unat x \<le> unat ((x + 1) AND NOT 1)"
  using round_even [of "unat x"] by simp

lemma filesize_bound: "unat (push_bit 16 (ucast (a :: u16)) OR ucast (b :: u16) :: u64) < 2 ^ 32"
proof -
  let ?x = "push_bit 16 (ucast a) OR ucast b :: u64"
  have "take_bit 32 ?x = ?x"
    by (rule bit_word_eqI) (auto simp: bit_simps dest: bit_imp_le_length)
  then have "unat ?x = unat (take_bit 32 ?x)" by (rule arg_cong [OF sym])
  also have "\<dots> = take_bit 32 (unat ?x)" by (rule unsigned_take_bit_eq)
  also have "\<dots> < 2 ^ 32" by (rule take_bit_nat_less_exp)
  finally show ?thesis .
qed

lemma cpio_next_inside:
  assumes "cpio_next m iter = Some (iter', name, contents, sz)"
  shows "it_next iter \<le> it_next iter'" "it_limit iter' = it_limit iter"
    "it_next iter \<le> contents" "contents \<le> contents + sz" "contents + sz \<le> it_limit iter"
proof -
  obtain j k v where s: "memiter_advance iter sizeof_cpio_header = (True, j)" "memiter_advance j v = (True, k)"
    "memiter_advance k ((sz + 1) AND NOT 1) = (True, iter')" "contents = it_next k" "unat sz < 2 ^ 32"
    using assms filesize_bound [of "h_filesize m (it_next iter) 0" "h_filesize m (it_next iter) 1"]
    by (auto simp: cpio_next_def Let_def split: if_splits prod.splits)
  note j = memiter_advance_inside [OF s(1)] and k = memiter_advance_inside [OF s(2)] and l = memiter_advance_inside [OF s(3)]
  show "it_next iter \<le> it_next iter'" "it_limit iter' = it_limit iter" "it_next iter \<le> contents"
    using j k l s(4) by auto
  let ?w = "(sz + 1) AND NOT 1"
  have "unat (contents + ?w) = unat contents + unat ?w" using l(1,4) s(4) by (simp add: unat_plus_simple)
  moreover have "unat sz \<le> unat ?w" using s(5) by (rule round_even_ge)
  moreover have "unat (contents + ?w) \<le> unat (it_limit iter)" using l(2,4) j(3) k(3) s(4) by (simp add: word_le_nat_alt)
  ultimately have le: "unat contents + unat sz \<le> unat (it_limit iter)" by linarith
  then have "unat contents + unat sz < 2 ^ 64" using u64_lt by (rule order_le_less_trans)
  then have "unat (contents + sz) = unat contents + unat sz" by (intro unat_add_no_wrap) simp
  then show "contents \<le> contents + sz" "contents + sz \<le> it_limit iter" using le by (simp_all add: word_le_nat_alt)
qed

text \<open>
  C27: whatever bytes an archive holds, \<open>cpio_get_file\<close> returns, and the view it returns is a
  well-formed view inside the archive's.
\<close>

theorem cpio_get_file_inside:
  assumes "cpio_get_file m iter name = Some it"
  shows "it_next iter \<le> it_next it \<and> it_next it \<le> it_limit it \<and> it_limit it \<le> it_limit iter"
  using assms
proof (induction m iter name rule: cpio_get_file.induct)
  case (1 m iter name)
  from "1.prems" obtain iter' fname c sz where n: "cpio_next m iter = Some (iter', fname, c, sz)"
    by (subst (asm) cpio_get_file.simps) (auto split: option.splits)
  note inside = cpio_next_inside [OF n]
  show ?case
  proof (cases "strncmp (at m fname) (at m (string_data name)) STRING_MAX_SIZE = 0")
    case True
    then show ?thesis using "1.prems" n inside by (auto simp: cpio_get_file.simps [of m iter] memiter_init_def)
  next
    case False
    then have "cpio_get_file m iter' name = Some it" using "1.prems" n by (simp add: cpio_get_file.simps [of m iter])
    then show ?thesis using "1.IH" [OF n refl refl refl False] inside by auto
  qed
qed


theorem cpio_get_file_inside_witness:
  "\<exists>it. cpio_get_file (mem_of 0x1000 sample_archive) sample_iter 0x101A = Some it \<and>
     0x1000 \<le> it_next it \<and> it_next it \<le> it_limit it \<and> it_limit it \<le> 0x1046"
proof -
  have "map_option (view (mem_of 0x1000 sample_archive)) (cpio_get_file (mem_of 0x1000 sample_archive) sample_iter 0x101A) =
      Some (f_contents sample_file)"
    using cpio_get_file_archive [OF _ sample_facts(2-6), of "0x101A"] sample_facts(1,8)
    by (simp add: it_ok_def sample_file_def at_def bytes_def nth_Cons' All_less_Suc)
  then obtain it where it: "cpio_get_file (mem_of 0x1000 sample_archive) sample_iter 0x101A = Some it" by auto
  from cpio_get_file_inside [OF this] it show ?thesis by (auto simp: sample_iter_def memiter_init_def)
qed

end
