(* ===== verification/Dlog.thy ===== *)
theory Dlog
  imports Memiter
begin

text \<open>
  The debug log (\<^verbatim>\<open>src/dlog.c\<close>): the ring buffer, the printing of strings and numbers, the
  flags and widths of a printf-style format and the interpreter \<open>vdlog\<close> itself. A C string is
  the list of its characters before the terminator; a variable argument list is a list of
  typed arguments, and reading one that is missing or of another type is undefined. The lock
  around an entry point has no effect on a single caller and is not modelled; the console
  device receives the characters \<open>dl_out\<close> collects.
\<close>

section \<open>The log buffer\<close>

definition DLOG_BUFFER_SIZE :: u64 where "DLOG_BUFFER_SIZE = 8192"
definition DLOG_MAX_STRING_LENGTH :: nat where "DLOG_MAX_STRING_LENGTH = 64"

record dlog_state =
  dl_buffer :: "u64 \<Rightarrow> u8"
  dl_offset :: u64
  dl_out :: "u8 list"

definition dlog_putchar :: "u8 \<Rightarrow> dlog_state \<Rightarrow> dlog_state" where
  "dlog_putchar c d =
     d\<lparr>dl_buffer := (dl_buffer d)(dl_offset d := c),
       dl_offset := (dl_offset d + 1) mod DLOG_BUFFER_SIZE,
       dl_out := dl_out d @ [c]\<rparr>"

primrec print_raw_string :: "u8 list \<Rightarrow> dlog_state \<Rightarrow> dlog_state" where
  "print_raw_string [] d = d"
| "print_raw_string (c # str) d = print_raw_string str (dlog_putchar c d)"

section \<open>Flags\<close>

definition FLAG_SPACE :: u32 where "FLAG_SPACE = 0x01"
definition FLAG_ZERO :: u32 where "FLAG_ZERO = 0x02"
definition FLAG_MINUS :: u32 where "FLAG_MINUS = 0x04"
definition FLAG_PLUS :: u32 where "FLAG_PLUS = 0x08"
definition FLAG_ALT :: u32 where "FLAG_ALT = 0x10"
definition FLAG_UPPER :: u32 where "FLAG_UPPER = 0x20"
definition FLAG_NEG :: u32 where "FLAG_NEG = 0x40"

definition flag :: "u32 \<Rightarrow> u32 \<Rightarrow> bool" where
  "flag flags f \<longleftrightarrow> flags AND f \<noteq> 0"

lemmas flag_defs = FLAG_SPACE_def FLAG_ZERO_def FLAG_MINUS_def FLAG_PLUS_def FLAG_ALT_def FLAG_UPPER_def FLAG_NEG_def

section \<open>Strings and numbers\<close>

text \<open>The loop that prints \<open>fill\<close> until \<open>len\<close> reaches \<open>width\<close>.\<close>

function pad_to :: "u64 \<Rightarrow> u64 \<Rightarrow> u8 \<Rightarrow> dlog_state \<Rightarrow> dlog_state" where
  "pad_to len width fill d =
     (if len < width then pad_to (len + 1) width fill (dlog_putchar fill d) else d)"
  by pat_completeness auto
termination
  by (relation "measure (\<lambda>(len, width, fill, d). unat (width - len))") (auto simp: step_down)

declare pad_to.simps [simp del]

text \<open>
  \<open>str\<close> is split at \<open>suffix\<close>: the part before it and the rest. \<open>strnlen_s\<close> counts at most
  \<open>DLOG_MAX_STRING_LENGTH\<close> characters of the rest.
\<close>

definition print_string :: "u8 list \<Rightarrow> u8 list \<Rightarrow> u64 \<Rightarrow> u32 \<Rightarrow> u8 \<Rightarrow> dlog_state \<Rightarrow> dlog_state" where
  "print_string before suffix width flags fill d =
     (let len = of_nat (length before);
          d = print_raw_string before d
      in if flag flags FLAG_MINUS
         then let d = print_raw_string suffix d;
                  len = len + of_nat (length suffix)
              in pad_to len width 0x20 d
         else let len = len + of_nat (min (length suffix) DLOG_MAX_STRING_LENGTH);
                  d = pad_to len width fill d
              in print_raw_string suffix d)"

definition digits_lower :: "u8 list" where "digits_lower = map of_char ''0123456789abcdefx''"
definition digits_upper :: "u8 list" where "digits_upper = map of_char ''0123456789ABCDEFX''"

text \<open>
  The do-while loop fills \<open>buf\<close> downwards; \<open>room\<close> is the number of characters below \<open>ptr\<close>
  and \<open>acc\<close> the string from \<open>ptr\<close> on. Writing below the buffer or reading past the digit
  table is undefined, as is a division by zero.
\<close>

primrec num_loop :: "nat \<Rightarrow> u8 list \<Rightarrow> u64 \<Rightarrow> u64 \<Rightarrow> u8 list \<Rightarrow> u8 list outcome" where
  "num_loop 0 digs v base acc = Undef"
| "num_loop (Suc room) digs v base acc =
     (if base = 0 \<or> \<not> unat (v mod base) < length digs then Undef
      else let acc = digs ! unat (v mod base) # acc;
               v = v div base
           in if v \<noteq> 0 then num_loop room digs v base acc else Ret acc)"

definition print_num :: "u64 \<Rightarrow> u64 \<Rightarrow> u64 \<Rightarrow> u32 \<Rightarrow> dlog_state \<Rightarrow> dlog_state outcome" where
  "print_num v base width flags d =
     (let digs = (if flag flags FLAG_UPPER then digits_upper else digits_lower)
      in and_then (num_loop (DLOG_MAX_STRING_LENGTH - 1) digs v base []) (\<lambda>num.
         let pre = (if flag flags FLAG_ALT
                    then (if base = 16 then [0x30, digs ! 16] else if base = 8 then [0x30] else [])
                    else []);
             sign = (if flag flags FLAG_NEG then [0x2D] else if flag flags FLAG_PLUS then [0x2B]
                     else if flag flags FLAG_SPACE then [0x20] else [])
         in if length num + length pre + length sign > DLOG_MAX_STRING_LENGTH - 1 then Undef
            else if flag flags FLAG_ZERO then Ret (print_string (sign @ pre) num width flags 0x30 d)
            else Ret (print_string [] (sign @ pre @ num) width flags 0x20 d)))"

text \<open>The case for \<open>+\<close> has no \<open>break\<close> and falls into the one for \<open>#\<close>.\<close>

fun parse_flags :: "u8 list \<Rightarrow> u32 \<Rightarrow> u8 list \<times> u32" where
  "parse_flags [] flags = ([], flags)"
| "parse_flags (c # p) flags =
     (if c = 0x20 then parse_flags p (flags OR FLAG_SPACE)
      else if c = 0x30 then parse_flags p (flags OR FLAG_ZERO)
      else if c = 0x2D then parse_flags p (flags OR FLAG_MINUS)
      else if c = 0x2B then parse_flags p (flags OR FLAG_PLUS OR FLAG_ALT)
      else if c = 0x23 then parse_flags p (flags OR FLAG_ALT)
      else (c # p, flags))"

text \<open>The width loop looks at \<open>p[1]\<close>; the list is the string from \<open>p + 1\<close> on.\<close>

fun parse_width :: "u8 list \<Rightarrow> u64 \<Rightarrow> u8 list \<times> u64" where
  "parse_width [] w = ([], w)"
| "parse_width (c # p) w =
     (if c \<ge> 0x30 \<and> c \<le> 0x39 then parse_width p (w * 10 + (ucast c - 0x30)) else (c # p, w))"

datatype dlog_arg = Arg_int "32 word" | Arg_size u64 | Arg_str "u8 list"

definition va_int :: "dlog_arg list \<Rightarrow> (32 word \<times> dlog_arg list) outcome" where
  "va_int args = (case args of Arg_int v # args \<Rightarrow> Ret (v, args) | _ \<Rightarrow> Undef)"

definition va_size :: "dlog_arg list \<Rightarrow> (u64 \<times> dlog_arg list) outcome" where
  "va_size args = (case args of Arg_size v # args \<Rightarrow> Ret (v, args) | _ \<Rightarrow> Undef)"

definition va_str :: "dlog_arg list \<Rightarrow> (u8 list \<times> dlog_arg list) outcome" where
  "va_str args = (case args of Arg_str v # args \<Rightarrow> Ret (v, args) | _ \<Rightarrow> Undef)"

text \<open>Negating the least \<open>int\<close> overflows, which is undefined.\<close>

definition int_neg :: "32 word \<Rightarrow> 32 word outcome" where
  "int_neg v = (if sint v = - (2 ^ 31) then Undef else Ret (- v))"

text \<open>
  One conversion: what follows a percent sign, with the flags, the width and the
  specifier. The result is the rest of the format, the arguments left and the log. A character
  that is not a specifier is not consumed, and neither is a second percent sign.
\<close>

definition read_width :: "u8 list \<Rightarrow> u64 \<Rightarrow> u32 \<Rightarrow> dlog_arg list \<Rightarrow> (u8 list \<times> u64 \<times> u32 \<times> dlog_arg list) outcome" where
  "read_width p w flags args =
     (if w = 0 \<and> p \<noteq> [] \<and> hd p = 0x2A
      then and_then (va_int args) (\<lambda>(v, args).
           if sint v \<ge> 0 then Ret (tl p, scast v, flags, args)
           else and_then (int_neg v) (\<lambda>v. Ret (tl p, scast v, flags OR FLAG_MINUS, args)))
      else Ret (p, w, flags, args))"

definition specifier :: "u8 list \<Rightarrow> u64 \<Rightarrow> u32 \<Rightarrow> dlog_arg list \<Rightarrow> dlog_state \<Rightarrow> (u8 list \<times> dlog_arg list \<times> dlog_state) outcome" where
  "specifier p w flags args d =
     (case p of
        [] \<Rightarrow> Ret (p, args, dlog_putchar 0x25 d)
      | c # p' \<Rightarrow>
          if c = 0x73 then and_then (va_str args) (\<lambda>(str, args). Ret (p', args, print_string [] str w flags 0x20 d))
          else if c = 0x64 \<or> c = 0x69 then
            and_then (va_int args) (\<lambda>(v, args).
            and_then (if sint v < 0 then and_then (int_neg v) (\<lambda>v. Ret (v, flags OR FLAG_NEG)) else Ret (v, flags))
              (\<lambda>(v, flags). and_then (print_num (scast v) 10 w flags d) (\<lambda>d. Ret (p', args, d))))
          else if c = 0x58 then
            and_then (va_size args) (\<lambda>(v, args). and_then (print_num v 16 w (flags OR FLAG_UPPER) d) (\<lambda>d. Ret (p', args, d)))
          else if c = 0x70 then
            and_then (va_size args) (\<lambda>(v, args). and_then (print_num v 16 (8 * 2) FLAG_ZERO d) (\<lambda>d. Ret (p', args, d)))
          else if c = 0x78 then
            and_then (va_size args) (\<lambda>(v, args). and_then (print_num v 16 w flags d) (\<lambda>d. Ret (p', args, d)))
          else if c = 0x75 then
            and_then (va_size args) (\<lambda>(v, args). and_then (print_num v 10 w flags d) (\<lambda>d. Ret (p', args, d)))
          else if c = 0x6F then
            and_then (va_size args) (\<lambda>(v, args). and_then (print_num v 8 w flags d) (\<lambda>d. Ret (p', args, d)))
          else if c = 0x63 then
            and_then (va_int args) (\<lambda>(v, args).
              Ret (p', args, print_string [] (if (ucast v :: u8) = 0 then [] else [ucast v]) w flags 0x20 d))
          else if c = 0x25 then Ret (p, args, d)
          else Ret (p, args, dlog_putchar 0x25 d))"

definition conversion :: "u8 list \<Rightarrow> dlog_arg list \<Rightarrow> dlog_state \<Rightarrow> (u8 list \<times> dlog_arg list \<times> dlog_state) outcome" where
  "conversion p args d =
     (let (p, flags) = parse_flags p 0;
          (p, w) = parse_width p 0
      in and_then (read_width p w flags args) (\<lambda>(p, w, flags, args). specifier p w flags args d))"

lemma parse_flags_length: "length (fst (parse_flags p flags)) \<le> length p"
  by (induction p flags rule: parse_flags.induct) auto

lemma parse_width_length: "length (fst (parse_width p w)) \<le> length p"
  by (induction p w rule: parse_width.induct) auto

lemma read_width_length: "read_width p w flags args = Ret (p', w', flags', args') \<Longrightarrow> length p' \<le> length p"
  by (auto simp: read_width_def split: prod.splits if_splits)

lemma specifier_length: "specifier p w flags args d = Ret (p', args', d') \<Longrightarrow> length p' \<le> length p"
proof (cases p)
  case (Cons c q)
  assume "specifier p w flags args d = Ret (p', args', d')"
  then have "p' = q \<or> p' = p" unfolding specifier_def Cons list.case
    by (simp split: if_splits prod.splits) blast+
  then show ?thesis using Cons by auto
qed (simp add: specifier_def)

lemma conversion_length:
  assumes "conversion p args d = Ret (p', args', d')"
  shows "length p' \<le> length p"
proof -
  obtain q flags where q: "parse_flags p 0 = (q, flags)" by fastforce
  obtain r w where r: "parse_width q 0 = (r, w)" by fastforce
  obtain s w' flags' args'' where s: "read_width r w flags args = Ret (s, w', flags', args'')"
    "specifier s w' flags' args'' d = Ret (p', args', d')"
    using assms by (auto simp: conversion_def q r)
  show ?thesis
    using parse_flags_length [of p 0] parse_width_length [of q 0] read_width_length [OF s(1)] specifier_length [OF s(2)]
    by (simp add: q r)
qed

text \<open>Every turn of the loop consumes at least the character it looks at, so it ends.\<close>

function vdlog :: "u8 list \<Rightarrow> dlog_arg list \<Rightarrow> dlog_state \<Rightarrow> dlog_state outcome" where
  "vdlog [] args d = Ret d"
| "vdlog (c # p) args d =
     (if c = 0x25 then and_then (conversion p args d) (\<lambda>(p, args, d). vdlog p args d)
      else vdlog p args (dlog_putchar c d))"
  by pat_completeness auto
termination
  by (relation "measure (\<lambda>(p, args, d). length p)") (auto dest: conversion_length)

definition dlog :: "u8 list \<Rightarrow> dlog_arg list \<Rightarrow> dlog_state \<Rightarrow> dlog_state outcome" where
  "dlog fmt args d = vdlog fmt args d"

text \<open>Sending a VM's log buffer to the log; the buffer is cleared.\<close>

primrec flush_loop :: "nat \<Rightarrow> nat \<Rightarrow> u8 list \<Rightarrow> dlog_state \<Rightarrow> (u8 list \<times> dlog_state) outcome" where
  "flush_loop 0 i buffer d = Ret (buffer, d)"
| "flush_loop (Suc n) i buffer d =
     (if \<not> i < length buffer then Undef
      else flush_loop n (i + 1) (buffer[i := 0]) (dlog_putchar (buffer ! i) d))"

definition dlog_flush_vm_buffer :: "u16 \<Rightarrow> u8 list \<Rightarrow> u64 \<Rightarrow> dlog_state \<Rightarrow> (u8 list \<times> dlog_state) outcome" where
  "dlog_flush_vm_buffer vm_id buffer len d =
     (let d = print_raw_string (map of_char ''VM '') d
      in and_then (print_num (ucast vm_id) 16 0 0 d) (\<lambda>d.
         let d = print_raw_string (map of_char '': '') d
         in and_then (flush_loop (unat len) 0 buffer d) (\<lambda>(buffer, d).
            Ret (buffer, dlog_putchar 0x0A d))))"


section \<open>What is printed\<close>

lemma print_raw_string_out [simp]: "dl_out (print_raw_string str d) = dl_out d @ str"
  by (induction str arbitrary: d) (simp_all add: dlog_putchar_def)

lemma pad_to_out: "dl_out (pad_to len width fill d) = dl_out d @ replicate (unat width - unat len) fill"
proof (induction len width fill d rule: pad_to.induct)
  case (1 len width fill d)
  show ?case
  proof (cases "len < width")
    case True
    then have "unat (len + 1) = unat len + 1" "unat len < unat width"
      using less_Suc_of_less [OF True] unat_plus_simple [of len 1] by (auto simp: word_less_nat_alt word_le_nat_alt)
    then show ?thesis using 1 True
      by (simp add: pad_to.simps [of len] dlog_putchar_def Suc_diff_Suc replicate_append_same flip: replicate_Suc)
  next
    case False
    then show ?thesis by (simp add: pad_to.simps [of len] word_less_nat_alt)
  qed
qed

lemma print_string_out:
  assumes "length before + length suffix < 2 ^ 64" "length suffix \<le> DLOG_MAX_STRING_LENGTH"
  shows "dl_out (print_string before suffix width flags fill d) = dl_out d @
    (let gap = unat width - (length before + length suffix)
     in if flag flags FLAG_MINUS then before @ suffix @ replicate gap 0x20 else before @ replicate gap fill @ suffix)"
proof -
  have "unat (of_nat (length before) + of_nat (length suffix) :: u64) = length before + length suffix"
    using assms(1) unat_of_nat_less [of "length before + length suffix", where 'a = 64] by simp
  then show ?thesis using assms(2) by (simp add: print_string_def Let_def pad_to_out min_def)
qed

text \<open>The numeral of \<open>v\<close>, most significant digit first.\<close>

function numeral_of :: "nat \<Rightarrow> nat \<Rightarrow> nat list" where
  "numeral_of base v = (if base < 2 \<or> v < base then [v] else numeral_of base (v div base) @ [v mod base])"
  by pat_completeness auto
termination
  by (relation "measure (\<lambda>(base, v). v)") auto

declare numeral_of.simps [simp del]

lemma numeral_of_bound: "2 \<le> base \<Longrightarrow> x \<in> set (numeral_of base v) \<Longrightarrow> x < base"
proof (induction base v rule: numeral_of.induct)
  case (1 base v)
  then show ?case by (subst (asm) numeral_of.simps) (auto split: if_splits)
qed

lemma numeral_of_length: "2 \<le> base \<Longrightarrow> v < base ^ k \<Longrightarrow> 0 < k \<Longrightarrow> length (numeral_of base v) \<le> k"
proof (induction base v arbitrary: k rule: numeral_of.induct)
  case (1 base v)
  show ?case
  proof (cases "base < 2 \<or> v < base")
    case False
    then obtain j where k: "k = Suc j" "0 < j"
    proof (cases k)
      case (Suc j)
      moreover have "j \<noteq> 0" using False 1(3) Suc by (intro notI) simp
      ultimately show thesis using that by simp
    qed (use 1(4) in simp)
    then have "v div base < base ^ j" using 1(2,3) by (simp add: less_mult_imp_div_less mult.commute)
    then show ?thesis using 1(1) [OF False] k 1(2) False by (simp add: numeral_of.simps [of base v])
  qed (use 1 in \<open>simp add: numeral_of.simps [of base v]\<close>)
qed

lemma num_loop_spec:
  assumes "2 \<le> unat base" "unat base \<le> length digs" "length (numeral_of (unat base) (unat v)) \<le> room"
  shows "num_loop room digs v base acc = Ret (map ((!) digs) (numeral_of (unat base) (unat v)) @ acc)"
  using assms(3)
proof (induction room arbitrary: v acc)
  case 0
  then show ?case by (simp add: numeral_of.simps [of _ "unat v"] split: if_splits)
next
  case (Suc room)
  have b: "base \<noteq> 0" using assms(1) by auto
  have m: "unat (v mod base) = unat v mod unat base" "unat (v div base) = unat v div unat base"
    by (simp_all add: unat_mod unat_div)
  have lt: "unat v mod unat base < length digs" using assms mod_less_divisor [of "unat base" "unat v"] by linarith
  show ?case
  proof (cases "unat v < unat base")
    case True
    then have "v div base = 0" by (intro word_eq_unatI) (simp add: m)
    then show ?thesis using True lt b assms(1) by (simp add: Let_def m numeral_of.simps [of _ "unat v"])
  next
    case False
    then have "unat (v div base) \<noteq> 0" using assms(1) by (simp add: m div_eq_0_iff)
    then have "v div base \<noteq> 0" by auto
    moreover have "numeral_of (unat base) (unat v) = numeral_of (unat base) (unat (v div base)) @ [unat v mod unat base]"
      using False assms(1) by (simp add: numeral_of.simps [of _ "unat v"] m)
    ultimately show ?thesis using Suc lt b by (simp add: Let_def m)
  qed
qed

lemma num_loop_in_buffer:
  assumes "8 \<le> unat base" "unat base \<le> length digs"
  shows "num_loop (DLOG_MAX_STRING_LENGTH - 1) digs v base [] = Ret (map ((!) digs) (numeral_of (unat base) (unat v)))"
    "length (numeral_of (unat base) (unat v)) \<le> 22"
proof -
  have "unat v < 2 ^ 64" by (rule u64_lt)
  also have "(2 :: nat) ^ 64 \<le> 8 ^ 22" by simp
  also have "\<dots> \<le> unat base ^ 22" using assms(1) by (rule power_mono) simp
  finally show len: "length (numeral_of (unat base) (unat v)) \<le> 22" using assms(1) by (intro numeral_of_length) simp_all
  show "num_loop (DLOG_MAX_STRING_LENGTH - 1) digs v base [] = Ret (map ((!) digs) (numeral_of (unat base) (unat v)))"
    using num_loop_spec [of base digs v "DLOG_MAX_STRING_LENGTH - 1" "[]"] assms len
    by (simp add: DLOG_MAX_STRING_LENGTH_def)
qed

text \<open>The sign, the prefix and the digits that the flags ask for.\<close>

definition sign_text :: "u32 \<Rightarrow> string" where
  "sign_text flags = (if flag flags FLAG_NEG then ''-'' else if flag flags FLAG_PLUS then ''+''
     else if flag flags FLAG_SPACE then '' '' else [])"

definition prefix_text :: "u64 \<Rightarrow> u32 \<Rightarrow> string" where
  "prefix_text base flags = (if \<not> flag flags FLAG_ALT then []
     else if base = 16 then (if flag flags FLAG_UPPER then ''0X'' else ''0x'')
     else if base = 8 then ''0'' else [])"

definition numeral_text :: "u64 \<Rightarrow> u32 \<Rightarrow> u64 \<Rightarrow> string" where
  "numeral_text base flags v =
     map (\<lambda>k. (if flag flags FLAG_UPPER then ''0123456789ABCDEF'' else ''0123456789abcdef'') ! k)
       (numeral_of (unat base) (unat v))"

lemma numeral_text_digits:
  assumes "2 \<le> unat base" and "unat base \<le> 16"
  shows "map of_char (numeral_text base flags v) =
    map ((!) (if flag flags FLAG_UPPER then digits_upper else digits_lower)) (numeral_of (unat base) (unat v))"
proof -
  have app: "k < length cs \<Longrightarrow> map of_char (cs @ ds) ! k = (of_char (cs ! k) :: u8)" for k and cs ds :: string
    by (simp add: nth_append)
  have "digits_upper ! k = of_char (''0123456789ABCDEF'' ! k)" "digits_lower ! k = of_char (''0123456789abcdef'' ! k)"
    if "k < 16" for k
    using that app [of k "''0123456789ABCDEF''" "''X''"] app [of k "''0123456789abcdef''" "''x''"]
    by (simp_all add: digits_upper_def digits_lower_def)
  moreover have "k < 16" if "k \<in> set (numeral_of (unat base) (unat v))" for k
    using numeral_of_bound [OF assms(1) that] assms(2) by simp
  ultimately show ?thesis by (simp add: numeral_text_def)
qed

text \<open>
  C24: numbers in the bases the log uses never overrun the 64-character buffer of
  \<open>print_num\<close>, whatever the flags: it returns, and what it prints is the sign, the prefix and
  the numeral of the value in that base, padded to the width on the side and with the character that
  the flags ask for. The sign is a minus, a plus, a space or nothing; the prefix is \<open>0x\<close> or \<open>0X\<close> for
  base 16 and \<open>0\<close> for base 8 in the alternate form, and nothing otherwise.
\<close>

theorem print_num_prints_numeral:
  assumes "base \<in> {8, 10, 16}"
  shows "\<exists>d'. print_num v base width flags d = Ret d' \<and>
    (let sign = sign_text flags; pre = prefix_text base flags; num = numeral_text base flags v;
         gap = unat width - length (sign @ pre @ num)
     in dl_out d' = dl_out d @ map of_char
       (if flag flags FLAG_MINUS then sign @ pre @ num @ replicate gap CHR '' ''
        else if flag flags FLAG_ZERO then sign @ pre @ replicate gap CHR ''0'' @ num
        else replicate gap CHR '' '' @ sign @ pre @ num))"
proof -
  let ?digs = "if flag flags FLAG_UPPER then digits_upper else digits_lower"
  let ?num = "map ((!) ?digs) (numeral_of (unat base) (unat v))"
  let ?pre = "if flag flags FLAG_ALT then (if base = 16 then [0x30, ?digs ! 16] else if base = 8 then [0x30] else []) else []"
  let ?sign = "if flag flags FLAG_NEG then [0x2D] else if flag flags FLAG_PLUS then [0x2B]
     else if flag flags FLAG_SPACE then [0x20] else [] :: u8 list"
  have b: "8 \<le> unat base" "unat base \<le> length ?digs" using assms by (auto simp: digits_upper_def digits_lower_def)
  note loop = num_loop_in_buffer [OF b, of v]
  have "2 \<le> unat base" "unat base \<le> 16" using assms by auto
  note num = numeral_text_digits [OF this, of flags v]
  have pre: "map of_char (prefix_text base flags) = ?pre"
    by (simp add: prefix_text_def digits_upper_def digits_lower_def)
  have sign: "map of_char (sign_text flags) = ?sign"
    by (simp add: sign_text_def)
  have small: "length ?pre \<le> 2" "length ?sign \<le> 1" by simp_all
  have "\<not> DLOG_MAX_STRING_LENGTH - 1 < length ?num + length ?pre + length ?sign"
    using loop(2) small unfolding DLOG_MAX_STRING_LENGTH_def length_map by linarith
  then have eq: "print_num v base width flags d =
      (if flag flags FLAG_ZERO then Ret (print_string (?sign @ ?pre) ?num width flags 0x30 d)
       else Ret (print_string [] (?sign @ ?pre @ ?num) width flags 0x20 d))"
    unfolding print_num_def Let_def loop(1) and_then.simps by (simp only: if_False)
  have o1: "dl_out (print_string (?sign @ ?pre) ?num width flags 0x30 d) = dl_out d @
      (let gap = unat width - (length (?sign @ ?pre) + length ?num)
       in if flag flags FLAG_MINUS then (?sign @ ?pre) @ ?num @ replicate gap 0x20 else (?sign @ ?pre) @ replicate gap 0x30 @ ?num)"
    by (rule print_string_out) (use loop(2) small in \<open>simp_all add: DLOG_MAX_STRING_LENGTH_def\<close>)
  have o2: "dl_out (print_string [] (?sign @ ?pre @ ?num) width flags 0x20 d) = dl_out d @
      (let gap = unat width - (length ([] :: u8 list) + length (?sign @ ?pre @ ?num))
       in if flag flags FLAG_MINUS then [] @ (?sign @ ?pre @ ?num) @ replicate gap 0x20
          else [] @ replicate gap 0x20 @ ?sign @ ?pre @ ?num)"
    by (rule print_string_out) (use loop(2) small in \<open>simp_all add: DLOG_MAX_STRING_LENGTH_def\<close>)
  have len: "length (sign_text flags) = length ?sign" "length (prefix_text base flags) = length ?pre"
    "length (numeral_text base flags v) = length ?num"
    using arg_cong [OF sign, of length] arg_cong [OF pre, of length] arg_cong [OF num, of length] by simp_all
  have sp: "of_char CHR '' '' = (0x20 :: u8)" "of_char CHR ''0'' = (0x30 :: u8)" by simp_all
  show ?thesis
    unfolding eq Let_def length_append len if_distrib [of "map of_char"] map_append map_replicate sp pre sign num
    using o1 o2 by (cases "flag flags FLAG_ZERO") (simp_all only: if_True if_False outcome.inject ex_simps simp_thms Let_def
        append_assoc length_append list.size add.assoc append_Nil add_0)
qed

theorem print_num_prints_numeral_witness:
  "\<exists>d'. print_num 42 16 6 (FLAG_ZERO OR FLAG_ALT OR FLAG_NEG) \<lparr>dl_buffer = \<lambda>_. 0, dl_offset = 0, dl_out = []\<rparr> = Ret d' \<and>
     dl_out d' = map of_char ''-0x02a''"
proof -
  have "numeral_of 16 42 = [2, 10]" by (simp add: numeral_of.simps)
  then show ?thesis
    using print_num_prints_numeral [of 16 42 6 "FLAG_ZERO OR FLAG_ALT OR FLAG_NEG" "\<lparr>dl_buffer = \<lambda>_. 0, dl_offset = 0, dl_out = []\<rparr>"]
    by (simp add: flag_def flag_defs sign_text_def prefix_text_def numeral_text_def Let_def)
qed

section \<open>The ring buffer\<close>

text \<open>The buffer holds the last \<open>DLOG_BUFFER_SIZE\<close> characters sent to the console.\<close>

definition ring_holds :: "dlog_state \<Rightarrow> bool" where
  "ring_holds d \<longleftrightarrow>
     dl_offset d = of_nat (length (dl_out d) mod unat DLOG_BUFFER_SIZE) \<and>
     (\<forall>j<length (dl_out d). length (dl_out d) \<le> j + unat DLOG_BUFFER_SIZE \<longrightarrow>
        dl_buffer d (of_nat (j mod unat DLOG_BUFFER_SIZE)) = dl_out d ! j)"

lemma mod_ne:
  fixes j n k :: nat
  assumes "j < n" "n < j + k"
  shows "j mod k \<noteq> n mod k"
proof
  assume "j mod k = n mod k"
  then have "k dvd n - j" using assms(1) by (metis mod_eq_dvd_iff_nat nat_less_le)
  then show False using assms by (auto dest: dvd_imp_le)
qed

lemma dlog_putchar_ring:
  assumes "ring_holds d"
  shows "ring_holds (dlog_putchar c d)"
proof -
  let ?n = "length (dl_out d)" and ?k = "unat DLOG_BUFFER_SIZE"
  have k: "?k = 8192" by (simp add: DLOG_BUFFER_SIZE_def)
  have off: "dl_offset d = of_nat (?n mod ?k)" using assms by (simp add: ring_holds_def)
  have u: "unat (of_nat (x mod ?k) :: u64) = x mod ?k" for x
    using mod_less_divisor [of ?k x] k by (intro unat_of_nat_less) (simp add: order.strict_trans)
  have "unat (dl_offset d + 1) = ?n mod ?k + 1"
    using u [of ?n] mod_less_divisor [of ?k ?n] k unat_add_no_wrap [of "dl_offset d" 1] by (simp add: off)
  then have "unat ((dl_offset d + 1) mod DLOG_BUFFER_SIZE) = Suc ?n mod ?k"
    by (simp add: unat_mod mod_Suc_eq)
  then have offset: "(dl_offset d + 1) mod DLOG_BUFFER_SIZE = of_nat (Suc ?n mod ?k)"
    using u [of "Suc ?n"] by (intro word_eq_unatI) simp
  have "dl_buffer (dlog_putchar c d) (of_nat (j mod ?k)) = dl_out (dlog_putchar c d) ! j"
    if j: "j < Suc ?n" "Suc ?n \<le> j + ?k" for j
  proof (cases "j = ?n")
    case False
    then have "j mod ?k \<noteq> ?n mod ?k" using j by (intro mod_ne) simp_all
    then have "(of_nat (j mod ?k) :: u64) \<noteq> dl_offset d" using u [of j] u [of ?n] off by metis
    then show ?thesis using assms j False by (simp add: ring_holds_def dlog_putchar_def nth_append)
  qed (simp add: dlog_putchar_def off)
  then show ?thesis using offset by (simp add: ring_holds_def dlog_putchar_def)
qed

lemma print_raw_string_ring: "ring_holds d \<Longrightarrow> ring_holds (print_raw_string str d)"
  by (induction str arbitrary: d) (simp_all add: dlog_putchar_ring)

lemma pad_to_ring: "ring_holds d \<Longrightarrow> ring_holds (pad_to len width fill d)"
proof (induction len width fill d rule: pad_to.induct)
  case (1 len width fill d)
  then show ?case by (simp add: pad_to.simps [of len] dlog_putchar_ring)
qed

lemma print_string_ring: "ring_holds d \<Longrightarrow> ring_holds (print_string before suffix width flags fill d)"
  by (simp add: print_string_def Let_def print_raw_string_ring pad_to_ring)

lemma print_num_ring: "print_num v base width flags d = Ret d' \<Longrightarrow> ring_holds d \<Longrightarrow> ring_holds d'"
  by (auto simp: print_num_def Let_def print_string_ring split: if_splits)

lemma specifier_ring:
  assumes "specifier p w flags args d = Ret (p', args', d')" "ring_holds d"
  shows "ring_holds d'"
proof (cases p)
  case Nil
  then show ?thesis using assms by (auto simp: specifier_def dlog_putchar_ring)
next
  case (Cons c q)
  have "d' = d \<or> d' = dlog_putchar 0x25 d \<or> (\<exists>str w flags. d' = print_string [] str w flags 0x20 d) \<or>
      (\<exists>v base w flags. print_num v base w flags d = Ret d')"
    using assms(1) unfolding specifier_def Cons list.case by (simp split: if_splits prod.splits) blast+
  then show ?thesis using assms(2) by (auto simp: dlog_putchar_ring print_string_ring intro: print_num_ring)
qed

lemma conversion_ring: "conversion p args d = Ret (p', args', d') \<Longrightarrow> ring_holds d \<Longrightarrow> ring_holds d'"
  by (auto simp: conversion_def split: prod.splits intro: specifier_ring)

text \<open>
  C23: logging keeps the ring buffer equal to the tail of what was printed: whatever the format
  and the arguments, if the buffer held the last \<open>DLOG_BUFFER_SIZE\<close> characters before the
  call and the call returns, it does so afterwards, and the offset stays inside the buffer.
\<close>

theorem vdlog_ring_buffer:
  assumes "ring_holds d" "vdlog fmt args d = Ret d'"
  shows "ring_holds d' \<and> dl_offset d' < DLOG_BUFFER_SIZE"
proof -
  have "ring_holds d'" using assms
  proof (induction fmt args d rule: vdlog.induct)
    case (2 c p args d)
    show ?case
    proof (cases "c = 0x25")
      case True
      then obtain q args' e where s: "conversion p args d = Ret (q, args', e)" "vdlog q args' e = Ret d'"
        using 2(4) by auto
      from 2(1) [OF True s(1) refl refl conversion_ring [OF s(1) 2(3)] s(2)] show ?thesis .
    next
      case False
      then show ?thesis using 2(2) [OF False dlog_putchar_ring [OF 2(3)]] 2(4) by simp
    qed
  qed simp
  moreover have "ring_holds d' \<Longrightarrow> dl_offset d' < DLOG_BUFFER_SIZE"
    using mod_less_divisor [of 8192 "length (dl_out d')"]
    by (simp add: ring_holds_def DLOG_BUFFER_SIZE_def word_less_nat_alt unat_of_nat_less order.strict_trans)
  ultimately show ?thesis by simp
qed

text \<open>A freshly booted log.\<close>

definition dlog_init :: dlog_state where
  "dlog_init = \<lparr>dl_buffer = \<lambda>_. 0, dl_offset = 0, dl_out = []\<rparr>"

lemmas dlog_eval = conversion_def specifier_def read_width_def print_num_def print_string_def pad_to.simps
  va_int_def va_size_def va_str_def int_neg_def flag_def flag_defs DLOG_MAX_STRING_LENGTH_def Let_def
  digits_lower_def digits_upper_def

lemma num_loop_numeral [simp]:
  "num_loop (numeral k) digs v base acc =
     (if base = 0 \<or> \<not> unat (v mod base) < length digs then Undef
      else let acc = digs ! unat (v mod base) # acc;
               v = v div base
           in if v \<noteq> 0 then num_loop (pred_numeral k) digs v base acc else Ret acc)"
  by (simp add: numeral_eq_Suc)

theorem vdlog_ring_buffer_witness:
  "\<exists>d'. vdlog (map of_char ''v=%u'') [Arg_size 42] dlog_init = Ret d' \<and> dl_out d' = map of_char ''v=42'' \<and>
     ring_holds d' \<and> dl_offset d' < DLOG_BUFFER_SIZE"
proof -
  have r: "ring_holds dlog_init" by (simp add: ring_holds_def dlog_init_def)
  obtain d' where d': "vdlog (map of_char ''v=%u'') [Arg_size 42] dlog_init = Ret d'"
    "dl_out d' = map of_char ''v=42''"
    by (simp add: dlog_eval) (simp add: dlog_putchar_def dlog_init_def)
  from vdlog_ring_buffer [OF r d'(1)] d' show ?thesis by blast
qed

section \<open>Printing and parsing\<close>

lemma decimal_digit: "i < 10 \<Longrightarrow> isdigit (digits_lower ! i) \<and> unat (digits_lower ! i) = 0x30 + i"
proof -
  assume "i < 10"
  then have "i \<in> set [0..<10]" by simp
  also have "[0..<10] = [0, 1, 2, 3, 4, 5, 6, 7, 8, 9]" by (simp add: upt_rec)
  finally show ?thesis by (auto simp: digits_lower_def isdigit_def)
qed

lemma decimal_snoc: "decimal acc (xs @ [c]) = decimal acc xs * 10 + (unat c - 0x30)"
  by (induction acc xs rule: decimal.induct) simp_all

lemma decimal_numeral_of: "decimal 0 (map ((!) digits_lower) (numeral_of 10 v)) = v"
proof (induction v rule: less_induct)
  case (less v)
  show ?case
  proof (cases "v < 10")
    case True
    then show ?thesis using decimal_digit [of v] by (simp add: numeral_of.simps)
  next
    case False
    then show ?thesis using less [of "v div 10"] decimal_digit [of "v mod 10"]
      by (simp add: numeral_of.simps [of 10 v] decimal_snoc)
  qed
qed

lemma numeral_of_digits: "c \<in> set (map ((!) digits_lower) (numeral_of 10 v)) \<Longrightarrow> isdigit c"
  using numeral_of_bound [of 10 _ v] decimal_digit by auto

lemma numeral_of_nonempty: "numeral_of base v \<noteq> []"
  by (simp add: numeral_of.simps)

lemma isdigit_not_space: "isdigit c \<Longrightarrow> \<not> isspace c"
  by (auto simp: isdigit_def isspace_def)

text \<open>
  C25: a number printed with \<open>%u\<close> is read back by \<open>memiter_parse_uint\<close>: the log receives a
  string of digits, and parsing any view that holds them (possibly followed by something that
  does not start with a digit) returns the number and stops after the digits.
\<close>

theorem dlog_parse_uint_roundtrip:
  "\<exists>d' cs. dlog (map of_char ''%u'') [Arg_size v] d = Ret d' \<and> dl_out d' = dl_out d @ cs \<and>
     (\<forall>m it rest. it_next it \<le> it_limit it \<longrightarrow> view m it = cs @ rest \<longrightarrow> (rest = [] \<or> \<not> isdigit (hd rest)) \<longrightarrow>
        (\<exists>it'. memiter_parse_uint m it = (it', Some v) \<and> view m it' = rest))"
proof -
  let ?cs = "map ((!) digits_lower) (numeral_of 10 (unat v))"
  have b: "8 \<le> unat (10 :: u64)" "unat (10 :: u64) \<le> length digits_lower" by (simp_all add: digits_lower_def)
  note loop = num_loop_in_buffer [OF b, of v]
  have "print_num v 10 0 0 d = Ret (print_string [] ?cs 0 0 0x20 d)"
    using loop by (simp add: print_num_def flag_def Let_def DLOG_MAX_STRING_LENGTH_def)
  then have run: "dlog (map of_char ''%u'') [Arg_size v] d = Ret (print_string [] ?cs 0 0 0x20 d)"
    by (simp add: dlog_def conversion_def specifier_def read_width_def va_size_def)
  have out: "dl_out (print_string [] ?cs 0 0 0x20 d) = dl_out d @ ?cs"
    using print_string_out [of "[]" ?cs 0 0 "0x20" d] loop(2) by (simp add: flag_def DLOG_MAX_STRING_LENGTH_def)
  have "\<exists>it'. memiter_parse_uint m it = (it', Some v) \<and> view m it' = rest"
    if *: "it_next it \<le> it_limit it" "view m it = ?cs @ rest" "rest = [] \<or> \<not> isdigit (hd rest)" for m it rest
  proof -
    have ne: "?cs \<noteq> []" using numeral_of_nonempty [of 10 "unat v"] by simp
    have hd: "isdigit (hd ?cs)" "?cs \<noteq> []" using numeral_of_digits [OF hd_in_set [OF ne]] ne by simp_all
    have sp: "dropWhile isspace (?cs @ rest) = ?cs @ rest"
      using hd isdigit_not_space [of "hd ?cs"] by (cases ?cs) simp_all
    have dig: "takeWhile isdigit (?cs @ rest) = ?cs" "dropWhile isdigit (?cs @ rest) = rest"
      using numeral_of_digits [of _ "unat v"] *(3)
      by (subst takeWhile_append2 dropWhile_append2; cases rest; auto)+
    show ?thesis
      using memiter_parse_uint_spec [of it m] *(1,2) hd(2) unfolding sp dig
      by (auto simp: it_ok_def sp dig decimal_numeral_of Let_def split: prod.splits)
  qed
  then show ?thesis using run out by blast
qed

theorem dlog_parse_uint_roundtrip_witness:
  "\<exists>it'. memiter_parse_uint (mem_of 0x1000 [0x34, 0x32, 0x20]) (memiter_init 0x1000 3) = (it', Some 42) \<and>
     view (mem_of 0x1000 [0x34, 0x32, 0x20]) it' = [0x20]"
proof -
  let ?m = "mem_of 0x1000 [0x34, 0x32, 0x20]" and ?it = "memiter_init 0x1000 3"
  obtain d' cs where d': "dlog (map of_char ''%u'') [Arg_size 42] dlog_init = Ret d'" "dl_out d' = dl_out dlog_init @ cs"
    and parse: "\<forall>m it rest. it_next it \<le> it_limit it \<longrightarrow> view m it = cs @ rest \<longrightarrow> (rest = [] \<or> \<not> isdigit (hd rest)) \<longrightarrow>
        (\<exists>it'. memiter_parse_uint m it = (it', Some 42) \<and> view m it' = rest)"
    using dlog_parse_uint_roundtrip [of 42 dlog_init] by blast
  have "\<exists>e. dlog (map of_char ''%u'') [Arg_size 42] dlog_init = Ret e \<and> dl_out e = [0x34, 0x32]"
    by (simp add: dlog_def dlog_eval) (simp add: dlog_putchar_def dlog_init_def)
  then have "cs = [0x34, 0x32]" using d' by (auto simp: dlog_init_def)
  moreover have "view ?m ?it = [0x34, 0x32, 0x20]"
    by (simp add: view_def memiter_init_def bytes_def mem_of_def upt_rec)
  ultimately show ?thesis using parse [rule_format, of ?it ?m "[0x20]"] by (simp add: memiter_init_def isdigit_def)
qed

text \<open>
  A doubled percent sign is not one literal percent sign: the second one starts a
  conversion of its own, so \<open>%%d\<close> prints the next argument as a number, where the
  printf format that the routine follows prints \<open>%d\<close>.
\<close>

theorem percent_percent_converts:
  "\<exists>d'. dlog (map of_char ''%%d'') [Arg_int 5] d = Ret d' \<and> dl_out d' = dl_out d @ map of_char ''5''"
  by (simp add: dlog_def dlog_eval) (simp add: dlog_putchar_def)

end
