(* ===== verification/Spec2Isabelle.thy ===== *)
theory Spec2Isabelle
  imports MM_Page_Props Reset Interrupt_Props Cpio Dlog
begin

text \<open>
  A verification development of the Hafnium hypervisor for AArch64.

  \<^bold>\<open>The program.\<close> Hafnium runs one primary and several secondary virtual machines side by side and
  keeps them apart. Its memory management (\<^verbatim>\<open>src/mm.c\<close>) edits the page tables of the hypervisor
  (stage 1) and of each VM (stage 2); it encodes entries and maintains the TLB through
  \<^verbatim>\<open>src/arch/aarch64/mm.c\<close> and takes the pages for tables from a pool (\<^verbatim>\<open>src/mpool.c\<close>). VMs, vCPUs
  and physical CPUs are tables of structures (\<^verbatim>\<open>src/vm.c\<close>, \<^verbatim>\<open>src/vcpu.c\<close>, \<^verbatim>\<open>src/cpu.c\<close>) whose register
  values are computed in \<^verbatim>\<open>src/arch/aarch64\<close>. A VM enters the hypervisor by a trapped access to a system
  register, by a page fault or by a call (\<^verbatim>\<open>src/api.c\<close>). A small C library, an iterator over memory, a
  reader of cpio archives and a debug log support all of it.

  \<^bold>\<open>The model.\<close> Every C function is a HOL function on the state it reads and writes. Machine integers
  are words of their width, so additions and shifts wrap as in the code. A function that can fail a
  \<open>CHECK\<close> or do something C leaves undefined returns an \<open>outcome\<close>: \<open>Ret\<close> the result, \<open>Panic\<close> or
  \<open>Undef\<close>. Null pointers are \<open>None\<close>. What is read from system registers, and what the build chooses
  (sizes of tables, linker addresses, options), are arguments, collected in the records \<open>arch_cfg\<close>,
  \<open>mm_env\<close> and \<open>hyp_env\<close>.

  \<^bold>\<open>Foundations.\<close>

  \<^item> \<open>Prelude\<close>: integer types, outcomes, the alignment macros of \<^verbatim>\<open>inc/hf/arch/std.h\<close>, and the lemmas
    on words, lists and multisets that everything shares.

  \<^item> \<open>Mpool\<close> (\<^verbatim>\<open>src/mpool.c\<close>): free list, chunks and fallback pool. Allocation, freeing, contiguous
    allocation and finishing are exact on the multiset of entries that a pool can still hand out. The
    theory states the interface \<open>page_pool\<close> and interprets it on the pool.

  \<^item> \<open>Arch_MM\<close> (\<^verbatim>\<open>src/arch/aarch64/mm.c\<close>): encoding of entries, with the interface \<open>pte_encoding\<close> and
    its interpretation; modes and attributes, with the round trip of both stages; the maintenance
    operations issued to invalidate a range. An automaton over these operations and their barriers
    (\<open>stage1_removed\<close>, \<open>stage2_removed\<close>) says what they remove from the TLB.

  \<^item> \<open>Arch_Init\<close> (\<^verbatim>\<open>src/arch/aarch64/sysregs.c\<close>, \<open>arch_mm_init\<close>): register values and paging geometry.

  \<^bold>\<open>Page tables\<close> (\<^verbatim>\<open>src/mm.c\<close>).

  \<^item> \<open>MM\<close>: all operations, on a store of tables and a pool, with a trace of writes and maintenance.

  \<^item> \<open>MM_Walk\<close>, \<open>MM_Step\<close>, \<open>MM_Map\<close>, \<open>MM_Root\<close>: the view of a table as attributes of addresses and as
    owned pages; what each edit relies on and guarantees, first for one entry, then for one table, then
    for a whole page table, with prepare, commit and update.

  \<^item> \<open>MM_Defrag\<close>, \<open>MM_Get\<close>, \<open>MM_Init\<close>: merging tables into blocks, reading attributes, creating and
    destroying page tables.

  \<^item> \<open>MM_Trace\<close>: the interface \<open>edit_relation\<close>, a relation that the elementary edits respect and all
    others inherit, interpreted on the break-before-make discipline.

  \<^item> \<open>MM_TLB\<close>: the TLB as a cache that the hardware may fill at any moment from a valid entry. An edit
    never lets two translations of one address be reachable, and leaves none that is out of date.

  \<^item> \<open>MM_Page\<close>: mapping one page to an arbitrary physical page; the tables need not be identity maps.

  \<^item> \<open>MM_Props\<close>, \<open>MM_Page_Props\<close>: the properties. The page table of a partition refines a map from
    addresses to attributes under any sequence of operations; updates are atomic and keep the TLB
    coherent; a prepared mapping can be committed; modes are read back; no page is lost over the life
    of a table. Two divergences of the code from what its callers expect are shown as well.

  \<^bold>\<open>VMs and vCPUs.\<close>

  \<^item> \<open>VM_Types\<close>: the structures of \<^verbatim>\<open>inc/hf/vm.h\<close>, \<^verbatim>\<open>inc/hf/vcpu.h\<close> and \<^verbatim>\<open>inc/hf/cpu.h\<close>.

  \<^item> \<open>Trap_Regs\<close>, \<open>Trap_Props\<close> (\<^verbatim>\<open>hypervisor/debug_el1.c\<close>, \<^verbatim>\<open>perfmon.c\<close>, \<^verbatim>\<open>feature_id.c\<close>,
    \<^verbatim>\<open>handler.c\<close>): trapped accesses to system registers. The primary VM reaches the register it names,
    a secondary VM none, and of the processor's features it sees exactly those left to it.

  \<^item> \<open>Hyp\<close>, \<open>Hyp_Props\<close> (\<^verbatim>\<open>src/vm.c\<close>, \<^verbatim>\<open>src/vcpu.c\<close>, \<^verbatim>\<open>src/cpu.c\<close>, \<^verbatim>\<open>hypervisor/cpu.c\<close>,
    \<^verbatim>\<open>src/arch/aarch64/timer.c\<close>): the tables of VMs, vCPUs and CPUs, the boot list, the registers of a
    vCPU and the virtual timer. The boot list is the stable sort of the registered VMs.

  \<^item> \<open>VM_Mem\<close>: the hypervisor is not mapped in a VM it was unmapped from; page faults are resumed exactly
    when the table allows the access.

  \<^item> \<open>Reset\<close>: the registers of a new vCPU confine it to its own page table and configuration.

  \<^item> \<open>FFA\<close>, \<open>Switch\<close> (\<^verbatim>\<open>inc/vmapi/hf/ffa.h\<close>, \<^verbatim>\<open>src/api.c\<close>): the values exchanged with partitions, and
    the ways of leaving a vCPU, each of which hands the CPU to the right vCPU with the right value.

  \<^item> \<open>Interrupts\<close>, \<open>Interrupt_Props\<close> (\<^verbatim>\<open>inc/hf/interrupt_desc.h\<close>, \<^verbatim>\<open>inc/hf/vcpu.h\<close>, \<^verbatim>\<open>src/api.c\<close>): virtual
    interrupts; the counters agree with the bitmaps after any calls, the lowest interrupt is delivered.

  \<^bold>\<open>Support.\<close>

  \<^item> \<open>Std\<close> (\<^verbatim>\<open>src/std.c\<close>, \<^verbatim>\<open>src/arch/aarch64/std.c\<close>): memory and string routines with their checks.

  \<^item> \<open>Memiter\<close> (\<^verbatim>\<open>src/memiter.c\<close>, \<^verbatim>\<open>src/string.c\<close>), \<open>Cpio\<close> (\<^verbatim>\<open>src/cpio.c\<close>), \<open>Dlog\<close>
    (\<^verbatim>\<open>src/dlog.c\<close>): iterators and strings, archives, and the log with its ring buffer.

  \<^bold>\<open>Termination.\<close> No definition takes fuel. Recursion over a table goes down its level and the list of
  remaining entries; scanning and printing loops are total functions with the bytes left as measure.
  The loops that invalidate a range, whose counter may wrap, and the search of the boot list, which
  follows pointers, are partial functions with \<open>None\<close> for a loop that does not end; that they end is
  proved where a property rests on it.

  \<^bold>\<open>Hypotheses.\<close> The properties of page tables assume a well-formed table that owns its pages, a pool
  that does not contain them, and a geometry that \<open>arch_mm_init\<close> can choose. Each of them has a witness
  on a sample state in which all hypotheses hold, and \<open>MM_Init\<close> and \<open>Arch_Init\<close> establish them.

  \<^bold>\<open>Not modelled.\<close> Locks: the model is sequential, and each function runs with the locks it takes held.
  Device drivers (SMMU, interrupt controller, console), firmware calls and power management, since
  their effect lies in devices. The manifest and the device tree, which are read through a library
  outside the repository. Messages, mailboxes, notifications and memory sharing between partitions,
  and running a vCPU, which rest on hooks of the platform in both worlds. Boot flow, assembly, log
  messages in other components, the stand-ins of host builds and the code that runs inside VMs.
\<close>

end
